(* ===== verification/Prelude.thy ===== *)
theory Prelude
  imports Main "HOL-Library.Word" "HOL-Library.Char_ord"
begin

text \<open>
  Shared vocabulary of the SecureKit development: the byte types of
  \<^verbatim>\<open>include/securekit/types.hpp\<close>, the error type of
  \<^verbatim>\<open>include/securekit/error.hpp\<close> and \<^verbatim>\<open>src/error.cpp\<close>, the
  state-and-exception computations every stateful component is written in, the
  pre/post triples they are reasoned about with, and the generic list lemmas.
\<close>

unbundle bit_operations_syntax

section \<open>Bytes\<close>

type_synonym byte = "8 word"
type_synonym bytes = "byte list"
type_synonym u32 = "32 word"
type_synonym size_t = "64 word"

text \<open>
  \<^verbatim>\<open>std::array<std::byte, 32>\<close>: a byte list whose length is 32; the
  predicate is what the C++ type guarantees.
\<close>

type_synonym key256 = bytes
type_synonym digest256 = bytes

definition is_key256 :: "bytes \<Rightarrow> bool" where
  "is_key256 k \<longleftrightarrow> length k = 32"

text \<open>
  The bounds \<^verbatim>\<open>std::string::max_size()\<close> and
  \<^verbatim>\<open>std::vector<std::byte>::max_size()\<close> of a 64-bit implementation
  (\<open>2^63 - 1\<close>; some libraries allow less, which changes only when an input is too large) and \<^verbatim>\<open>std::numeric_limits<int>::max()\<close>.
\<close>

definition string_max_size :: nat where
  "string_max_size = 9223372036854775807"

definition bytes_max_size :: nat where
  "bytes_max_size = 9223372036854775807"

definition int_max :: nat where
  "int_max = 2147483647"

text \<open>
  A callee that fills a caller-sized buffer: the bytes it delivered overwrite the
  front of the buffer and never write past its end.
\<close>

definition overwrite :: "bytes \<Rightarrow> bytes \<Rightarrow> bytes" where
  "overwrite buffer data = take (length buffer) data @ drop (length data) buffer"

lemma length_overwrite [simp]: "length (overwrite b d) = length b"
  by (simp add: overwrite_def)

lemma overwrite_full [simp]: "length d = length b \<Longrightarrow> overwrite b d = d"
  by (simp add: overwrite_def)

section \<open>Errors\<close>

datatype error_code =
    invalid_input
  | invalid_encoding
  | invalid_packet
  | authentication_failed
  | backend_failure

text \<open>The exception class: an error code and the message given to \<^verbatim>\<open>what()\<close>.\<close>

datatype error = Error (code: error_code) (what: string)

type_synonym 'a result = "error + 'a"

section \<open>Computations with state and exceptions\<close>

text \<open>
  A call that reads and writes a state and returns or throws: the state after a throw
  is kept, since a C++ exception does not undo what the call had already changed.
\<close>

type_synonym ('e, 's, 'a) act = "'s \<Rightarrow> ('e + 'a) \<times> 's"

definition ret :: "'a \<Rightarrow> ('e, 's, 'a) act" where
  "ret a = (\<lambda>s. (Inr a, s))"

definition throw :: "'e \<Rightarrow> ('e, 's, 'a) act" where
  "throw e = (\<lambda>s. (Inl e, s))"

definition bindM :: "('e, 's, 'a) act \<Rightarrow> ('a \<Rightarrow> ('e, 's, 'b) act) \<Rightarrow> ('e, 's, 'b) act" where
  "bindM m f = (\<lambda>s. case m s of (Inl e, t) \<Rightarrow> (Inl e, t) | (Inr a, t) \<Rightarrow> f a t)"

definition thenM :: "('e, 's, unit) act \<Rightarrow> ('e, 's, 'b) act \<Rightarrow> ('e, 's, 'b) act" where
  "thenM m n = bindM m (\<lambda>_. n)"

text \<open>\<open>throw_if b e\<close> is \<^verbatim>\<open>if (b) throw e;\<close>.\<close>

definition throw_if :: "bool \<Rightarrow> 'e \<Rightarrow> ('e, 's, unit) act" where
  "throw_if b e = (if b then throw e else ret ())"

text \<open>\<open>on_throw m h\<close> is \<^verbatim>\<open>try { m } catch (...) { h; throw; }\<close> for a handler that only changes the state.\<close>

definition on_throw :: "('e, 's, 'a) act \<Rightarrow> ('s \<Rightarrow> 's) \<Rightarrow> ('e, 's, 'a) act" where
  "on_throw m h = (\<lambda>s. case m s of (Inl e, t) \<Rightarrow> (Inl e, h t) | (Inr a, t) \<Rightarrow> (Inr a, t))"

definition lift_result :: "'e + 'a \<Rightarrow> ('e, 's, 'a) act" where
  "lift_result r = (\<lambda>s. (r, s))"

text \<open>Reading and updating the state, and a foreign call that returns a value and the new state.\<close>

definition gets :: "('s \<Rightarrow> 'a) \<Rightarrow> ('e, 's, 'a) act" where
  "gets f = (\<lambda>s. (Inr (f s), s))"

definition modify :: "('s \<Rightarrow> 's) \<Rightarrow> ('e, 's, unit) act" where
  "modify f = (\<lambda>s. (Inr (), f s))"

definition call :: "('s \<Rightarrow> 'a \<times> 's) \<Rightarrow> ('e, 's, 'a) act" where
  "call f = (\<lambda>s. case f s of (a, t) \<Rightarrow> (Inr a, t))"

text \<open>Run a computation on one component of a pair of states.\<close>

definition on_fst :: "('e, 's, 'a) act \<Rightarrow> ('e, 's \<times> 't, 'a) act" where
  "on_fst m = (\<lambda>(s, t). case m s of (r, s') \<Rightarrow> (r, (s', t)))"

definition on_snd :: "('e, 't, 'a) act \<Rightarrow> ('e, 's \<times> 't, 'a) act" where
  "on_snd m = (\<lambda>(s, t). case m t of (r, t') \<Rightarrow> (r, (s, t')))"

named_theorems act_simps \<open>evaluation of computations on a given state\<close>

lemma ret_apply [simp, act_simps]: "ret a s = (Inr a, s)"
  by (simp add: ret_def)

lemma throw_apply [simp, act_simps]: "throw e s = (Inl e, s)"
  by (simp add: throw_def)

lemma lift_result_apply [simp, act_simps]: "lift_result r s = (r, s)"
  by (simp add: lift_result_def)

lemma gets_apply [simp, act_simps]: "gets f s = (Inr (f s), s)"
  by (simp add: gets_def)

lemma modify_apply [simp, act_simps]: "modify f s = (Inr (), f s)"
  by (simp add: modify_def)

lemma call_apply [act_simps]: "call f s = (case f s of (a, t) \<Rightarrow> (Inr a, t))"
  by (simp add: call_def)

lemma call_Inr [simp]: "call f s = (Inr a, t) \<longleftrightarrow> f s = (a, t)"
  by (auto simp: call_def split: prod.splits)

lemma call_Inl [simp]: "call f s = (Inl e, t) \<longleftrightarrow> False"
  by (auto simp: call_def split: prod.splits)

lemma bindM_apply [act_simps]:
  "bindM m f s = (case m s of (Inl e, t) \<Rightarrow> (Inl e, t) | (Inr a, t) \<Rightarrow> f a t)"
  by (simp add: bindM_def)

lemma thenM_apply [act_simps]:
  "thenM m n s = (case m s of (Inl e, t) \<Rightarrow> (Inl e, t) | (Inr _, t) \<Rightarrow> n t)"
  by (simp add: thenM_def bindM_def)

lemma throw_if_apply [act_simps]: "throw_if b e s = (if b then (Inl e, s) else (Inr (), s))"
  by (simp add: throw_if_def)

lemma on_throw_apply [act_simps]:
  "on_throw m h s = (case m s of (Inl e, t) \<Rightarrow> (Inl e, h t) | (Inr a, t) \<Rightarrow> (Inr a, t))"
  by (simp add: on_throw_def)

lemma on_fst_apply [act_simps]: "on_fst m (s, t) = (case m s of (r, s') \<Rightarrow> (r, (s', t)))"
  by (simp add: on_fst_def)

lemma on_snd_apply [act_simps]: "on_snd m (s, t) = (case m t of (r, t') \<Rightarrow> (r, (s, t')))"
  by (simp add: on_snd_def)

text \<open>Success and failure of a sequence, read backwards.\<close>

lemma bindM_Inr: "bindM m f s = (Inr b, u) \<longleftrightarrow> (\<exists>a t. m s = (Inr a, t) \<and> f a t = (Inr b, u))"
  by (auto simp: bindM_def split: prod.splits sum.splits)

lemma bindM_Inl:
  "bindM m f s = (Inl e, u) \<longleftrightarrow>
     m s = (Inl e, u) \<or> (\<exists>a t. m s = (Inr a, t) \<and> f a t = (Inl e, u))"
  by (auto simp: bindM_def split: prod.splits sum.splits)

lemma thenM_Inr: "thenM m n s = (Inr b, u) \<longleftrightarrow> (\<exists>t. m s = (Inr (), t) \<and> n t = (Inr b, u))"
  by (auto simp: thenM_def bindM_Inr)

lemma thenM_Inl:
  "thenM m n s = (Inl e, u) \<longleftrightarrow>
     m s = (Inl e, u) \<or> (\<exists>t. m s = (Inr (), t) \<and> n t = (Inl e, u))"
  by (auto simp: thenM_def bindM_Inl)

lemma throw_if_Inr: "throw_if b e s = (Inr u, t) \<longleftrightarrow> \<not> b \<and> t = s"
  by (auto simp: throw_if_def)

lemma throw_if_Inl: "throw_if b e s = (Inl e', t) \<longleftrightarrow> b \<and> e' = e \<and> t = s"
  by (auto simp: throw_if_def)

lemmas act_InrD = bindM_Inr thenM_Inr throw_if_Inr
lemmas act_InlD = bindM_Inl thenM_Inl throw_if_Inl

section \<open>Triples\<close>

text \<open>
  \<open>triple P m Q E\<close>: from a state satisfying \<open>P\<close>, a normal return
  satisfies \<open>Q\<close> and a throw satisfies \<open>E\<close>.
\<close>

definition triple ::
  "('s \<Rightarrow> bool) \<Rightarrow> ('e, 's, 'a) act \<Rightarrow> ('a \<Rightarrow> 's \<Rightarrow> bool) \<Rightarrow> ('e \<Rightarrow> 's \<Rightarrow> bool) \<Rightarrow> bool" where
  "triple P m Q E \<longleftrightarrow>
     (\<forall>s. P s \<longrightarrow> (case m s of (Inl e, t) \<Rightarrow> E e t | (Inr a, t) \<Rightarrow> Q a t))"

named_theorems triple_intros \<open>triples of the operations\<close>

lemma tripleI:
  assumes "\<And>s a t. P s \<Longrightarrow> m s = (Inr a, t) \<Longrightarrow> Q a t"
    and "\<And>s e t. P s \<Longrightarrow> m s = (Inl e, t) \<Longrightarrow> E e t"
  shows "triple P m Q E"
  using assms by (auto simp: triple_def split: prod.splits sum.splits)

lemma triple_InrD: "triple P m Q E \<Longrightarrow> P s \<Longrightarrow> m s = (Inr a, t) \<Longrightarrow> Q a t"
  by (auto simp: triple_def)

lemma triple_InlD: "triple P m Q E \<Longrightarrow> P s \<Longrightarrow> m s = (Inl e, t) \<Longrightarrow> E e t"
  by (auto simp: triple_def)

lemma triple_weaken:
  assumes "triple P m Q E" and "\<And>s. P' s \<Longrightarrow> P s"
    and "\<And>a t. Q a t \<Longrightarrow> Q' a t" and "\<And>e t. E e t \<Longrightarrow> E' e t"
  shows "triple P' m Q' E'"
  using assms by (fastforce simp: triple_def split: prod.splits sum.splits)

lemma triple_ret [triple_intros]: "triple (Q a) (ret a) Q E"
  by (simp add: triple_def)

lemma triple_throw [triple_intros]: "triple (E e) (throw e) Q E"
  by (simp add: triple_def)

lemma triple_bindM:
  assumes "triple P m R E" and "\<And>a. triple (R a) (f a) Q E"
  shows "triple P (bindM m f) Q E"
  using assms by (fastforce simp: triple_def bindM_def split: prod.splits sum.splits)

lemma triple_thenM:
  assumes "triple P m (\<lambda>_. R) E" and "triple R n Q E"
  shows "triple P (thenM m n) Q E"
  unfolding thenM_def using assms by (rule triple_bindM)

lemma triple_throw_if:
  "(\<And>s. P s \<Longrightarrow> b \<Longrightarrow> E e s) \<Longrightarrow> (\<And>s. P s \<Longrightarrow> \<not> b \<Longrightarrow> Q () s) \<Longrightarrow> triple P (throw_if b e) Q E"
  by (auto simp: triple_def throw_if_def)

lemma triple_on_throw:
  assumes "triple P m Q E" and "\<And>e s. E e s \<Longrightarrow> E' e (h s)"
  shows "triple P (on_throw m h) Q E'"
  using assms by (fastforce simp: triple_def on_throw_def split: prod.splits sum.splits)

text \<open>
  The weakest precondition: evaluating a computation forwards, one equation per
  construct, so that the simplifier runs through a function body.
\<close>

definition wp ::
  "('e, 's, 'a) act \<Rightarrow> ('a \<Rightarrow> 's \<Rightarrow> bool) \<Rightarrow> ('e \<Rightarrow> 's \<Rightarrow> bool) \<Rightarrow> 's \<Rightarrow> bool" where
  "wp m Q E s = (case m s of (Inl e, t) \<Rightarrow> E e t | (Inr a, t) \<Rightarrow> Q a t)"

named_theorems wp_simps \<open>weakest preconditions of the operations\<close>

lemma triple_wp: "triple P m Q E \<longleftrightarrow> (\<forall>s. P s \<longrightarrow> wp m Q E s)"
  by (simp add: triple_def wp_def)

lemma wpI:
  "(\<And>a t. m s = (Inr a, t) \<Longrightarrow> Q a t) \<Longrightarrow> (\<And>e t. m s = (Inl e, t) \<Longrightarrow> E e t) \<Longrightarrow> wp m Q E s"
  by (auto simp: wp_def split: prod.splits sum.splits)

lemma wp_iff:
  "wp m Q E s \<longleftrightarrow> (\<forall>a t. m s = (Inr a, t) \<longrightarrow> Q a t) \<and> (\<forall>e t. m s = (Inl e, t) \<longrightarrow> E e t)"
  by (auto simp: wp_def split: prod.splits sum.splits)

lemma wp_InrD: "wp m Q E s \<Longrightarrow> m s = (Inr a, t) \<Longrightarrow> Q a t"
  by (simp add: wp_def)

lemma wp_InlD: "wp m Q E s \<Longrightarrow> m s = (Inl e, t) \<Longrightarrow> E e t"
  by (simp add: wp_def)

lemma wp_result: "wp m (\<lambda>a. P (Inr a)) (\<lambda>e. P (Inl e)) s \<Longrightarrow> m s = (r, t) \<Longrightarrow> P r t"
  by (cases r) (simp_all add: wp_def)

lemma wp_mono:
  assumes "wp m Q E s" and "\<And>a t. Q a t \<Longrightarrow> Q' a t" and "\<And>e t. E e t \<Longrightarrow> E' e t"
  shows "wp m Q' E' s"
  using assms by (auto simp: wp_iff)

lemma wp_ret [wp_simps]: "wp (ret a) Q E s = Q a s"
  by (simp add: wp_def)

lemma wp_throw [wp_simps]: "wp (throw e) Q E s = E e s"
  by (simp add: wp_def)

lemma wp_throw_if [wp_simps]: "wp (throw_if b e) Q E s = (if b then E e s else Q () s)"
  by (simp add: wp_def throw_if_def)

lemma wp_lift_result [wp_simps]:
  "wp (lift_result r) Q E s = ((\<forall>e. r = Inl e \<longrightarrow> E e s) \<and> (\<forall>a. r = Inr a \<longrightarrow> Q a s))"
  by (simp add: wp_def split: sum.splits)

lemma wp_gets [wp_simps]: "wp (gets f) Q E s = Q (f s) s"
  by (simp add: wp_def)

lemma wp_modify [wp_simps]: "wp (modify f) Q E s = Q () (f s)"
  by (simp add: wp_def)

lemma wp_call [wp_simps]: "wp (call f) Q E s = (\<forall>a t. f s = (a, t) \<longrightarrow> Q a t)"
  by (auto simp: wp_iff)

lemma wp_bindM [wp_simps]: "wp (bindM m f) Q E s = wp m (\<lambda>a. wp (f a) Q E) E s"
  by (auto simp: wp_def bindM_def split: prod.splits sum.splits)

lemma wp_thenM [wp_simps]: "wp (thenM m n) Q E s = wp m (\<lambda>_. wp n Q E) E s"
  by (auto simp: wp_def thenM_def bindM_def split: prod.splits sum.splits)

lemma wp_on_throw [wp_simps]: "wp (on_throw m h) Q E s = wp m Q (\<lambda>e t. E e (h t)) s"
  by (auto simp: wp_def on_throw_def split: prod.splits sum.splits)

lemma wp_on_fst [wp_simps]:
  "wp (on_fst m) Q E (s, t) = wp m (\<lambda>a s'. Q a (s', t)) (\<lambda>e s'. E e (s', t)) s"
  by (auto simp: wp_def on_fst_def split: prod.splits sum.splits)

lemma wp_on_snd [wp_simps]:
  "wp (on_snd m) Q E (s, t) = wp m (\<lambda>a t'. Q a (s, t')) (\<lambda>e t'. E e (s, t')) t"
  by (auto simp: wp_def on_snd_def split: prod.splits sum.splits)

lemma wp_if [wp_simps]: "wp (if b then m else n) Q E s = (if b then wp m Q E s else wp n Q E s)"
  by simp

lemma wp_case_prod [wp_simps]: "wp (case p of (a, b) \<Rightarrow> f a b) Q E s = wp (f (fst p) (snd p)) Q E s"
  by (simp add: case_prod_beta)

lemma wp_case_option [wp_simps]:
  "wp (case x of None \<Rightarrow> m | Some a \<Rightarrow> f a) Q E s = 
     ((x = None \<longrightarrow> wp m Q E s) \<and> (\<forall>a. x = Some a \<longrightarrow> wp (f a) Q E s))"
  by (simp split: option.splits)

text \<open>An invariant kept whether the call returns or throws.\<close>

definition preserves :: "('s \<Rightarrow> bool) \<Rightarrow> ('e, 's, 'a) act \<Rightarrow> bool" where
  "preserves I m \<longleftrightarrow> triple I m (\<lambda>_. I) (\<lambda>_. I)"

lemma preserves_iff: "preserves I m \<longleftrightarrow> (\<forall>s. I s \<longrightarrow> I (snd (m s)))"
proof -
  have "(case x of (Inl e, t) \<Rightarrow> I t | (Inr a, t) \<Rightarrow> I t) = I (snd x)" for x :: "('b + 'c) \<times> 'a"
    by (cases x; cases "fst x") auto
  then show ?thesis by (simp add: preserves_def triple_def)
qed

lemma preservesD: "preserves I m \<Longrightarrow> I s \<Longrightarrow> m s = (r, t) \<Longrightarrow> I t"
  by (force simp: preserves_iff)

named_theorems preserves_intros \<open>operations keep an invariant\<close>

lemma preserves_ret [preserves_intros]: "preserves I (ret a)"
  by (simp add: preserves_iff)

lemma preserves_throw [preserves_intros]: "preserves I (throw e)"
  by (simp add: preserves_iff)

lemma preserves_throw_if [preserves_intros]: "preserves I (throw_if b e)"
  by (simp add: preserves_iff throw_if_def)

lemma preserves_bindM [preserves_intros]:
  "preserves I m \<Longrightarrow> (\<And>a. preserves I (f a)) \<Longrightarrow> preserves I (bindM m f)"
  unfolding preserves_def by (rule triple_bindM)

lemma preserves_thenM [preserves_intros]:
  "preserves I m \<Longrightarrow> preserves I n \<Longrightarrow> preserves I (thenM m n)"
  unfolding thenM_def by (rule preserves_bindM)

lemma preserves_on_throw [preserves_intros]:
  "preserves I m \<Longrightarrow> (\<And>s. I s \<Longrightarrow> I (h s)) \<Longrightarrow> preserves I (on_throw m h)"
  unfolding preserves_def by (rule triple_on_throw)

section \<open>Machine integers\<close>

text \<open>Masks and shifts of the code as remainders and quotients.\<close>

named_theorems bits_to_nat \<open>masks and shifts as arithmetic\<close>

lemma unat_and_low:
  fixes x :: "'a::len word"
  assumes "m = mask n" and "n \<le> LENGTH('a)"
  shows "unat (x AND m) = unat x mod 2 ^ n"
proof -
  have "unat (x AND m) = unat (take_bit n x)"
    using assms(1) by (simp only: take_bit_eq_mask)
  also have "\<dots> = take_bit n (unat x)"
    by (rule unsigned_take_bit_eq)
  finally show ?thesis by (simp only: take_bit_eq_mod)
qed

lemma unat_and_0f [bits_to_nat]: "unat (x AND 0x0f :: u32) = unat x mod 16"
  using unat_and_low [of 15 4 x] by (simp add: mask_eq_exp_minus_1)

lemma unat_and_3f [bits_to_nat]: "unat (x AND 0x3f :: u32) = unat x mod 64"
  using unat_and_low [of 63 6 x] by (simp add: mask_eq_exp_minus_1)

lemma unat_and_ff [bits_to_nat]: "unat (x AND 0xff :: u32) = unat x mod 256"
  using unat_and_low [of 255 8 x] by (simp add: mask_eq_exp_minus_1)

lemma unat_ucast_u32 [bits_to_nat]: "unat (ucast (b :: byte) :: u32) = unat b"
  using unsigned_less [of b, where 'a = nat]
  by (simp add: unsigned_ucast_eq take_bit_eq_mod)

lemma unat_shift_right [bits_to_nat]: "unat (drop_bit n x :: 'a::len word) = unat x div 2 ^ n"
  by (metis drop_bit_eq_div unat_drop_bit_eq)

lemma unat_byte_less [simp]: "unat (b :: byte) < 256"
  using unsigned_less [of b, where 'a = nat] by simp

lemma unat_byte_div [simp]:
  "unat (b :: byte) div 4 < 64" "unat b div 16 < 16" "unat b div 64 < 4"
  using unat_byte_less [of b] by (simp_all add: less_mult_imp_div_less)

text \<open>Joining a high part and a low part that do not overlap.\<close>

lemma push_or_int [bits_to_nat]:
  fixes h l :: int
  assumes "0 \<le> l" and "l < 2 ^ n"
  shows "push_bit n h OR l = h * 2 ^ n + l"
proof -
  have "take_bit n l = l" using assms by (simp add: take_bit_int_eq_self_iff)
  then have "\<not> bit l i" if "n \<le> i" for i
    using that by (metis bit_take_bit_iff not_less)
  then have "push_bit n h OR l = push_bit n h + l"
    by (intro disjunctive_add_eq_or [symmetric] bit_eqI)
      (auto simp: bit_simps not_less)
  then show ?thesis by (simp add: push_bit_eq_mult)
qed

lemma unat_push_or_word:
  fixes h l :: "'a::len word"
  assumes "unat l < 2 ^ n" and "unat h * 2 ^ n + unat l < 2 ^ LENGTH('a)"
  shows "unat (push_bit n h OR l) = unat h * 2 ^ n + unat l"
proof -
  have l: "take_bit n l = l"
    using assms(1) by (simp add: word_unat_eq_iff unsigned_take_bit_eq take_bit_nat_eq_self_iff)
  then have "\<not> bit l i" if "n \<le> i" for i
    using that by (metis bit_take_bit_iff not_less)
  then have "push_bit n h OR l = push_bit n h + l"
    by (intro disjunctive_add_eq_or [symmetric] bit_eqI)
      (auto simp: bit_simps not_less)
  also have "\<dots> = of_nat (unat h * 2 ^ n + unat l)"
    by (simp add: push_bit_eq_mult)
  finally show ?thesis
    using assms(2) by (simp add: unsigned_of_nat take_bit_nat_eq_self_iff del: of_nat_add of_nat_mult)
qed

section \<open>Lists\<close>

text \<open>Induction that follows a loop stepping over fixed-size groups.\<close>

lemma drop_length_less: "xs \<noteq> [] \<Longrightarrow> 0 < n \<Longrightarrow> length (drop n xs) < length xs"
  by (cases xs) auto

text \<open>Membership of a character in a text, on the character codes.\<close>

lemma mem_codes: "c \<in> set s \<longleftrightarrow> (of_char c :: nat) \<in> set (map of_char s)"
  by (auto dest: of_char_eq_iff [THEN iffD1])

end
