(* ===== verification/Codec.thy ===== *)
theory Codec
  imports Prelude
begin

text \<open>
  The contract the three text encodings share (\<^verbatim>\<open>src/hex.cpp\<close>,
  \<^verbatim>\<open>src/base64.cpp\<close>): README, "Hex and Base64 decoders are strict only". The
  token generator and the command line use the encoders and decoders through it.
\<close>

text \<open>
  A strict codec: decoding undoes encoding, and what the decoder accepts re-encodes
  to a normal form of the text it was given. \<open>fits\<close> is the size bound under
  which the encoder does not report an input that is too large.
\<close>

locale strict_codec =
  fixes encode :: "bytes \<Rightarrow> string result"
    and decode :: "string \<Rightarrow> bytes result"
    and normal :: "string \<Rightarrow> string"
    and fits :: "bytes \<Rightarrow> bool"
  assumes encode_total: "fits b \<Longrightarrow> \<exists>s. encode b = Inr s"
    and encode_fits: "encode b = Inr s \<Longrightarrow> fits b"
    and decode_encode: "encode b = Inr s \<Longrightarrow> decode s = Inr b"
    and encode_decode: "decode s = Inr b \<Longrightarrow> fits b \<Longrightarrow> encode b = Inr (normal s)"
begin

lemma encode_inj: "encode b = Inr s \<Longrightarrow> encode b' = Inr s \<Longrightarrow> b = b'"
  by (metis decode_encode sum.inject(2))

lemma encoded_is_normal: "encode b = Inr s \<Longrightarrow> normal s = s"
  using decode_encode encode_decode encode_fits by (metis sum.inject(2))

lemma decode_normal: "decode s = Inr b \<Longrightarrow> fits b \<Longrightarrow> decode (normal s) = Inr b"
  using encode_decode decode_encode by blast

lemma normal_idem: "decode s = Inr b \<Longrightarrow> fits b \<Longrightarrow> normal (normal s) = normal s"
  using encode_decode encoded_is_normal by blast

text \<open>Two accepted texts stand for the same bytes exactly when their normal forms agree.\<close>

lemma decode_eq_iff:
  assumes "decode s = Inr b" and "decode s' = Inr b'" and "fits b" and "fits b'"
  shows "b = b' \<longleftrightarrow> normal s = normal s'"
  using assms encode_decode encode_inj by (metis sum.inject(2))

end

text \<open>
  A canonical codec accepts no text but the encoder's own output.
\<close>

locale canonical_codec =
  fixes encode :: "bytes \<Rightarrow> string result"
    and decode :: "string \<Rightarrow> bytes result"
    and fits :: "bytes \<Rightarrow> bool"
  assumes total: "fits b \<Longrightarrow> \<exists>s. encode b = Inr s"
    and total_only: "encode b = Inr s \<Longrightarrow> fits b"
    and canonical: "decode s = Inr b \<longleftrightarrow> encode b = Inr s"

sublocale canonical_codec \<subseteq> strict_codec encode decode "\<lambda>s. s" fits
  by unfold_locales (use total total_only canonical in auto)

context canonical_codec begin

lemma decode_inj: "decode s = Inr b \<Longrightarrow> decode s' = Inr b \<Longrightarrow> s = s'"
  by (metis canonical sum.inject(2))

lemma rejects_other_texts: "(\<forall>b. encode b \<noteq> Inr s) \<Longrightarrow> \<exists>e. decode s = Inl e"
  by (metis canonical sumE)

end

end
