(* ===== verification/Hex.thy ===== *)
theory Hex
  imports Codec
begin

text \<open>
  \<^verbatim>\<open>src/hex.cpp\<close>: \<^verbatim>\<open>hex_encode\<close> writes two lower-case digits per byte,
  \<^verbatim>\<open>hex_decode\<close> accepts an even number of digits of either case and nothing else.
\<close>

section \<open>The code\<close>

definition kDigits :: string where
  "kDigits = ''0123456789abcdef''"

definition encode_nibble :: "u32 \<Rightarrow> char" where
  "encode_nibble value = kDigits ! unat (value AND 0x0f)"

text \<open>\<^verbatim>\<open>ascii c\<close> is the \<^verbatim>\<open>int\<close> a character is promoted to.\<close>

definition ascii :: "char \<Rightarrow> int" where
  "ascii c = int (of_char c)"

definition decode_nibble :: "char \<Rightarrow> int" where
  "decode_nibble value =
     (if CHR ''0'' \<le> value \<and> value \<le> CHR ''9'' then ascii value - ascii CHR ''0''
      else if CHR ''a'' \<le> value \<and> value \<le> CHR ''f'' then ascii value - ascii CHR ''a'' + 10
      else if CHR ''A'' \<le> value \<and> value \<le> CHR ''F'' then ascii value - ascii CHR ''A'' + 10
      else -1)"

fun hex_encode_loop :: "bytes \<Rightarrow> string" where
  "hex_encode_loop [] = []"
| "hex_encode_loop (byte # rest) =
     (let value = ucast byte :: u32
      in encode_nibble (drop_bit 4 value) # encode_nibble value # hex_encode_loop rest)"

definition hex_encode :: "bytes \<Rightarrow> string result" where
  "hex_encode input =
     (if length input > string_max_size div 2
      then Inl (Error invalid_input ''hex input is too large to encode'')
      else Inr (hex_encode_loop input))"

text \<open>The loop reads \<open>input[index]\<close> and \<open>input[index + 1]\<close>; the length check has made both exist.\<close>

fun hex_decode_loop :: "string \<Rightarrow> bytes \<Rightarrow> bytes result" where
  "hex_decode_loop (c0 # c1 # rest) acc =
     (let high = decode_nibble c0; low = decode_nibble c1
      in if high < 0 \<or> low < 0
         then Inl (Error invalid_encoding ''hex input contains a non-hexadecimal character'')
         else hex_decode_loop rest (acc @ [word_of_int (push_bit 4 high OR low)]))"
| "hex_decode_loop _ acc = Inr acc"

definition hex_decode :: "string \<Rightarrow> bytes result" where
  "hex_decode input =
     (if length input mod 2 \<noteq> 0
      then Inl (Error invalid_encoding ''hex input must contain an even number of characters'')
      else hex_decode_loop input [])"

section \<open>Digits\<close>

definition is_hex_digit :: "char \<Rightarrow> bool" where
  "is_hex_digit c \<longleftrightarrow> 0 \<le> decode_nibble c"

definition lower_digit :: "char \<Rightarrow> char" where
  "lower_digit c = (if CHR ''A'' \<le> c \<and> c \<le> CHR ''F'' then char_of (of_char c + 32 :: nat) else c)"

lemma hex_digit_cases: "is_hex_digit c \<longleftrightarrow> c \<in> set ''0123456789abcdefABCDEF''"
proof -
  define n where "n = (of_char c :: nat)"
  have c: "c = char_of n" by (simp add: n_def)
  have "is_hex_digit c \<longleftrightarrow> n \<in> {48..57} \<union> {97..102} \<union> {65..70}"
    by (auto simp: is_hex_digit_def decode_nibble_def ascii_def less_eq_char_def n_def)
  also have "\<dots> \<longleftrightarrow> n \<in> set (map of_char ''0123456789abcdefABCDEF'')"
    by (simp add: of_char_Char) presburger
  also have "\<dots> \<longleftrightarrow> c \<in> set ''0123456789abcdefABCDEF''"
    unfolding n_def by (rule mem_codes [symmetric])
  finally show ?thesis .
qed

lemma decode_digit [simp]: "n < 16 \<Longrightarrow> decode_nibble (kDigits ! n) = int n"
proof -
  have "\<forall>n \<in> set [0..<16]. decode_nibble (kDigits ! n) = int n"
    by (simp add: upt_rec kDigits_def decode_nibble_def ascii_def less_eq_char_def)
  then show "n < 16 \<Longrightarrow> decode_nibble (kDigits ! n) = int n" by auto
qed

lemma lower_digit_code:
  assumes "is_hex_digit c"
  shows "lower_digit c = kDigits ! nat (decode_nibble c) \<and> decode_nibble c < 16"
proof -
  have "\<forall>c \<in> set ''0123456789abcdefABCDEF''.
      lower_digit c = kDigits ! nat (decode_nibble c) \<and> decode_nibble c < 16"
    by (simp add: lower_digit_def decode_nibble_def ascii_def less_eq_char_def kDigits_def char_of_def bit_0)
  with assms show ?thesis unfolding hex_digit_cases by blast
qed

section \<open>Encoding and decoding\<close>

abbreviation hex_fits :: "bytes \<Rightarrow> bool" where
  "hex_fits b \<equiv> length b \<le> string_max_size div 2"

text \<open>The two digits of a byte are its quotient and remainder by 16.\<close>

lemma hex_encode_loop_Cons [simp]:
  "hex_encode_loop (b # bs) = kDigits ! (unat b div 16) # kDigits ! (unat b mod 16) # hex_encode_loop bs"
  using unat_byte_less [of b]
  by (simp add: Let_def encode_nibble_def bits_to_nat del: unat_byte_less)

declare hex_encode_loop.simps(2) [simp del]

lemma length_hex_encode_loop [simp]: "length (hex_encode_loop b) = 2 * length b"
  by (induction b) auto

lemma byte_of_digits:
  "h < 16 \<Longrightarrow> l < 16 \<Longrightarrow> (word_of_int (push_bit 4 (int h) OR int l) :: byte) = of_nat (16 * h + l)"
  by (simp add: push_or_int [of _ 4] mult.commute)

lemma decode_digit_pair:
  assumes "is_hex_digit c0" and "is_hex_digit c1"
  shows "hex_encode_loop [word_of_int (push_bit 4 (decode_nibble c0) OR decode_nibble c1)] =
    [lower_digit c0, lower_digit c1]"
proof -
  define h where "h = nat (decode_nibble c0)"
  define l where "l = nat (decode_nibble c1)"
  have h: "decode_nibble c0 = int h" "h < 16" "lower_digit c0 = kDigits ! h"
    and l: "decode_nibble c1 = int l" "l < 16" "lower_digit c1 = kDigits ! l"
    using assms lower_digit_code [of c0] lower_digit_code [of c1]
    by (auto simp: h_def l_def is_hex_digit_def)
  have "unat (of_nat (16 * h + l) :: byte) = 16 * h + l"
    using h(2) l(2) by (simp add: unsigned_of_nat take_bit_nat_eq_self del: of_nat_add of_nat_mult)
  then show ?thesis
    by (simp only: h l byte_of_digits hex_encode_loop_Cons) (use l(2) in simp)
qed

lemma hex_decode_encode_loop: "hex_decode_loop (hex_encode_loop b) acc = Inr (acc @ b)"
proof (induction b arbitrary: acc)
  case (Cons x b)
  then show ?case
    using unat_byte_less [of x]
    by (simp add: byte_of_digits Let_def del: unat_byte_less of_nat_add of_nat_mult)
qed simp

lemma hex_decode_loop_Inr:
  "hex_decode_loop s acc = Inr b \<Longrightarrow> even (length s) \<Longrightarrow>
     \<exists>d. b = acc @ d \<and> hex_encode_loop d = map lower_digit s \<and> list_all is_hex_digit s"
proof (induction s acc rule: hex_decode_loop.induct)
  case (1 c0 c1 rest acc)
  let ?x = "word_of_int (push_bit 4 (decode_nibble c0) OR decode_nibble c1) :: byte"
  from "1.prems" have dig: "is_hex_digit c0" "is_hex_digit c1"
    and rec: "hex_decode_loop rest (acc @ [?x]) = Inr b"
    by (auto simp: is_hex_digit_def Let_def split: if_splits)
  from "1.IH" [OF refl refl _ rec] dig "1.prems"(2) obtain d
    where "b = acc @ ?x # d" "hex_encode_loop d = map lower_digit rest" "list_all is_hex_digit rest"
    unfolding is_hex_digit_def by (auto simp: not_less)
  then show ?case
    using dig decode_digit_pair [OF dig] by (intro exI [of _ "?x # d"]) simp
qed auto

lemma hex_decode_loop_total:
  "list_all is_hex_digit s \<Longrightarrow> \<exists>b. hex_decode_loop s acc = Inr b"
  by (induction s acc rule: hex_decode_loop.induct) (auto simp: is_hex_digit_def Let_def)

lemma hex_encode_fits: "hex_encode b = Inr s \<longleftrightarrow> hex_fits b \<and> s = hex_encode_loop b"
  by (auto simp: hex_encode_def)

lemma hex_decode_Inr:
  "hex_decode s = Inr b \<Longrightarrow>
     even (length s) \<and> list_all is_hex_digit s \<and> hex_encode_loop b = map lower_digit s"
  using hex_decode_loop_Inr [of s "[]" b] by (auto simp: hex_decode_def split: if_splits)

lemma hex_decode_iff:
  "(\<exists>b. hex_decode s = Inr b) \<longleftrightarrow> even (length s) \<and> list_all is_hex_digit s"
proof
  assume "even (length s) \<and> list_all is_hex_digit s"
  then show "\<exists>b. hex_decode s = Inr b"
    using hex_decode_loop_total [of s "[]"] by (simp add: hex_decode_def)
qed (use hex_decode_Inr in blast)

lemma hex_decode_encode: "hex_decode (hex_encode_loop b) = Inr b"
  by (simp add: hex_decode_def hex_decode_encode_loop)

interpretation hex: strict_codec hex_encode hex_decode "map lower_digit" hex_fits
  by unfold_locales
    (simp_all add: hex_encode_fits hex_decode_encode hex_decode_Inr)

text \<open>Every failure of the decoder is reported under the one code for malformed text.\<close>

lemma hex_decode_loop_Inl: "hex_decode_loop s acc = Inl e \<Longrightarrow> code e = invalid_encoding"
  by (induction s acc rule: hex_decode_loop.induct) (auto simp: Let_def split: if_splits)

lemma hex_decode_Inl: "hex_decode s = Inl e \<Longrightarrow> code e = invalid_encoding"
  by (auto simp: hex_decode_def hex_decode_loop_Inl split: if_splits)

section \<open>Properties\<close>

text \<open>
  C35: The hexadecimal codec is strict. Every byte sequence up to half the maximal string size
  encodes, to twice as many characters, and \<^verbatim>\<open>hex_decode\<close> of the text is the sequence.
  \<^verbatim>\<open>hex_decode\<close> accepts a text exactly when it has an even number of
  characters that are all hexadecimal digits of either case; the bytes it returns
  encode back to the lower-case form of the text; and it rejects everything else with
  \<^verbatim>\<open>invalid_encoding\<close>.
\<close>

theorem hex_strict:
  "(length input \<le> string_max_size div 2 \<longrightarrow>
      (\<exists>t. hex_encode input = Inr t \<and> length t = 2 * length input \<and> hex_decode t = Inr input)) \<and>
   (case hex_decode s of
     Inr b \<Rightarrow> even (length s) \<and> list_all is_hex_digit s \<and> hex_encode_loop b = map lower_digit s
   | Inl e \<Rightarrow> \<not> (even (length s) \<and> list_all is_hex_digit s) \<and> code e = invalid_encoding)"
proof (intro conjI impI)
  assume "length input \<le> string_max_size div 2"
  then show "\<exists>t. hex_encode input = Inr t \<and> length t = 2 * length input \<and> hex_decode t = Inr input"
    using hex.decode_encode by (simp add: hex_encode_fits)
next
  show "case hex_decode s of
     Inr b \<Rightarrow> even (length s) \<and> list_all is_hex_digit s \<and> hex_encode_loop b = map lower_digit s
   | Inl e \<Rightarrow> \<not> (even (length s) \<and> list_all is_hex_digit s) \<and> code e = invalid_encoding"
    using hex_decode_iff [of s] hex_decode_Inl [of s] hex_decode_Inr [of s] by (cases "hex_decode s") auto
qed

theorem hex_strict_witness:
  "\<exists>t. hex_encode [0x00, 0xab, 0xff] = Inr t \<and> length t = 6 \<and> hex_decode t = Inr [0x00, 0xab, 0xff]"
  using hex_strict [of "[0x00, 0xab, 0xff]"] by (simp add: string_max_size_def)

end
