(* ===== verification/Base64.thy ===== *)
theory Base64
  imports Codec
begin

text \<open>
  \<^verbatim>\<open>src/base64.cpp\<close>: strict Base64 and unpadded Base64URL. Both decoders
  validate the text, decode it, and re-encode the result to reject text that is not in
  canonical form.
\<close>

section \<open>The code\<close>

definition kAlphabet :: string where
  "kAlphabet = ''ABCDEFGHIJKLMNOPQRSTUVWXYZabcdefghijklmnopqrstuvwxyz0123456789+/''"

definition code_of :: "char \<Rightarrow> int" where
  "code_of c = int (of_char c)"

definition decode_char :: "char \<Rightarrow> int" where
  "decode_char ch =
     (if CHR ''A'' \<le> ch \<and> ch \<le> CHR ''Z'' then code_of ch - code_of CHR ''A''
      else if CHR ''a'' \<le> ch \<and> ch \<le> CHR ''z'' then code_of ch - code_of CHR ''a'' + 26
      else if CHR ''0'' \<le> ch \<and> ch \<le> CHR ''9'' then code_of ch - code_of CHR ''0'' + 52
      else if ch = CHR ''+'' then 62
      else if ch = CHR ''/'' then 63
      else -1)"

definition is_base64url_char :: "char \<Rightarrow> bool" where
  "is_base64url_char ch \<longleftrightarrow>
     (CHR ''A'' \<le> ch \<and> ch \<le> CHR ''Z'') \<or> (CHR ''a'' \<le> ch \<and> ch \<le> CHR ''z'') \<or>
     (CHR ''0'' \<le> ch \<and> ch \<le> CHR ''9'') \<or> ch = CHR ''-'' \<or> ch = CHR ''_''"

text \<open>The scan carries the code's \<^verbatim>\<open>seen_padding\<close> and \<^verbatim>\<open>padding\<close> and returns the latter.\<close>

fun reject_invalid_base64_scan :: "string \<Rightarrow> bool \<Rightarrow> nat \<Rightarrow> nat result" where
  "reject_invalid_base64_scan [] seen_padding padding = Inr padding"
| "reject_invalid_base64_scan (ch # rest) seen_padding padding =
     (if ch = CHR ''='' then
        (if padding + 1 > 2 then Inl (Error invalid_encoding ''base64 input has too much padding'')
         else reject_invalid_base64_scan rest True (padding + 1))
      else if seen_padding then Inl (Error invalid_encoding ''base64 input has data after padding'')
      else if decode_char ch < 0 then Inl (Error invalid_encoding ''base64 input contains an invalid character'')
      else reject_invalid_base64_scan rest seen_padding padding)"

definition reject_invalid_base64 :: "string \<Rightarrow> unit result" where
  "reject_invalid_base64 input =
     (if length input mod 4 \<noteq> 0
      then Inl (Error invalid_encoding ''base64 input length must be a multiple of four'')
      else case reject_invalid_base64_scan input False 0 of
        Inl e \<Rightarrow> Inl e
      | Inr padding \<Rightarrow>
          if padding > 0 \<and> length input < 4
          then Inl (Error invalid_encoding ''base64 padding without data'')
          else Inr ())"

fun reject_invalid_base64url_scan :: "string \<Rightarrow> unit result" where
  "reject_invalid_base64url_scan [] = Inr ()"
| "reject_invalid_base64url_scan (ch # rest) =
     (if \<not> is_base64url_char ch
      then Inl (Error invalid_encoding ''base64url input contains an invalid character'')
      else reject_invalid_base64url_scan rest)"

definition reject_invalid_base64url :: "string \<Rightarrow> unit result" where
  "reject_invalid_base64url input =
     (if length input mod 4 = 1
      then Inl (Error invalid_encoding ''base64url input has invalid length'')
      else reject_invalid_base64url_scan input)"

text \<open>One round of the encoder's loop: the group of up to three bytes that starts at \<^verbatim>\<open>i\<close>.\<close>

definition base64_encode_group :: "bytes \<Rightarrow> string" where
  "base64_encode_group grp =
     (let has_b1 = 1 < length grp;
          has_b2 = 2 < length grp;
          b0 = ucast (grp ! 0) :: u32;
          b1 = (if has_b1 then ucast (grp ! 1) else 0) :: u32;
          b2 = (if has_b2 then ucast (grp ! 2) else 0) :: u32
      in [kAlphabet ! unat (drop_bit 2 b0 AND 0x3f),
          kAlphabet ! unat ((push_bit 4 b0 OR drop_bit 4 b1) AND 0x3f),
          (if has_b1 then kAlphabet ! unat ((push_bit 2 b1 OR drop_bit 6 b2) AND 0x3f) else CHR ''=''),
          (if has_b2 then kAlphabet ! unat (b2 AND 0x3f) else CHR ''='')])"

fun base64_encode_loop :: "bytes \<Rightarrow> string" where
  "base64_encode_loop [] = []"
| "base64_encode_loop (b # bs) = base64_encode_group (b # bs) @ base64_encode_loop (drop 3 (b # bs))"

definition base64_encode :: "bytes \<Rightarrow> string result" where
  "base64_encode input =
     (let trailing_group = (if length input mod 3 = 0 then 0 else 1);
          encoded_groups = length input div 3 + trailing_group
      in if encoded_groups > string_max_size div 4
         then Inl (Error invalid_input ''base64 input is too large to encode'')
         else Inr (base64_encode_loop input))"

text \<open>\<^verbatim>\<open>while (!output.empty() && output.back() == '=') output.pop_back();\<close>\<close>

function strip_padding :: "string \<Rightarrow> string" where
  "strip_padding s = (if s \<noteq> [] \<and> last s = CHR ''='' then strip_padding (butlast s) else s)"
  by pat_completeness auto
termination by (relation "measure length") auto

definition url_char :: "char \<Rightarrow> char" where
  "url_char ch = (if ch = CHR ''+'' then CHR ''-'' else if ch = CHR ''/'' then CHR ''_'' else ch)"

definition base64url_encode :: "bytes \<Rightarrow> string result" where
  "base64url_encode input =
     (case base64_encode input of
        Inl e \<Rightarrow> Inl e
      | Inr output \<Rightarrow> Inr (strip_padding (map url_char output)))"

text \<open>One round of the decoder's loop, on four characters of validated text.\<close>

definition base64_decode_group :: "char \<Rightarrow> char \<Rightarrow> char \<Rightarrow> char \<Rightarrow> bytes" where
  "base64_decode_group i0 i1 i2 i3 =
     (let c0 = decode_char i0;
          c1 = decode_char i1;
          c2 = (if i2 = CHR ''='' then 0 else decode_char i2);
          c3 = (if i3 = CHR ''='' then 0 else decode_char i3)
      in [word_of_int (push_bit 2 c0 OR drop_bit 4 c1)]
         @ (if i2 \<noteq> CHR ''='' then [word_of_int (push_bit 4 (c1 AND 0x0f) OR drop_bit 2 c2)] else [])
         @ (if i3 \<noteq> CHR ''='' then [word_of_int (push_bit 6 (c2 AND 0x03) OR c3)] else []))"

fun base64_decode_loop :: "string \<Rightarrow> bytes" where
  "base64_decode_loop (i0 # i1 # i2 # i3 # rest) =
     base64_decode_group i0 i1 i2 i3 @ base64_decode_loop rest"
| "base64_decode_loop _ = []"

definition ends_with :: "string \<Rightarrow> string \<Rightarrow> bool" where
  "ends_with s t \<longleftrightarrow> length t \<le> length s \<and> drop (length s - length t) s = t"

definition base64_decode :: "string \<Rightarrow> bytes result" where
  "base64_decode input =
     (case reject_invalid_base64 input of
        Inl e \<Rightarrow> Inl e
      | Inr _ \<Rightarrow>
          if input = [] then Inr []
          else
            let padding = (if ends_with input ''=='' then 2 else if ends_with input ''='' then 1 else 0);
                decoded_groups = length input div 4;
                decoded_size = decoded_groups * 3 - padding
            in if decoded_size > bytes_max_size
               then Inl (Error invalid_input ''base64 input is too large to decode'')
               else
                 let output = base64_decode_loop input
                 in case base64_encode output of
                      Inl e \<Rightarrow> Inl e
                    | Inr again \<Rightarrow>
                        if again \<noteq> input
                        then Inl (Error invalid_encoding ''base64 input is not in canonical form'')
                        else Inr output)"

text \<open>\<^verbatim>\<open>while ((padded.size() % 4) != 0) padded.push_back('=');\<close>\<close>

function pad_to_four :: "string \<Rightarrow> string" where
  "pad_to_four s = (if length s mod 4 \<noteq> 0 then pad_to_four (s @ ''='') else s)"
  by pat_completeness auto
termination by (relation "measure (\<lambda>s. (4 - length s mod 4) mod 4)") (auto simp: mod_Suc)

definition std_char :: "char \<Rightarrow> char" where
  "std_char ch = (if ch = CHR ''-'' then CHR ''+'' else if ch = CHR ''_'' then CHR ''/'' else ch)"

definition base64url_decode :: "string \<Rightarrow> bytes result" where
  "base64url_decode input =
     (case reject_invalid_base64url input of
        Inl e \<Rightarrow> Inl e
      | Inr _ \<Rightarrow>
          if length input > string_max_size - 3
          then Inl (Error invalid_input ''base64url input is too large to decode'')
          else
            (case base64_decode (pad_to_four (map std_char input)) of
               Inl e \<Rightarrow> Inl e
             | Inr output \<Rightarrow>
                 (case base64url_encode output of
                    Inl e \<Rightarrow> Inl e
                  | Inr again \<Rightarrow>
                      if again \<noteq> input
                      then Inl (Error invalid_encoding ''base64url input is not in canonical form'')
                      else Inr output)))"

declare strip_padding.simps [simp del] pad_to_four.simps [simp del]

section \<open>The alphabet\<close>

lemma alphabet_facts:
  "\<forall>n \<in> set [0..<64]. decode_char (kAlphabet ! n) = int n \<and> kAlphabet ! n \<noteq> CHR ''=''"
  by (simp add: upt_rec kAlphabet_def decode_char_def code_of_def less_eq_char_def)

lemma decode_alphabet [simp]: "n < 64 \<Longrightarrow> decode_char (kAlphabet ! n) = int n"
  using alphabet_facts by auto

lemma alphabet_not_pad [simp]: "n < 64 \<Longrightarrow> kAlphabet ! n \<noteq> CHR ''=''"
  using alphabet_facts by auto

section \<open>Groups\<close>

text \<open>The four six-bit values of a group, as quotients and remainders.\<close>

definition sextets :: "nat \<Rightarrow> nat \<Rightarrow> nat \<Rightarrow> nat list" where
  "sextets b0 b1 b2 =
     [b0 div 4, (b0 mod 4) * 16 + b1 div 16, (b1 mod 16) * 4 + b2 div 64, b2 mod 64]"

lemma sextet_less:
  "unat (b0 :: byte) div 4 < 64"
  "(unat b0 mod 4) * 16 + unat (b1 :: byte) div 16 < 64"
  "(unat b1 mod 16) * 4 + unat (b2 :: byte) div 64 < 64"
  "unat b2 mod 64 < 64"
proof -
  have "unat b0 mod 4 \<le> 3" "unat b1 div 16 < 16" "unat b1 mod 16 \<le> 15" "unat b2 div 64 < 4"
    by (simp_all add: less_Suc_eq_le [symmetric])
  then show "(unat b0 mod 4) * 16 + unat b1 div 16 < 64" "(unat b1 mod 16) * 4 + unat b2 div 64 < 64"
    by linarith+
qed simp_all

lemma mod_join:
  fixes x y :: nat
  shows "y < 16 \<Longrightarrow> (x * 16 + y) mod 64 = (x mod 4) * 16 + y"
    and "y < 4 \<Longrightarrow> (x * 4 + y) mod 64 = (x mod 16) * 4 + y"
  using mod_mult2_eq [of "x * 16 + y" 16 4] mod_mult2_eq [of "x * 4 + y" 4 16] by simp_all

lemma unat_sextets:
  fixes x y :: byte
  shows "unat (drop_bit 2 (ucast x :: u32) AND 0x3f) = unat x div 4"
    and "unat ((push_bit 4 (ucast x :: u32) OR drop_bit 4 (ucast y)) AND 0x3f) = (unat x mod 4) * 16 + unat y div 16"
    and "unat ((push_bit 2 (ucast x :: u32) OR drop_bit 6 (ucast y)) AND 0x3f) = (unat x mod 16) * 4 + unat y div 64"
    and "unat ((ucast x :: u32) AND 0x3f) = unat x mod 64"
proof -
  have x: "unat x < 256" and y: "unat y < 256" by simp_all
  have q: "unat y div 16 < 16" "unat y div 64 < 4" by simp_all
  have b: "unat x * 16 + unat y div 16 < 2 ^ 32" "unat x * 4 + unat y div 64 < 2 ^ 32"
    by (rule order.strict_trans2 [where b = 5000], use x q in linarith, simp)+
  have "unat (push_bit 4 (ucast x :: u32) OR drop_bit 4 (ucast y)) = unat x * 16 + unat y div 16"
    using b unat_push_or_word [of "drop_bit 4 (ucast y :: u32)" 4 "ucast x"] by (simp add: bits_to_nat)
  then show "unat ((push_bit 4 (ucast x :: u32) OR drop_bit 4 (ucast y)) AND 0x3f) = (unat x mod 4) * 16 + unat y div 16"
    using q by (simp add: bits_to_nat mod_join)
  have "unat (push_bit 2 (ucast x :: u32) OR drop_bit 6 (ucast y)) = unat x * 4 + unat y div 64"
    using b unat_push_or_word [of "drop_bit 6 (ucast y :: u32)" 2 "ucast x"] by (simp add: bits_to_nat)
  then show "unat ((push_bit 2 (ucast x :: u32) OR drop_bit 6 (ucast y)) AND 0x3f) = (unat x mod 16) * 4 + unat y div 64"
    using q by (simp add: bits_to_nat mod_join)
  show "unat (drop_bit 2 (ucast x :: u32) AND 0x3f) = unat x div 4"
    using x by (simp add: bits_to_nat)
qed (simp add: bits_to_nat)

lemma unat_sextets_alone:
  fixes x :: byte
  shows "unat (push_bit 4 (ucast x :: u32) AND 0x3f) = (unat x mod 4) * 16"
    and "unat (push_bit 2 (ucast x :: u32) AND 0x3f) = (unat x mod 16) * 4"
  using unat_sextets(2,3) [of x 0] by simp_all

lemma encode_group3:
  "base64_encode_group (b0 # b1 # b2 # bs) = map ((!) kAlphabet) (sextets (unat b0) (unat b1) (unat b2))"
  by (simp add: base64_encode_group_def sextets_def Let_def unat_sextets)

lemma encode_group2:
  "base64_encode_group [b0, b1] = map ((!) kAlphabet) (take 3 (sextets (unat b0) (unat b1) 0)) @ ''=''"
  by (simp add: base64_encode_group_def sextets_def Let_def unat_sextets unat_sextets_alone)

lemma encode_group1:
  "base64_encode_group [b0] = map ((!) kAlphabet) (take 2 (sextets (unat b0) 0 0)) @ ''==''"
  by (simp add: base64_encode_group_def sextets_def Let_def unat_sextets unat_sextets_alone)

text \<open>The bytes of a group, from its six-bit values.\<close>

lemma byte_of_sextets:
  "c1 < 64 \<Longrightarrow>
     (word_of_int (push_bit 2 (int c0) OR drop_bit 4 (int c1)) :: byte) = of_nat (c0 * 4 + c1 div 16)"
  "c2 < 64 \<Longrightarrow>
     (word_of_int (push_bit 4 (int c1 AND 0x0f) OR drop_bit 2 (int c2)) :: byte) = of_nat (c1 mod 16 * 16 + c2 div 4)"
  "c3 < 64 \<Longrightarrow>
     (word_of_int (push_bit 6 (int c2 AND 0x03) OR int c3) :: byte) = of_nat (c2 mod 4 * 64 + c3)"
proof -
  have m: "int c AND 0x0f = int (c mod 16)" "int c AND 0x03 = int (c mod 4)" for c
    using take_bit_eq_mask [of 4 "int c"] take_bit_eq_mask [of 2 "int c"]
    by (simp_all add: mask_eq_exp_minus_1 take_bit_eq_mod zmod_int)
  have d: "drop_bit 4 (int c) = int (c div 16)" "drop_bit 2 (int c) = int (c div 4)" for c
    by (simp_all add: drop_bit_eq_div zdiv_int)
  show "c1 < 64 \<Longrightarrow>
      (word_of_int (push_bit 2 (int c0) OR drop_bit 4 (int c1)) :: byte) = of_nat (c0 * 4 + c1 div 16)"
    using push_or_int [of "int (c1 div 16)" 2 "int c0"] by (simp add: d)
  show "c2 < 64 \<Longrightarrow>
      (word_of_int (push_bit 4 (int c1 AND 0x0f) OR drop_bit 2 (int c2)) :: byte) = of_nat (c1 mod 16 * 16 + c2 div 4)"
    using push_or_int [of "int (c2 div 4)" 4 "int (c1 mod 16)"] unfolding d m by simp
  show "c3 < 64 \<Longrightarrow>
      (word_of_int (push_bit 6 (int c2 AND 0x03) OR int c3) :: byte) = of_nat (c2 mod 4 * 64 + c3)"
    using push_or_int [of "int c3" 6 "int (c2 mod 4)"] unfolding m by simp
qed

text \<open>Decoding the encoding of a group gives its bytes back.\<close>

lemma of_nat_unat_parts:
  fixes b0 b1 b2 :: byte
  shows "(of_nat (unat b0 div 4 * 4 + ((unat b0 mod 4) * 16 + unat b1 div 16) div 16) :: byte) = b0"
    and "(of_nat (((unat b0 mod 4) * 16 + unat b1 div 16) mod 16 * 16 + ((unat b1 mod 16) * 4 + unat b2 div 64) div 4) :: byte) = b1"
    and "(of_nat (((unat b1 mod 16) * 4 + unat b2 div 64) mod 4 * 64 + unat b2 mod 64) :: byte) = b2"
proof -
  have q: "unat b1 div 16 < 16" "unat b2 div 64 < 4" by simp_all
  then have "((unat b0 mod 4) * 16 + unat b1 div 16) div 16 = unat b0 mod 4"
    "((unat b0 mod 4) * 16 + unat b1 div 16) mod 16 = unat b1 div 16"
    "((unat b1 mod 16) * 4 + unat b2 div 64) div 4 = unat b1 mod 16"
    "((unat b1 mod 16) * 4 + unat b2 div 64) mod 4 = unat b2 div 64"
    by simp_all
  then show "(of_nat (unat b0 div 4 * 4 + ((unat b0 mod 4) * 16 + unat b1 div 16) div 16) :: byte) = b0"
    "(of_nat (((unat b0 mod 4) * 16 + unat b1 div 16) mod 16 * 16 + ((unat b1 mod 16) * 4 + unat b2 div 64) div 4) :: byte) = b1"
    "(of_nat (((unat b1 mod 16) * 4 + unat b2 div 64) mod 4 * 64 + unat b2 mod 64) :: byte) = b2"
    by (simp_all only: div_mult_mod_eq of_nat_unat ucast_id)
qed

lemma decode_group_codes:
  "c0 < 64 \<Longrightarrow> c1 < 64 \<Longrightarrow> c2 < 64 \<Longrightarrow> c3 < 64 \<Longrightarrow>
     base64_decode_group (kAlphabet ! c0) (kAlphabet ! c1) (kAlphabet ! c2) (kAlphabet ! c3) =
       [of_nat (c0 * 4 + c1 div 16), of_nat (c1 mod 16 * 16 + c2 div 4), of_nat (c2 mod 4 * 64 + c3)]"
  "c0 < 64 \<Longrightarrow> c1 < 64 \<Longrightarrow> c2 < 64 \<Longrightarrow>
     base64_decode_group (kAlphabet ! c0) (kAlphabet ! c1) (kAlphabet ! c2) CHR ''='' =
       [of_nat (c0 * 4 + c1 div 16), of_nat (c1 mod 16 * 16 + c2 div 4)]"
  "c0 < 64 \<Longrightarrow> c1 < 64 \<Longrightarrow>
     base64_decode_group (kAlphabet ! c0) (kAlphabet ! c1) CHR ''='' CHR ''='' =
       [of_nat (c0 * 4 + c1 div 16)]"
  by (simp_all only: base64_decode_group_def Let_def decode_alphabet alphabet_not_pad
      byte_of_sextets if_True if_False simp_thms append.simps)

lemma decode_group3:
  "base64_decode_loop (base64_encode_group (b0 # b1 # b2 # bs) @ t) = [b0, b1, b2] @ base64_decode_loop t"
  by (simp add: encode_group3 sextets_def decode_group_codes sextet_less of_nat_unat_parts
      del: of_nat_add of_nat_mult)

lemma decode_group2:
  "base64_decode_loop (base64_encode_group [b0, b1]) = [b0, b1]"
  using sextet_less(3) [of b1 0] of_nat_unat_parts(2) [of b0 b1 0]
  by (simp add: encode_group2 sextets_def decode_group_codes sextet_less of_nat_unat_parts
      del: of_nat_add of_nat_mult)

lemma decode_group1:
  "base64_decode_loop (base64_encode_group [b0]) = [b0]"
  using sextet_less(2) [of b0 0] of_nat_unat_parts(1) [of b0 0]
  by (simp add: encode_group1 sextets_def decode_group_codes sextet_less
      del: of_nat_add of_nat_mult)

text \<open>Induction over whole groups with a last, shorter one.\<close>

lemma group_induct [case_names Nil One Two Three]:
  assumes "P []" and "\<And>b0. P [b0]" and "\<And>b0 b1. P [b0, b1]"
    and "\<And>b0 b1 b2 bs. P bs \<Longrightarrow> P (b0 # b1 # b2 # bs)"
  shows "P bs"
proof (induction bs rule: length_induct)
  case (1 bs)
  consider "bs = []" | b0 where "bs = [b0]" | b0 b1 where "bs = [b0, b1]"
    | b0 b1 b2 r where "bs = b0 # b1 # b2 # r"
    by (metis list.exhaust)
  then show ?case using 1 assms by cases auto
qed

lemma base64_decode_encode_loop: "base64_decode_loop (base64_encode_loop bs) = bs"
  by (induction bs rule: group_induct) (simp_all add: decode_group1 decode_group2 decode_group3)

section \<open>Validation of encoded text\<close>

text \<open>The number of groups, as the encoder computes it.\<close>

definition encoded_groups :: "bytes \<Rightarrow> nat" where
  "encoded_groups b = length b div 3 + (if length b mod 3 = 0 then 0 else 1)"

lemma length_base64_encode_loop: "length (base64_encode_loop bs) = 4 * encoded_groups bs"
  unfolding encoded_groups_def
proof (induction bs rule: group_induct)
  case (Three b0 b1 b2 bs)
  moreover have "(length bs + 3) div 3 = Suc (length bs div 3)" by simp
  ultimately show ?case by (simp add: base64_encode_group_def Let_def add.commute)
qed (simp_all add: base64_encode_group_def Let_def)

lemma scan_append:
  "list_all (\<lambda>c. c \<noteq> CHR ''='' \<and> 0 \<le> decode_char c) xs \<Longrightarrow>
     reject_invalid_base64_scan (xs @ ys) False p = reject_invalid_base64_scan ys False p"
  by (induction xs) auto

lemma sextets_ok:
  "list_all (\<lambda>c. c \<noteq> CHR ''='' \<and> 0 \<le> decode_char c)
     (map ((!) kAlphabet) (sextets (unat (b0 :: byte)) (unat (b1 :: byte)) (unat (b2 :: byte))))"
  by (simp add: sextets_def sextet_less)

lemma sextets_ok_take:
  "list_all (\<lambda>c. c \<noteq> CHR ''='' \<and> 0 \<le> decode_char c)
     (map ((!) kAlphabet) (take n (sextets (unat (b0 :: byte)) (unat (b1 :: byte)) (unat (b2 :: byte)))))"
  using sextets_ok [of b0 b1 b2] by (auto simp: list_all_iff dest: in_set_takeD)

lemma scan_encoded: "\<exists>p. reject_invalid_base64_scan (base64_encode_loop bs) False 0 = Inr p"
proof (induction bs rule: group_induct)
  case (One b0)
  show ?case using sextets_ok_take [of 2 b0 0 0] by (simp add: encode_group1 scan_append)
next
  case (Two b0 b1)
  show ?case using sextets_ok_take [of 3 b0 b1 0] by (simp add: encode_group2 scan_append)
next
  case (Three b0 b1 b2 bs)
  then show ?case using sextets_ok [of b0 b1 b2] by (simp add: encode_group3 scan_append)
qed simp

lemma reject_invalid_base64_encoded: "reject_invalid_base64 (base64_encode_loop bs) = Inr ()"
proof (cases "bs = []")
  case False
  then have "4 \<le> length (base64_encode_loop bs)"
    by (cases bs) (simp_all add: base64_encode_group_def Let_def)
  then show ?thesis
    using scan_encoded [of bs] by (auto simp: reject_invalid_base64_def length_base64_encode_loop)
qed (simp add: reject_invalid_base64_def)

abbreviation base64_fits :: "bytes \<Rightarrow> bool" where
  "base64_fits b \<equiv> encoded_groups b \<le> string_max_size div 4"

lemma base64_encode_Inr: "base64_encode b = Inr s \<longleftrightarrow> base64_fits b \<and> s = base64_encode_loop b"
  unfolding base64_encode_def Let_def encoded_groups_def by auto

lemma base64_encode_loop_Nil_iff: "base64_encode_loop b = [] \<longleftrightarrow> b = []"
  by (cases b) (simp_all add: base64_encode_group_def Let_def)

section \<open>Base64\<close>

lemma base64_decode_Inr:
  assumes "base64_decode s = Inr b"
  shows "base64_encode b = Inr s"
proof (cases "s = []")
  case True
  with assms have "b = []" by (simp add: base64_decode_def split: sum.splits)
  with True show ?thesis by (simp add: base64_encode_Inr encoded_groups_def)
next
  case False
  with assms show ?thesis
    by (auto simp: base64_decode_def Let_def split: sum.splits if_splits)
qed

lemma base64_decode_encoded:
  assumes "base64_encode b = Inr s"
  shows "base64_decode s = Inr b"
proof -
  have s: "s = base64_encode_loop b" and fits: "base64_fits b"
    using assms by (simp_all add: base64_encode_Inr)
  have size: "\<not> bytes_max_size < encoded_groups b * 3 - p" for p
    using fits by (simp add: string_max_size_def bytes_max_size_def)
  show ?thesis
    using assms s base64_encode_loop_Nil_iff [of b] size [of 0]
    by (simp add: base64_decode_def Let_def reject_invalid_base64_encoded size
        length_base64_encode_loop base64_decode_encode_loop)
qed

interpretation b64: canonical_codec base64_encode base64_decode base64_fits
proof unfold_locales
  show "base64_decode s = Inr b \<longleftrightarrow> base64_encode b = Inr s" for s b
    using base64_decode_encoded base64_decode_Inr by blast
qed (auto simp: base64_encode_Inr)

section \<open>Base64URL\<close>

text \<open>The removal of the padding, and putting it back.\<close>

lemma strip_padding_append [simp]: "strip_padding (s @ ''='') = strip_padding s"
  by (subst strip_padding.simps) simp

lemma strip_padding_id: "s = [] \<or> last s \<noteq> CHR ''='' \<Longrightarrow> strip_padding s = s"
  by (subst strip_padding.simps) auto

lemma pad_to_four_padding: "\<exists>k. pad_to_four s = s @ replicate k CHR ''=''"
proof (induction s rule: pad_to_four.induct)
  case (1 s)
  show ?case
  proof (cases "length s mod 4 = 0")
    case True
    then show ?thesis by (intro exI [of _ 0]) (simp add: pad_to_four.simps)
  next
    case False
    with "1.IH" obtain k where "pad_to_four (s @ ''='') = (s @ ''='') @ replicate k CHR ''=''" by blast
    with False show ?thesis by (intro exI [of _ "Suc k"]) (simp add: pad_to_four.simps [of s])
  qed
qed

lemma strip_padding_replicate [simp]: "strip_padding (s @ replicate k CHR ''='') = strip_padding s"
proof (induction k)
  case (Suc k)
  have "s @ replicate (Suc k) CHR ''='' = (s @ replicate k CHR ''='') @ ''=''"
    by (simp add: replicate_append_same)
  with Suc show ?case by (simp only: strip_padding_append)
qed simp

lemma pad_to_four_id: "length s mod 4 = 0 \<Longrightarrow> pad_to_four s = s"
  by (simp add: pad_to_four.simps)

lemma pad_to_four_step: "length s mod 4 \<noteq> 0 \<Longrightarrow> pad_to_four s = pad_to_four (s @ ''='')"
  by (simp add: pad_to_four.simps [of s])

lemma url_scan_iff: "reject_invalid_base64url_scan s = Inr () \<longleftrightarrow> list_all is_base64url_char s"
  by (induction s) auto

lemma url_char_std_char: "is_base64url_char c \<Longrightarrow> url_char (std_char c) = c \<and> c \<noteq> CHR ''=''"
  by (auto simp: url_char_def std_char_def is_base64url_char_def less_eq_char_def)

lemma url_map_roundtrip: "list_all is_base64url_char s \<Longrightarrow> map url_char (map std_char s) = s"
  by (induction s) (auto simp: url_char_std_char)

text \<open>
  Re-encoding what the Base64 decoder returned for the padded text gives the
  Base64URL text back, whatever the text: the second canonical-form check of
  \<^verbatim>\<open>base64url_decode\<close> cannot fail.
\<close>

lemma base64url_reencode:
  assumes "list_all is_base64url_char s" and "base64_decode (pad_to_four (map std_char s)) = Inr b"
  shows "base64url_encode b = Inr s"
proof -
  obtain k where k: "pad_to_four (map std_char s) = map std_char s @ replicate k CHR ''=''"
    using pad_to_four_padding by blast
  have "base64_encode b = Inr (map std_char s @ replicate k CHR ''='')"
    using assms(2) k by (simp add: b64.canonical)
  then have "base64url_encode b = Inr (strip_padding (map url_char (map std_char s)))"
    by (simp add: base64url_encode_def map_replicate_const url_char_def)
  moreover have "s = [] \<or> last s \<noteq> CHR ''=''"
    using assms(1) url_char_std_char last_in_set by (auto simp: list_all_iff)
  ultimately show ?thesis
    using assms(1) by (simp only: url_map_roundtrip strip_padding_id)
qed

text \<open>The encoder's text is alphabet characters followed by at most two padding characters.\<close>

definition is_base64_char :: "char \<Rightarrow> bool" where
  "is_base64_char c \<longleftrightarrow> c \<in> set kAlphabet"

lemma alphabet_url:
  assumes "is_base64_char c"
  shows "is_base64url_char (url_char c)" and "std_char (url_char c) = c" and "c \<noteq> CHR ''=''"
    and "url_char c \<noteq> CHR ''=''"
proof -
  have "\<forall>c \<in> set kAlphabet. is_base64url_char (url_char c) \<and> std_char (url_char c) = c
      \<and> c \<noteq> CHR ''='' \<and> url_char c \<noteq> CHR ''=''"
    by (simp add: kAlphabet_def is_base64url_char_def url_char_def std_char_def less_eq_char_def)
  with assms show "is_base64url_char (url_char c)" "std_char (url_char c) = c" "c \<noteq> CHR ''=''"
    "url_char c \<noteq> CHR ''=''"
    by (auto simp: is_base64_char_def)
qed

lemma sextets_base64_chars:
  "list_all is_base64_char
     (map ((!) kAlphabet) (take n (sextets (unat (b0 :: byte)) (unat (b1 :: byte)) (unat (b2 :: byte)))))"
proof -
  have len: "length kAlphabet = 64" by (simp add: kAlphabet_def)
  have "list_all is_base64_char (map ((!) kAlphabet) (sextets (unat b0) (unat b1) (unat b2)))"
    by (simp add: sextets_def is_base64_char_def len sextet_less)
  then show ?thesis by (auto simp: list_all_iff dest: in_set_takeD)
qed

lemma encoded_shape:
  "\<exists>body k. base64_encode_loop b = body @ replicate k CHR ''='' \<and> list_all is_base64_char body \<and> k \<le> 2"
proof (induction b rule: group_induct)
  case (One b0)
  show ?case
    using sextets_base64_chars [of 2 b0 0 0]
    by (intro exI [of _ "map ((!) kAlphabet) (take 2 (sextets (unat b0) 0 0))"] exI [of _ 2])
      (simp add: encode_group1 numeral_2_eq_2)
next
  case (Two b0 b1)
  show ?case
    using sextets_base64_chars [of 3 b0 b1 0]
    by (intro exI [of _ "map ((!) kAlphabet) (take 3 (sextets (unat b0) (unat b1) 0))"] exI [of _ 1])
      (simp add: encode_group2)
next
  case (Three b0 b1 b2 bs)
  then obtain body k where "base64_encode_loop bs = body @ replicate k CHR ''=''"
    "list_all is_base64_char body" "k \<le> 2" by blast
  then show ?case
    using sextets_base64_chars [of 4 b0 b1 b2]
    by (intro exI [of _ "map ((!) kAlphabet) (sextets (unat b0) (unat b1) (unat b2)) @ body"] exI [of _ k])
      (simp add: encode_group3 sextets_def)
qed simp

lemma pad_to_four_exact:
  "(length s + k) mod 4 = 0 \<Longrightarrow> k < 4 \<Longrightarrow> pad_to_four s = s @ replicate k CHR ''=''"
proof (induction k arbitrary: s)
  case (Suc k)
  have "length s mod 4 \<noteq> 0"
    using Suc.prems by presburger
  with Suc.IH [of "s @ ''=''"] Suc.prems show ?case
    by (simp add: pad_to_four_step)
qed (simp add: pad_to_four_id)

abbreviation base64url_fits :: "bytes \<Rightarrow> bool" where
  "base64url_fits \<equiv> base64_fits"

lemma base64url_encode_Inr:
  "base64url_encode b = Inr s \<longleftrightarrow>
     base64url_fits b \<and> s = strip_padding (map url_char (base64_encode_loop b))"
  by (auto simp: base64url_encode_def base64_encode_Inr split: sum.splits)
    (metis base64_encode_Inr sum.distinct(1) sum.exhaust)+

lemma base64url_text:
  assumes "base64_encode_loop b = body @ replicate k CHR ''=''" and "list_all is_base64_char body"
  shows "strip_padding (map url_char (base64_encode_loop b)) = map url_char body"
proof -
  have "map url_char (base64_encode_loop b) = map url_char body @ replicate k CHR ''=''"
    using assms(1) by (simp add: map_replicate_const url_char_def)
  moreover have "map url_char body = [] \<or> last (map url_char body) \<noteq> CHR ''=''"
    using assms(2) alphabet_url(4) by (cases body rule: rev_cases) auto
  ultimately show ?thesis by (simp only: strip_padding_replicate strip_padding_id)
qed

lemma base64url_decode_encoded:
  assumes "base64url_encode b = Inr s"
  shows "base64url_decode s = Inr b"
proof -
  have fits: "base64_fits b" using assms by (simp add: base64url_encode_Inr)
  obtain body k where shape: "base64_encode_loop b = body @ replicate k CHR ''=''"
    and body: "list_all is_base64_char body" and k: "k \<le> 2"
    using encoded_shape by blast
  have s: "s = map url_char body"
    using assms base64url_text [OF shape body] by (simp add: base64url_encode_Inr)
  have len: "length s + k = 4 * encoded_groups b"
    using shape length_base64_encode_loop [of b] by (simp add: s)
  have std: "map std_char s = body"
    using body alphabet_url(2) by (simp add: s list_all_iff map_idI)
  have "pad_to_four (map std_char s) = base64_encode_loop b"
    using len k std shape pad_to_four_exact [of body k] by (simp add: s)
  then have dec: "base64_decode (pad_to_four (map std_char s)) = Inr b"
    using fits by (simp add: b64.canonical base64_encode_Inr)
  have valid: "list_all is_base64url_char s"
    using body alphabet_url(1) by (simp add: s list_all_iff)
  have "length s \<le> string_max_size - 3"
    using len fits by (simp add: string_max_size_def)
  moreover have "length s mod 4 \<noteq> 1"
    using len k by presburger
  ultimately show ?thesis
    using dec valid assms
    by (simp add: base64url_decode_def reject_invalid_base64url_def url_scan_iff [THEN iffD2])
qed

lemma base64url_decode_Inr: "base64url_decode s = Inr b \<Longrightarrow> base64url_encode b = Inr s"
  by (auto simp: base64url_decode_def split: sum.splits if_splits)

interpretation b64url: canonical_codec base64url_encode base64url_decode base64url_fits
proof unfold_locales
  show "base64url_decode s = Inr b \<longleftrightarrow> base64url_encode b = Inr s" for s b
    using base64url_decode_encoded base64url_decode_Inr by blast
qed (auto simp: base64url_encode_Inr)

section \<open>Properties\<close>

text \<open>
  C34: Base64 and Base64URL are canonical. \<^verbatim>\<open>base64_decode\<close> returns bytes for a text exactly when
  \<^verbatim>\<open>base64_encode\<close> of these bytes is that text: decoding undoes encoding, and no
  other text (wrong padding, non-zero trailing bits, a character outside the alphabet) is
  accepted. The same holds of \<^verbatim>\<open>base64url_decode\<close>, whose texts have no padding.
\<close>

theorem base64_canonical:
  "(base64_decode s = Inr b \<longleftrightarrow> base64_encode b = Inr s) \<and>
   (base64url_decode s = Inr b \<longleftrightarrow> base64url_encode b = Inr s)"
  by (intro conjI b64.canonical b64url.canonical)

text \<open>
  Redundancy of a check. When validation and the inner Base64 decoder have
  accepted a Base64URL text, its re-encoding is the text itself, so the decoder's own
  "not in canonical form" branch is never taken.
\<close>

theorem base64url_recheck_redundant:
  assumes "reject_invalid_base64url s = Inr ()"
    and "base64_decode (pad_to_four (map std_char s)) = Inr b"
  shows "base64url_encode b = Inr s"
proof (rule base64url_reencode [OF _ assms(2)])
  show "list_all is_base64url_char s"
    using assms(1) by (simp add: reject_invalid_base64url_def url_scan_iff split: if_splits)
qed

theorem base64url_recheck_redundant_witness:
  "reject_invalid_base64url ''-_8'' = Inr () \<and> base64url_encode [0xfb, 0xff] = Inr ''-_8''"
proof -
  have v: "reject_invalid_base64url ''-_8'' = Inr ()"
    by (simp add: reject_invalid_base64url_def is_base64url_char_def less_eq_char_def)
  have "base64_encode [0xfb, 0xff] = Inr ''+/8=''"
    by (simp add: base64_encode_def string_max_size_def base64_encode_group_def kAlphabet_def)
  moreover have "pad_to_four (map std_char ''-_8'') = ''+/8=''"
    by (simp add: std_char_def pad_to_four.simps)
  ultimately have "base64_decode (pad_to_four (map std_char ''-_8'')) = Inr [0xfb, 0xff]"
    by (simp add: b64.canonical)
  with v show ?thesis using base64url_recheck_redundant [of "''-_8''" "[0xfb, 0xff]"] by simp
qed

text \<open>The two scans report nothing but malformed text.\<close>

lemma base64_scan_Inl: "reject_invalid_base64_scan s b p = Inl e \<Longrightarrow> code e = invalid_encoding"
  by (induction s b p rule: reject_invalid_base64_scan.induct) (auto split: if_splits)

lemma base64url_scan_Inl: "reject_invalid_base64url_scan s = Inl e \<Longrightarrow> code e = invalid_encoding"
  by (induction s) (auto split: if_splits)

end
