(* ===== verification/Compare.thy ===== *)
theory Compare
  imports Prelude
begin

text \<open>
  \<^verbatim>\<open>src/compare.cpp\<close>: comparison of two byte sequences without an exit that
  depends on their contents. The accumulator \<^verbatim>\<open>diff\<close> is a 64-bit
  \<^verbatim>\<open>std::size_t\<close>.
\<close>

section \<open>The code\<close>

text \<open>
  One round of the loop, at \<^verbatim>\<open>index\<close>: two reads and one \<open>|=\<close>. The second
  component records the positions read, in order; the code has no other observable
  behaviour before it returns.
\<close>

definition ct_round :: "bytes \<Rightarrow> bytes \<Rightarrow> nat \<Rightarrow> size_t \<times> nat list \<Rightarrow> size_t \<times> nat list" where
  "ct_round left right index st =
     (fst st OR ucast ((left ! index) XOR (right ! index)), snd st @ [index])"

fun ct_loop :: "bytes \<Rightarrow> bytes \<Rightarrow> nat \<Rightarrow> nat \<Rightarrow> size_t \<times> nat list \<Rightarrow> size_t \<times> nat list" where
  "ct_loop left right index 0 st = st"
| "ct_loop left right index (Suc n) st = ct_loop left right (Suc index) n (ct_round left right index st)"

definition ct_run :: "bytes \<Rightarrow> bytes \<Rightarrow> size_t \<times> nat list" where
  "ct_run left right =
     (let diff = of_nat (length left) XOR of_nat (length right);
          common_size = min (length left) (length right)
      in ct_loop left right 0 common_size (diff, []))"

definition constant_time_equal :: "bytes \<Rightarrow> bytes \<Rightarrow> bool" where
  "constant_time_equal left right \<longleftrightarrow> fst (ct_run left right) = 0"

section \<open>Lemmas\<close>

lemma ucast_eq_0: "(ucast (x :: byte) :: size_t) = 0 \<longleftrightarrow> x = 0"
proof -
  have "unat (ucast x :: size_t) = unat x"
    using unat_byte_less [of x] by (simp add: unsigned_ucast_eq take_bit_nat_eq_self_iff del: unat_byte_less)
  then show ?thesis by (metis unat_0 unsigned_word_eqI)
qed

lemma xor_eq_0_iff: "a XOR b = 0 \<longleftrightarrow> a = b" for a b :: "'a::len word"
  by (metis xor.assoc xor.left_neutral xor_self_eq)

lemma ct_round_diff:
  "fst (ct_round left right i st) = 0 \<longleftrightarrow> fst st = 0 \<and> left ! i = right ! i"
  by (simp add: ct_round_def or_eq_0_iff ucast_eq_0 xor_eq_0_iff)

lemma ct_loop_diff:
  "fst (ct_loop left right i n st) = 0 \<longleftrightarrow>
     fst st = 0 \<and> (\<forall>j. i \<le> j \<and> j < i + n \<longrightarrow> left ! j = right ! j)"
proof (induction n arbitrary: i st)
  case (Suc n)
  have "(\<forall>j. i \<le> j \<and> j < i + Suc n \<longrightarrow> left ! j = right ! j) \<longleftrightarrow>
      left ! i = right ! i \<and> (\<forall>j. Suc i \<le> j \<and> j < Suc i + n \<longrightarrow> left ! j = right ! j)"
    by (metis Suc_le_eq add_Suc_right add_Suc le_eq_less_or_eq less_add_Suc1 order_refl)
  with Suc show ?case by (auto simp: ct_round_diff)
qed auto

lemma ct_loop_trace: "snd (ct_loop left right i n st) = snd st @ [i..<i + n]"
  by (induction n arbitrary: i st) (simp_all add: ct_round_def upt_rec)

lemma length_word_inj:
  "m < 2 ^ 64 \<Longrightarrow> n < 2 ^ 64 \<Longrightarrow> (of_nat m :: size_t) = of_nat n \<longleftrightarrow> m = n"
  by (simp add: word_unat_eq_iff unsigned_of_nat take_bit_nat_eq_self)

section \<open>Properties\<close>

text \<open>
  C40: The comparison is equality, with no exit that depends on the content. For sequences of any lengths an
  object can have (below \<open>2^64\<close>), \<^verbatim>\<open>constant_time_equal\<close> returns true exactly
  when they are equal; different lengths never compare equal, however the common prefix compares. The positions it
  reads are all the common positions in order, whatever the bytes are: they depend on the two lengths only.
\<close>

theorem constant_time_comparison:
  assumes "length left < 2 ^ 64" and "length right < 2 ^ 64"
  shows "(constant_time_equal left right \<longleftrightarrow> left = right) \<and>
    snd (ct_run left right) = [0..<min (length left) (length right)]"
proof -
  have "fst (ct_run left right) = 0 \<longleftrightarrow>
      length left = length right \<and> (\<forall>j < min (length left) (length right). left ! j = right ! j)"
    using assms by (simp add: ct_run_def Let_def ct_loop_diff xor_eq_0_iff length_word_inj)
  then show ?thesis
    by (auto simp: constant_time_equal_def list_eq_iff_nth_eq ct_run_def Let_def ct_loop_trace)
qed

theorem constant_time_comparison_witness:
  "constant_time_equal [1, 2, 3] [1, 2, 3] \<and> \<not> constant_time_equal [1, 2, 3] [1, 2] \<and> snd (ct_run [7, 2, 3] [1, 2]) = [0, 1]"
  using constant_time_comparison [of "[1, 2, 3]" "[1, 2, 3]"] constant_time_comparison [of "[1, 2, 3]" "[1, 2]"]
    constant_time_comparison [of "[7, 2, 3]" "[1, 2]"]
  by (simp add: upt_rec)

end
