(* ===== verification/Openssl.thy ===== *)
theory Openssl
  imports Prelude
begin

text \<open>
  The OpenSSL functions SecureKit calls. OpenSSL is not part of the repository, so it
  is a parameter of the model: a record with one field per function, as the code calls
  it. A \<open>'w\<close> is the library's own state (random generator, allocator), a
  \<open>'c\<close> an \<^verbatim>\<open>EVP_CIPHER_CTX\<close>, a \<open>'d\<close> an
  \<^verbatim>\<open>EVP_MD_CTX\<close>. Nothing is assumed about the fields; a theorem that
  relies on what the manual pages promise has \<open>gcm_documented\<close> (results of calls
  that report success) or \<open>gcm_available\<close> (which calls report success) among its
  hypotheses.
\<close>

section \<open>The functions\<close>

datatype ossl_param =
    utf8_string string string
  | int_param string int
  | octet_string string bytes

record ('w, 'c, 'd) openssl =
  RAND_bytes :: "nat \<Rightarrow> 'w \<Rightarrow> (int \<times> bytes) \<times> 'w"
  RAND_priv_bytes :: "nat \<Rightarrow> 'w \<Rightarrow> (int \<times> bytes) \<times> 'w"
  EVP_CIPHER_CTX_new :: "'w \<Rightarrow> 'c option \<times> 'w"
  EVP_aes_256_gcm_found :: bool
  EVP_EncryptInit_cipher :: "'c \<Rightarrow> int \<times> 'c"
  EVP_EncryptInit_key :: "bytes \<Rightarrow> bytes \<Rightarrow> 'c \<Rightarrow> int \<times> 'c"
  EVP_DecryptInit_cipher :: "'c \<Rightarrow> int \<times> 'c"
  EVP_DecryptInit_key :: "bytes \<Rightarrow> bytes \<Rightarrow> 'c \<Rightarrow> int \<times> 'c"
  EVP_CTRL_GCM_SET_IVLEN :: "nat \<Rightarrow> 'c \<Rightarrow> int \<times> 'c"
  EVP_CTRL_GCM_GET_TAG :: "nat \<Rightarrow> 'c \<Rightarrow> (int \<times> bytes) \<times> 'c"
  EVP_CTRL_GCM_SET_TAG :: "bytes \<Rightarrow> 'c \<Rightarrow> int \<times> 'c"
  EVP_CipherUpdate_aad :: "bytes \<Rightarrow> 'c \<Rightarrow> int \<times> 'c"
  EVP_EncryptUpdate :: "bytes \<Rightarrow> 'c \<Rightarrow> (int \<times> bytes \<times> int) \<times> 'c"
  EVP_EncryptFinal_ex :: "'c \<Rightarrow> (int \<times> bytes \<times> int) \<times> 'c"
  EVP_DecryptUpdate :: "bytes \<Rightarrow> 'c \<Rightarrow> (int \<times> bytes \<times> int) \<times> 'c"
  EVP_DecryptFinal_ex :: "'c \<Rightarrow> (int \<times> bytes \<times> int) \<times> 'c"
  EVP_MD_CTX_new :: "'w \<Rightarrow> 'd option \<times> 'w"
  EVP_sha256_found :: bool
  EVP_DigestInit_ex :: "'d \<Rightarrow> int \<times> 'd"
  EVP_DigestUpdate :: "bytes \<Rightarrow> 'd \<Rightarrow> int \<times> 'd"
  EVP_DigestFinal_ex :: "'d \<Rightarrow> (int \<times> bytes \<times> nat) \<times> 'd"
  EVP_Q_mac :: "string \<Rightarrow> string \<Rightarrow> bytes \<Rightarrow> bytes \<Rightarrow> nat \<Rightarrow> 'w \<Rightarrow> (bool \<times> bytes \<times> nat) \<times> 'w"
  EVP_KDF_fetch :: "string \<Rightarrow> 'w \<Rightarrow> bool \<times> 'w"
  EVP_KDF_CTX_new :: "'w \<Rightarrow> bool \<times> 'w"
  EVP_KDF_derive :: "nat \<Rightarrow> ossl_param list \<Rightarrow> 'w \<Rightarrow> (int \<times> bytes) \<times> 'w"
  EVP_PBE_scrypt :: "bytes \<Rightarrow> bytes \<Rightarrow> nat \<Rightarrow> nat \<Rightarrow> nat \<Rightarrow> nat \<Rightarrow> nat \<Rightarrow> 'w \<Rightarrow> (int \<times> bytes) \<times> 'w"

section \<open>What the manual pages say of AES-256-GCM contexts\<close>

text \<open>
  The state of a context as \<^verbatim>\<open>EVP_EncryptInit(3)\<close> describes it: nothing
  chosen yet; the cipher chosen, with an IV length; keyed, with the additional data and the
  ciphertext it has processed so far and the expected tag, if one was set.
\<close>

datatype gcm_dir = Encrypting | Decrypting

datatype gcm_view =
    Fresh
  | Selected gcm_dir nat
  | Running gcm_dir bytes bytes bytes bytes "bytes option"

text \<open>
  GCM encrypts by a key stream: \<open>ks key iv i\<close> is its byte at position \<open>i\<close>;
  \<open>tg key iv aad ciphertext\<close> is the 16-byte authentication tag.
\<close>

type_synonym key_stream = "bytes \<Rightarrow> bytes \<Rightarrow> nat \<Rightarrow> byte"
type_synonym gcm_tag = "bytes \<Rightarrow> bytes \<Rightarrow> bytes \<Rightarrow> bytes \<Rightarrow> bytes"

fun crypt :: "(nat \<Rightarrow> byte) \<Rightarrow> nat \<Rightarrow> bytes \<Rightarrow> bytes" where
  "crypt k i [] = []"
| "crypt k i (b # bs) = (b XOR k i) # crypt k (Suc i) bs"

lemma length_crypt [simp]: "length (crypt k i bs) = length bs"
  by (induction bs arbitrary: i) auto

lemma crypt_crypt [simp]: "crypt k i (crypt k i bs) = bs"
  by (induction bs arbitrary: i) (auto simp: xor.assoc)

lemma crypt_append: "crypt k i (xs @ ys) = crypt k i xs @ crypt k (i + length xs) ys"
  by (induction xs arbitrary: i) auto

lemma crypt_eq_Nil [simp]: "crypt k i bs = [] \<longleftrightarrow> bs = []"
  by (cases bs) auto

text \<open>The effect of the calls that report success (return 1).\<close>

definition gcm_documented ::
  "('w, 'c, 'd) openssl \<Rightarrow> ('c \<Rightarrow> gcm_view) \<Rightarrow> key_stream \<Rightarrow> gcm_tag \<Rightarrow> bool" where
  "gcm_documented ossl view ks tg \<longleftrightarrow>
     (\<forall>w c w'. EVP_CIPHER_CTX_new ossl w = (Some c, w') \<longrightarrow> view c = Fresh) \<and>
     (\<forall>c c'. EVP_EncryptInit_cipher ossl c = (1, c') \<and> view c = Fresh \<longrightarrow> view c' = Selected Encrypting 12) \<and>
     (\<forall>c c'. EVP_DecryptInit_cipher ossl c = (1, c') \<and> view c = Fresh \<longrightarrow> view c' = Selected Decrypting 12) \<and>
     (\<forall>n c c' d m. EVP_CTRL_GCM_SET_IVLEN ossl n c = (1, c') \<and> view c = Selected d m \<longrightarrow>
        view c' = Selected d n) \<and>
     (\<forall>k iv c c'. EVP_EncryptInit_key ossl k iv c = (1, c') \<and> view c = Selected Encrypting (length iv) \<longrightarrow>
        view c' = Running Encrypting k iv [] [] None) \<and>
     (\<forall>k iv c c'. EVP_DecryptInit_key ossl k iv c = (1, c') \<and> view c = Selected Decrypting (length iv) \<longrightarrow>
        view c' = Running Decrypting k iv [] [] None) \<and>
     (\<forall>a c c' d k iv aad t. EVP_CipherUpdate_aad ossl a c = (1, c') \<and> view c = Running d k iv aad [] t \<longrightarrow>
        view c' = Running d k iv (aad @ a) [] t) \<and>
     (\<forall>p c out n c' k iv aad ct t.
        EVP_EncryptUpdate ossl p c = ((1, out, n), c') \<and> view c = Running Encrypting k iv aad ct t \<longrightarrow>
        out = crypt (ks k iv) (length ct) p \<and> n = int (length p) \<and>
        view c' = Running Encrypting k iv aad (ct @ out) t) \<and>
     (\<forall>p c out n c' k iv aad ct t.
        EVP_DecryptUpdate ossl p c = ((1, out, n), c') \<and> view c = Running Decrypting k iv aad ct t \<longrightarrow>
        out = crypt (ks k iv) (length ct) p \<and> n = int (length p) \<and>
        view c' = Running Decrypting k iv aad (ct @ p) t) \<and>
     (\<forall>c out n c' k iv aad ct t.
        EVP_EncryptFinal_ex ossl c = ((1, out, n), c') \<and> view c = Running Encrypting k iv aad ct t \<longrightarrow>
        out = [] \<and> n = 0 \<and> view c' = view c) \<and>
     (\<forall>c out n c1 t c' k iv aad ct u.
        EVP_EncryptFinal_ex ossl c = ((1, out, n), c1) \<and> EVP_CTRL_GCM_GET_TAG ossl 16 c1 = ((1, t), c') \<and>
        view c = Running Encrypting k iv aad ct u \<longrightarrow> t = tg k iv aad ct) \<and>
     (\<forall>t c c' d k iv aad ct u.
        EVP_CTRL_GCM_SET_TAG ossl t c = (1, c') \<and> view c = Running d k iv aad ct u \<longrightarrow>
        view c' = Running d k iv aad ct (Some t)) \<and>
     (\<forall>c out n c' k iv aad ct t.
        EVP_DecryptFinal_ex ossl c = ((1, out, n), c') \<and> view c = Running Decrypting k iv aad ct (Some t) \<longrightarrow>
        t = tg k iv aad ct \<and> out = [] \<and> n = 0) \<and>
     (\<forall>k iv aad ct. length (tg k iv aad ct) = 16)"

text \<open>
  When the calls report success: memory is available and the cipher is provided, and
  a context is used in the documented order; the final decryption call succeeds for the
  tag the data has.
\<close>

definition gcm_available :: "('w, 'c, 'd) openssl \<Rightarrow> ('c \<Rightarrow> gcm_view) \<Rightarrow> gcm_tag \<Rightarrow> bool" where
  "gcm_available ossl view tg \<longleftrightarrow>
     EVP_aes_256_gcm_found ossl \<and>
     (\<forall>w. fst (EVP_CIPHER_CTX_new ossl w) \<noteq> None) \<and>
     (\<forall>c. view c = Fresh \<longrightarrow> fst (EVP_EncryptInit_cipher ossl c) = 1 \<and> fst (EVP_DecryptInit_cipher ossl c) = 1) \<and>
     (\<forall>c d m. view c = Selected d m \<longrightarrow> fst (EVP_CTRL_GCM_SET_IVLEN ossl 12 c) = 1) \<and>
     (\<forall>k iv c. view c = Selected Encrypting (length iv) \<and> length k = 32 \<longrightarrow> fst (EVP_EncryptInit_key ossl k iv c) = 1) \<and>
     (\<forall>k iv c. view c = Selected Decrypting (length iv) \<and> length k = 32 \<longrightarrow> fst (EVP_DecryptInit_key ossl k iv c) = 1) \<and>
     (\<forall>a c d k iv aad t. view c = Running d k iv aad [] t \<longrightarrow> fst (EVP_CipherUpdate_aad ossl a c) = 1) \<and>
     (\<forall>p c k iv aad ct t. view c = Running Encrypting k iv aad ct t \<longrightarrow>
        fst (fst (EVP_EncryptUpdate ossl p c)) = 1 \<and> fst (fst (EVP_EncryptFinal_ex ossl c)) = 1 \<and>
        fst (fst (EVP_CTRL_GCM_GET_TAG ossl 16 (snd (EVP_EncryptFinal_ex ossl c)))) = 1) \<and>
     (\<forall>p c k iv aad ct t. view c = Running Decrypting k iv aad ct t \<longrightarrow>
        fst (fst (EVP_DecryptUpdate ossl p c)) = 1) \<and>
     (\<forall>u c k iv aad ct t. view c = Running Decrypting k iv aad ct t \<and> length u = 16 \<longrightarrow>
        fst (EVP_CTRL_GCM_SET_TAG ossl u c) = 1) \<and>
     (\<forall>c k iv aad ct. view c = Running Decrypting k iv aad ct (Some (tg k iv aad ct)) \<longrightarrow>
        fst (fst (EVP_DecryptFinal_ex ossl c)) = 1)"

text \<open>The documented behaviour call by call.\<close>

lemma gcm_documentedD:
  assumes "gcm_documented ossl view ks tg"
  shows "EVP_CIPHER_CTX_new ossl w = (Some c, w') \<Longrightarrow> view c = Fresh"
    and "EVP_EncryptInit_cipher ossl c = (1, c') \<Longrightarrow> view c = Fresh \<Longrightarrow> view c' = Selected Encrypting 12"
    and "EVP_DecryptInit_cipher ossl c = (1, c') \<Longrightarrow> view c = Fresh \<Longrightarrow> view c' = Selected Decrypting 12"
    and "EVP_CTRL_GCM_SET_IVLEN ossl n c = (1, c') \<Longrightarrow> view c = Selected d m \<Longrightarrow> view c' = Selected d n"
    and "EVP_EncryptInit_key ossl k iv c = (1, c') \<Longrightarrow> view c = Selected Encrypting (length iv) \<Longrightarrow>
        view c' = Running Encrypting k iv [] [] None"
    and "EVP_DecryptInit_key ossl k iv c = (1, c') \<Longrightarrow> view c = Selected Decrypting (length iv) \<Longrightarrow>
        view c' = Running Decrypting k iv [] [] None"
    and "EVP_CipherUpdate_aad ossl a c = (1, c') \<Longrightarrow> view c = Running d k iv aad [] t \<Longrightarrow>
        view c' = Running d k iv (aad @ a) [] t"
    and "EVP_EncryptUpdate ossl p c = ((1, out, r), c') \<Longrightarrow> view c = Running Encrypting k iv aad ct t \<Longrightarrow>
        out = crypt (ks k iv) (length ct) p \<and> r = int (length p) \<and>
        view c' = Running Encrypting k iv aad (ct @ out) t"
    and "EVP_DecryptUpdate ossl p c = ((1, out, r), c') \<Longrightarrow> view c = Running Decrypting k iv aad ct t \<Longrightarrow>
        out = crypt (ks k iv) (length ct) p \<and> r = int (length p) \<and>
        view c' = Running Decrypting k iv aad (ct @ p) t"
    and "EVP_EncryptFinal_ex ossl c = ((1, out, r), c') \<Longrightarrow> view c = Running Encrypting k iv aad ct t \<Longrightarrow>
        out = [] \<and> r = 0 \<and> view c' = view c"
    and "EVP_EncryptFinal_ex ossl c = ((1, fin, r), c1) \<Longrightarrow> EVP_CTRL_GCM_GET_TAG ossl 16 c1 = ((1, out), c') \<Longrightarrow>
        view c = Running Encrypting k iv aad ct t \<Longrightarrow> out = tg k iv aad ct"
    and "EVP_CTRL_GCM_SET_TAG ossl u c = (1, c') \<Longrightarrow> view c = Running d k iv aad ct t \<Longrightarrow>
        view c' = Running d k iv aad ct (Some u)"
    and "EVP_DecryptFinal_ex ossl c = ((1, out, r), c') \<Longrightarrow> view c = Running Decrypting k iv aad ct (Some u) \<Longrightarrow>
        u = tg k iv aad ct \<and> out = [] \<and> r = 0"
    and "length (tg k iv aad ct) = 16"
proof -
  note a = assms [unfolded gcm_documented_def]
  show "view c = Fresh" if "EVP_CIPHER_CTX_new ossl w = (Some c, w')"
    using a [THEN conjunct1] that by blast
  show "view c' = Selected Encrypting 12" if "EVP_EncryptInit_cipher ossl c = (1, c')" and "view c = Fresh"
    using a [THEN conjunct2, THEN conjunct1] that by blast
  show "view c' = Selected Decrypting 12" if "EVP_DecryptInit_cipher ossl c = (1, c')" and "view c = Fresh"
    using a [THEN conjunct2, THEN conjunct2, THEN conjunct1] that by blast
  show "view c' = Selected d n" if "EVP_CTRL_GCM_SET_IVLEN ossl n c = (1, c')" and "view c = Selected d m"
    using a [THEN conjunct2, THEN conjunct2, THEN conjunct2, THEN conjunct1] that by blast
  show "view c' = Running Encrypting k iv [] [] None" if "EVP_EncryptInit_key ossl k iv c = (1, c')" and "view c = Selected Encrypting (length iv)"
    using a [THEN conjunct2, THEN conjunct2, THEN conjunct2, THEN conjunct2, THEN conjunct1] that by blast
  show "view c' = Running Decrypting k iv [] [] None" if "EVP_DecryptInit_key ossl k iv c = (1, c')" and "view c = Selected Decrypting (length iv)"
    using a [THEN conjunct2, THEN conjunct2, THEN conjunct2, THEN conjunct2, THEN conjunct2, THEN conjunct1] that by blast
  show "view c' = Running d k iv (aad @ a) [] t" if "EVP_CipherUpdate_aad ossl a c = (1, c')" and "view c = Running d k iv aad [] t"
    using a [THEN conjunct2, THEN conjunct2, THEN conjunct2, THEN conjunct2, THEN conjunct2, THEN conjunct2, THEN conjunct1] that by blast
  show "out = crypt (ks k iv) (length ct) p \<and> r = int (length p) \<and>
        view c' = Running Encrypting k iv aad (ct @ out) t" if "EVP_EncryptUpdate ossl p c = ((1, out, r), c')" and "view c = Running Encrypting k iv aad ct t"
    using a [THEN conjunct2, THEN conjunct2, THEN conjunct2, THEN conjunct2, THEN conjunct2, THEN conjunct2, THEN conjunct2, THEN conjunct1] that by blast
  show "out = crypt (ks k iv) (length ct) p \<and> r = int (length p) \<and>
        view c' = Running Decrypting k iv aad (ct @ p) t" if "EVP_DecryptUpdate ossl p c = ((1, out, r), c')" and "view c = Running Decrypting k iv aad ct t"
    using a [THEN conjunct2, THEN conjunct2, THEN conjunct2, THEN conjunct2, THEN conjunct2, THEN conjunct2, THEN conjunct2, THEN conjunct2, THEN conjunct1] that by blast
  show "out = [] \<and> r = 0 \<and> view c' = view c" if "EVP_EncryptFinal_ex ossl c = ((1, out, r), c')" and "view c = Running Encrypting k iv aad ct t"
    using a [THEN conjunct2, THEN conjunct2, THEN conjunct2, THEN conjunct2, THEN conjunct2, THEN conjunct2, THEN conjunct2, THEN conjunct2, THEN conjunct2, THEN conjunct1] that by blast
  show "out = tg k iv aad ct" if "EVP_EncryptFinal_ex ossl c = ((1, fin, r), c1)" and "EVP_CTRL_GCM_GET_TAG ossl 16 c1 = ((1, out), c')" and "view c = Running Encrypting k iv aad ct t"
    using a [THEN conjunct2, THEN conjunct2, THEN conjunct2, THEN conjunct2, THEN conjunct2, THEN conjunct2, THEN conjunct2, THEN conjunct2, THEN conjunct2, THEN conjunct2, THEN conjunct1] that by blast
  show "view c' = Running d k iv aad ct (Some u)" if "EVP_CTRL_GCM_SET_TAG ossl u c = (1, c')" and "view c = Running d k iv aad ct t"
    using a [THEN conjunct2, THEN conjunct2, THEN conjunct2, THEN conjunct2, THEN conjunct2, THEN conjunct2, THEN conjunct2, THEN conjunct2, THEN conjunct2, THEN conjunct2, THEN conjunct2, THEN conjunct1] that by blast
  show "u = tg k iv aad ct \<and> out = [] \<and> r = 0" if "EVP_DecryptFinal_ex ossl c = ((1, out, r), c')" and "view c = Running Decrypting k iv aad ct (Some u)"
    using a [THEN conjunct2, THEN conjunct2, THEN conjunct2, THEN conjunct2, THEN conjunct2, THEN conjunct2, THEN conjunct2, THEN conjunct2, THEN conjunct2, THEN conjunct2, THEN conjunct2, THEN conjunct2, THEN conjunct1] that by blast
  show "length (tg k iv aad ct) = 16"
    using a [THEN conjunct2, THEN conjunct2, THEN conjunct2, THEN conjunct2, THEN conjunct2, THEN conjunct2, THEN conjunct2, THEN conjunct2, THEN conjunct2, THEN conjunct2, THEN conjunct2, THEN conjunct2, THEN conjunct2] by blast
qed

lemma gcm_availableD:
  assumes "gcm_available ossl view tg"
  shows "EVP_aes_256_gcm_found ossl"
    and "fst (EVP_CIPHER_CTX_new ossl w) \<noteq> None"
    and "view c = Fresh \<Longrightarrow> fst (EVP_EncryptInit_cipher ossl c) = 1"
    and "view c = Fresh \<Longrightarrow> fst (EVP_DecryptInit_cipher ossl c) = 1"
    and "view c = Selected d m \<Longrightarrow> fst (EVP_CTRL_GCM_SET_IVLEN ossl 12 c) = 1"
    and "view c = Selected Encrypting (length iv) \<Longrightarrow> length k = 32 \<Longrightarrow> fst (EVP_EncryptInit_key ossl k iv c) = 1"
    and "view c = Selected Decrypting (length iv) \<Longrightarrow> length k = 32 \<Longrightarrow> fst (EVP_DecryptInit_key ossl k iv c) = 1"
    and "view c = Running d k iv aad [] t \<Longrightarrow> fst (EVP_CipherUpdate_aad ossl a c) = 1"
    and "view c = Running Encrypting k iv aad ct t \<Longrightarrow> fst (fst (EVP_EncryptUpdate ossl p c)) = 1"
    and "view c = Running Encrypting k iv aad ct t \<Longrightarrow> fst (fst (EVP_EncryptFinal_ex ossl c)) = 1"
    and "view c = Running Encrypting k iv aad ct t \<Longrightarrow> fst (fst (EVP_CTRL_GCM_GET_TAG ossl 16 (snd (EVP_EncryptFinal_ex ossl c)))) = 1"
    and "view c = Running Decrypting k iv aad ct t \<Longrightarrow> fst (fst (EVP_DecryptUpdate ossl p c)) = 1"
    and "view c = Running Decrypting k iv aad ct t \<Longrightarrow> length u = 16 \<Longrightarrow> fst (EVP_CTRL_GCM_SET_TAG ossl u c) = 1"
    and "view c = Running Decrypting k iv aad ct (Some (tg k iv aad ct)) \<Longrightarrow>
        fst (fst (EVP_DecryptFinal_ex ossl c)) = 1"
proof -
  note a = assms [unfolded gcm_available_def]
  show "EVP_aes_256_gcm_found ossl"
    using a [THEN conjunct1] by blast
  show "fst (EVP_CIPHER_CTX_new ossl w) \<noteq> None"
    using a [THEN conjunct2, THEN conjunct1] by blast
  show "fst (EVP_EncryptInit_cipher ossl c) = 1" if "view c = Fresh"
    using a [THEN conjunct2, THEN conjunct2, THEN conjunct1] that by blast
  show "fst (EVP_DecryptInit_cipher ossl c) = 1" if "view c = Fresh"
    using a [THEN conjunct2, THEN conjunct2, THEN conjunct1] that by blast
  show "fst (EVP_CTRL_GCM_SET_IVLEN ossl 12 c) = 1" if "view c = Selected d m"
    using a [THEN conjunct2, THEN conjunct2, THEN conjunct2, THEN conjunct1] that by blast
  show "fst (EVP_EncryptInit_key ossl k iv c) = 1" if "view c = Selected Encrypting (length iv)" and "length k = 32"
    using a [THEN conjunct2, THEN conjunct2, THEN conjunct2, THEN conjunct2, THEN conjunct1] that by blast
  show "fst (EVP_DecryptInit_key ossl k iv c) = 1" if "view c = Selected Decrypting (length iv)" and "length k = 32"
    using a [THEN conjunct2, THEN conjunct2, THEN conjunct2, THEN conjunct2, THEN conjunct2, THEN conjunct1] that by blast
  show "fst (EVP_CipherUpdate_aad ossl a c) = 1" if "view c = Running d k iv aad [] t"
    using a [THEN conjunct2, THEN conjunct2, THEN conjunct2, THEN conjunct2, THEN conjunct2, THEN conjunct2, THEN conjunct1] that by blast
  show "fst (fst (EVP_EncryptUpdate ossl p c)) = 1" if "view c = Running Encrypting k iv aad ct t"
    using a [THEN conjunct2, THEN conjunct2, THEN conjunct2, THEN conjunct2, THEN conjunct2, THEN conjunct2, THEN conjunct2, THEN conjunct1] that by blast
  show "fst (fst (EVP_EncryptFinal_ex ossl c)) = 1" if "view c = Running Encrypting k iv aad ct t"
    using a [THEN conjunct2, THEN conjunct2, THEN conjunct2, THEN conjunct2, THEN conjunct2, THEN conjunct2, THEN conjunct2, THEN conjunct1] that by blast
  show "fst (fst (EVP_CTRL_GCM_GET_TAG ossl 16 (snd (EVP_EncryptFinal_ex ossl c)))) = 1" if "view c = Running Encrypting k iv aad ct t"
    using a [THEN conjunct2, THEN conjunct2, THEN conjunct2, THEN conjunct2, THEN conjunct2, THEN conjunct2, THEN conjunct2, THEN conjunct1] that by blast
  show "fst (fst (EVP_DecryptUpdate ossl p c)) = 1" if "view c = Running Decrypting k iv aad ct t"
    using a [THEN conjunct2, THEN conjunct2, THEN conjunct2, THEN conjunct2, THEN conjunct2, THEN conjunct2, THEN conjunct2, THEN conjunct2, THEN conjunct1] that by blast
  show "fst (EVP_CTRL_GCM_SET_TAG ossl u c) = 1" if "view c = Running Decrypting k iv aad ct t" and "length u = 16"
    using a [THEN conjunct2, THEN conjunct2, THEN conjunct2, THEN conjunct2, THEN conjunct2, THEN conjunct2, THEN conjunct2, THEN conjunct2, THEN conjunct2, THEN conjunct1] that by blast
  show "fst (fst (EVP_DecryptFinal_ex ossl c)) = 1" if "view c = Running Decrypting k iv aad ct (Some (tg k iv aad ct))"
    using a [THEN conjunct2, THEN conjunct2, THEN conjunct2, THEN conjunct2, THEN conjunct2, THEN conjunct2, THEN conjunct2, THEN conjunct2, THEN conjunct2, THEN conjunct2] that by blast
qed

text \<open>The same, as facts about the result of a call.\<close>

lemma gcm_available_calls:
  assumes "gcm_available ossl view tg"
  shows "EVP_CIPHER_CTX_new ossl w = (x, w') \<Longrightarrow> x \<noteq> None"
    and "EVP_EncryptInit_cipher ossl c = (r, c') \<Longrightarrow> view c = Fresh \<Longrightarrow> r = 1"
    and "EVP_DecryptInit_cipher ossl c = (r, c') \<Longrightarrow> view c = Fresh \<Longrightarrow> r = 1"
    and "EVP_CTRL_GCM_SET_IVLEN ossl 12 c = (r, c') \<Longrightarrow> view c = Selected d m \<Longrightarrow> r = 1"
    and "EVP_EncryptInit_key ossl k iv c = (r, c') \<Longrightarrow> view c = Selected Encrypting (length iv) \<Longrightarrow> length k = 32 \<Longrightarrow> r = 1"
    and "EVP_DecryptInit_key ossl k iv c = (r, c') \<Longrightarrow> view c = Selected Decrypting (length iv) \<Longrightarrow> length k = 32 \<Longrightarrow> r = 1"
    and "EVP_CipherUpdate_aad ossl a c = (r, c') \<Longrightarrow> view c = Running d k iv aad [] t \<Longrightarrow> r = 1"
    and "EVP_EncryptUpdate ossl p c = ((r, out, sz), c') \<Longrightarrow> view c = Running Encrypting k iv aad ct t \<Longrightarrow> r = 1"
    and "EVP_EncryptFinal_ex ossl c = ((r, out, sz), c') \<Longrightarrow> view c = Running Encrypting k iv aad ct t \<Longrightarrow> r = 1"
    and "EVP_EncryptFinal_ex ossl c = ((r', fin, sz), c1) \<Longrightarrow> EVP_CTRL_GCM_GET_TAG ossl 16 c1 = ((r, out), c') \<Longrightarrow>
        view c = Running Encrypting k iv aad ct t \<Longrightarrow> r = 1"
    and "EVP_DecryptUpdate ossl p c = ((r, out, sz), c') \<Longrightarrow> view c = Running Decrypting k iv aad ct t \<Longrightarrow> r = 1"
    and "EVP_CTRL_GCM_SET_TAG ossl u c = (r, c') \<Longrightarrow> view c = Running Decrypting k iv aad ct t \<Longrightarrow> length u = 16 \<Longrightarrow> r = 1"
    and "EVP_DecryptFinal_ex ossl c = ((r, out, sz), c') \<Longrightarrow> view c = Running Decrypting k iv aad ct (Some (tg k iv aad ct)) \<Longrightarrow> r = 1"
proof -
  note a = gcm_availableD [OF assms]
  show "x \<noteq> None" if "EVP_CIPHER_CTX_new ossl w = (x, w')"
    using a(2) that by (metis fst_conv)
  show "r = 1" if "EVP_EncryptInit_cipher ossl c = (r, c')" and "view c = Fresh"
    using a(3) that by (metis fst_conv)
  show "r = 1" if "EVP_DecryptInit_cipher ossl c = (r, c')" and "view c = Fresh"
    using a(4) that by (metis fst_conv)
  show "r = 1" if "EVP_CTRL_GCM_SET_IVLEN ossl 12 c = (r, c')" and "view c = Selected d m"
    using a(5) that by (metis fst_conv)
  show "r = 1" if "EVP_EncryptInit_key ossl k iv c = (r, c')" and "view c = Selected Encrypting (length iv)" and "length k = 32"
    using a(6) that by (metis fst_conv)
  show "r = 1" if "EVP_DecryptInit_key ossl k iv c = (r, c')" and "view c = Selected Decrypting (length iv)" and "length k = 32"
    using a(7) that by (metis fst_conv)
  show "r = 1" if "EVP_CipherUpdate_aad ossl a c = (r, c')" and "view c = Running d k iv aad [] t"
    using a(8) that by (metis fst_conv)
  show "r = 1" if "EVP_EncryptUpdate ossl p c = ((r, out, sz), c')" and "view c = Running Encrypting k iv aad ct t"
    using a(9) that by (metis fst_conv)
  show "r = 1" if "EVP_EncryptFinal_ex ossl c = ((r, out, sz), c')" and "view c = Running Encrypting k iv aad ct t"
    using a(10) that by (metis fst_conv)
  show "r = 1" if "EVP_EncryptFinal_ex ossl c = ((r', fin, sz), c1)" and "EVP_CTRL_GCM_GET_TAG ossl 16 c1 = ((r, out), c')"
    and "view c = Running Encrypting k iv aad ct t"
    using a(11) [OF that(3)] that(1, 2) by simp
  show "r = 1" if "EVP_DecryptUpdate ossl p c = ((r, out, sz), c')" and "view c = Running Decrypting k iv aad ct t"
    using a(12) that by (metis fst_conv)
  show "r = 1" if "EVP_CTRL_GCM_SET_TAG ossl u c = (r, c')" and "view c = Running Decrypting k iv aad ct t" and "length u = 16"
    using a(13) that by (metis fst_conv)
  show "r = 1" if "EVP_DecryptFinal_ex ossl c = ((r, out, sz), c')" and "view c = Running Decrypting k iv aad ct (Some (tg k iv aad ct))"
    using a(14) that by (metis fst_conv)
qed

text \<open>\<^verbatim>\<open>RAND_bytes(3)\<close>: on success the whole buffer is filled.\<close>

definition rand_documented :: "('w, 'c, 'd) openssl \<Rightarrow> bool" where
  "rand_documented ossl \<longleftrightarrow>
     (\<forall>n w bs w'. RAND_bytes ossl n w = ((1, bs), w') \<longrightarrow> length bs = n) \<and>
     (\<forall>n w bs w'. RAND_priv_bytes ossl n w = ((1, bs), w') \<longrightarrow> length bs = n)"

definition rand_available :: "('w, 'c, 'd) openssl \<Rightarrow> bool" where
  "rand_available ossl \<longleftrightarrow>
     (\<forall>n w. fst (fst (RAND_bytes ossl n w)) = 1 \<and> fst (fst (RAND_priv_bytes ossl n w)) = 1)"

text \<open>The value a parameter array gives a name; an octet string that is not given is empty.\<close>

fun text_param :: "string \<Rightarrow> ossl_param list \<Rightarrow> string option" where
  "text_param name [] = None"
| "text_param name (utf8_string n v # ps) = (if n = name then Some v else text_param name ps)"
| "text_param name (_ # ps) = text_param name ps"

fun number_param :: "string \<Rightarrow> ossl_param list \<Rightarrow> int option" where
  "number_param name [] = None"
| "number_param name (int_param n v # ps) = (if n = name then Some v else number_param name ps)"
| "number_param name (_ # ps) = number_param name ps"

fun octets_param :: "string \<Rightarrow> ossl_param list \<Rightarrow> bytes" where
  "octets_param name [] = []"
| "octets_param name (octet_string n v # ps) = (if n = name then v else octets_param name ps)"
| "octets_param name (_ # ps) = octets_param name ps"

section \<open>A concrete backend\<close>

text \<open>
  An instance with the documented behaviour, used by the witnesses: a key stream and
  a tag that depend on all their inputs, a random generator that counts, and calls that
  fail (return 0) when the context is not in the documented state.
\<close>

definition sample_ks :: key_stream where
  "sample_ks k iv i = sum_list k + sum_list iv + of_nat (3 * i)"

definition sample_tag :: gcm_tag where
  "sample_tag k iv aad ct =
     map (\<lambda>i. of_nat i + sum_list k + sum_list iv + sum_list aad + 5 * sum_list ct + of_nat (length aad)) [0..<16]"

fun sample_select :: "gcm_dir \<Rightarrow> gcm_view \<Rightarrow> int \<times> gcm_view" where
  "sample_select d Fresh = (1, Selected d 12)"
| "sample_select d c = (0, c)"

fun sample_ivlen :: "nat \<Rightarrow> gcm_view \<Rightarrow> int \<times> gcm_view" where
  "sample_ivlen n (Selected d m) = (if 0 < n then (1, Selected d n) else (0, Selected d m))"
| "sample_ivlen n c = (0, c)"

fun sample_key :: "gcm_dir \<Rightarrow> bytes \<Rightarrow> bytes \<Rightarrow> gcm_view \<Rightarrow> int \<times> gcm_view" where
  "sample_key d k iv (Selected d' n) =
     (if d = d' \<and> length iv = n \<and> length k = 32 then (1, Running d k iv [] [] None) else (0, Selected d' n))"
| "sample_key d k iv c = (0, c)"

fun sample_aad :: "bytes \<Rightarrow> gcm_view \<Rightarrow> int \<times> gcm_view" where
  "sample_aad a (Running d k iv aad [] t) = (1, Running d k iv (aad @ a) [] t)"
| "sample_aad a c = (0, c)"

fun sample_encrypt :: "bytes \<Rightarrow> gcm_view \<Rightarrow> (int \<times> bytes \<times> int) \<times> gcm_view" where
  "sample_encrypt p (Running Encrypting k iv aad ct t) =
     (let out = crypt (sample_ks k iv) (length ct) p
      in ((1, out, int (length p)), Running Encrypting k iv aad (ct @ out) t))"
| "sample_encrypt p c = ((0, [], 0), c)"

fun sample_encrypt_final :: "gcm_view \<Rightarrow> (int \<times> bytes \<times> int) \<times> gcm_view" where
  "sample_encrypt_final (Running Encrypting k iv aad ct t) = ((1, [], 0), Running Encrypting k iv aad ct t)"
| "sample_encrypt_final c = ((0, [], 0), c)"

fun sample_get_tag :: "nat \<Rightarrow> gcm_view \<Rightarrow> (int \<times> bytes) \<times> gcm_view" where
  "sample_get_tag n (Running Encrypting k iv aad ct t) =
     ((1, take n (sample_tag k iv aad ct)), Running Encrypting k iv aad ct t)"
| "sample_get_tag n c = ((0, []), c)"

fun sample_set_tag :: "bytes \<Rightarrow> gcm_view \<Rightarrow> int \<times> gcm_view" where
  "sample_set_tag u (Running d k iv aad ct t) = (1, Running d k iv aad ct (Some u))"
| "sample_set_tag u c = (0, c)"

fun sample_decrypt :: "bytes \<Rightarrow> gcm_view \<Rightarrow> (int \<times> bytes \<times> int) \<times> gcm_view" where
  "sample_decrypt p (Running Decrypting k iv aad ct t) =
     ((1, crypt (sample_ks k iv) (length ct) p, int (length p)), Running Decrypting k iv aad (ct @ p) t)"
| "sample_decrypt p c = ((0, [], 0), c)"

fun sample_decrypt_final :: "gcm_view \<Rightarrow> (int \<times> bytes \<times> int) \<times> gcm_view" where
  "sample_decrypt_final (Running Decrypting k iv aad ct (Some t)) =
     ((if t = sample_tag k iv aad ct then 1 else 0, [], 0), Running Decrypting k iv aad ct (Some t))"
| "sample_decrypt_final c = ((0, [], 0), c)"

definition sample_random :: "nat \<Rightarrow> nat \<Rightarrow> (int \<times> bytes) \<times> nat" where
  "sample_random n w = ((1, map (\<lambda>i. of_nat (w + i)) [0..<n]), w + n)"

definition sample_ossl :: "(nat, gcm_view, bytes) openssl" where
  "sample_ossl =
     \<lparr> RAND_bytes = sample_random,
       RAND_priv_bytes = sample_random,
       EVP_CIPHER_CTX_new = (\<lambda>w. (Some Fresh, w)),
       EVP_aes_256_gcm_found = True,
       EVP_EncryptInit_cipher = sample_select Encrypting,
       EVP_EncryptInit_key = sample_key Encrypting,
       EVP_DecryptInit_cipher = sample_select Decrypting,
       EVP_DecryptInit_key = sample_key Decrypting,
       EVP_CTRL_GCM_SET_IVLEN = sample_ivlen,
       EVP_CTRL_GCM_GET_TAG = sample_get_tag,
       EVP_CTRL_GCM_SET_TAG = sample_set_tag,
       EVP_CipherUpdate_aad = sample_aad,
       EVP_EncryptUpdate = sample_encrypt,
       EVP_EncryptFinal_ex = sample_encrypt_final,
       EVP_DecryptUpdate = sample_decrypt,
       EVP_DecryptFinal_ex = sample_decrypt_final,
       EVP_MD_CTX_new = (\<lambda>w. (Some [], w)),
       EVP_sha256_found = True,
       EVP_DigestInit_ex = (\<lambda>_. (1, [])),
       EVP_DigestUpdate = (\<lambda>b d. (1, d @ b)),
       EVP_DigestFinal_ex = (\<lambda>d. ((1, replicate 32 (sum_list d), 32), d)),
       EVP_Q_mac = (\<lambda>_ _ k b n w. ((True, replicate 32 (sum_list k + sum_list b), 32), w)),
       EVP_KDF_fetch = (\<lambda>_ w. (True, w)),
       EVP_KDF_CTX_new = (\<lambda>w. (True, w)),
       EVP_KDF_derive = (\<lambda>n ps w. ((1, replicate n (sum_list (octets_param ''key'' ps) + sum_list (octets_param ''salt'' ps) + sum_list (octets_param ''info'' ps))), w)),
       EVP_PBE_scrypt = (\<lambda>pw salt N r p maxmem n w. ((1, replicate n (sum_list pw + sum_list salt)), w)) \<rparr>"

lemma sample_fields [simp]:
  "RAND_bytes sample_ossl = sample_random"
  "RAND_priv_bytes sample_ossl = sample_random"
  "EVP_CIPHER_CTX_new sample_ossl w = (Some Fresh, w)"
  "EVP_aes_256_gcm_found sample_ossl = True"
  "EVP_EncryptInit_cipher sample_ossl = sample_select Encrypting"
  "EVP_EncryptInit_key sample_ossl = sample_key Encrypting"
  "EVP_DecryptInit_cipher sample_ossl = sample_select Decrypting"
  "EVP_DecryptInit_key sample_ossl = sample_key Decrypting"
  "EVP_CTRL_GCM_SET_IVLEN sample_ossl = sample_ivlen"
  "EVP_CTRL_GCM_GET_TAG sample_ossl = sample_get_tag"
  "EVP_CTRL_GCM_SET_TAG sample_ossl = sample_set_tag"
  "EVP_CipherUpdate_aad sample_ossl = sample_aad"
  "EVP_EncryptUpdate sample_ossl = sample_encrypt"
  "EVP_EncryptFinal_ex sample_ossl = sample_encrypt_final"
  "EVP_DecryptUpdate sample_ossl = sample_decrypt"
  "EVP_DecryptFinal_ex sample_ossl = sample_decrypt_final"
  by (simp_all add: sample_ossl_def)

lemma sample_select_Fresh [simp]: "sample_select d c = (1, c') \<longleftrightarrow> c = Fresh \<and> c' = Selected d 12"
  by (cases c) auto

lemma sample_documented: "gcm_documented sample_ossl (\<lambda>c. c) sample_ks sample_tag"
  by (simp add: gcm_documented_def Let_def) (auto simp: sample_tag_def split: if_splits)

lemma sample_available: "gcm_available sample_ossl (\<lambda>c. c) sample_tag"
  by (simp add: gcm_available_def Let_def)

lemma sample_rand_documented: "rand_documented sample_ossl"
  by (auto simp: rand_documented_def sample_random_def)

lemma sample_rand_available: "rand_available sample_ossl"
  by (auto simp: rand_available_def sample_random_def)

end
