(* ===== verification/Randomness.thy ===== *)
theory Randomness
  imports Openssl Base64
begin

text \<open>
  \<^verbatim>\<open>src/random.cpp\<close>: random bytes, keys and URL-safe tokens from OpenSSL's
  generators.
\<close>

section \<open>The code\<close>

text \<open>
  \<^verbatim>\<open>RAND_bytes\<close> takes an \<^verbatim>\<open>int\<close>, so the buffer is filled in pieces of
  at most \<^verbatim>\<open>INT_MAX\<close> bytes; every piece makes the remaining size smaller.
\<close>

function fill_random :: "('w, 'c, 'd) openssl \<Rightarrow> nat \<Rightarrow> (error, 'w, bytes) act" where
  "fill_random ossl n w =
     (if n = 0 then (Inr [], w)
      else
        let chunk = min n int_max
        in case RAND_bytes ossl chunk w of
             ((r, bs), w1) \<Rightarrow>
               if r \<noteq> 1 then (Inl (Error backend_failure ''OpenSSL RAND_bytes failed''), w1)
               else (case fill_random ossl (n - chunk) w1 of
                       (Inl e, w2) \<Rightarrow> (Inl e, w2)
                     | (Inr rest, w2) \<Rightarrow> (Inr (overwrite (replicate chunk 0) bs @ rest), w2)))"
  by pat_completeness auto
termination by (relation "measure (\<lambda>(_, n, _). n)") (auto simp: int_max_def)

declare fill_random.simps [simp del]

definition random_bytes :: "('w, 'c, 'd) openssl \<Rightarrow> nat \<Rightarrow> (error, 'w, bytes) act" where
  "random_bytes ossl n = (if n = 0 then ret [] else fill_random ossl n)"

definition generate_key :: "('w, 'c, 'd) openssl \<Rightarrow> (error, 'w, key256) act" where
  "generate_key ossl =
     bindM (call (RAND_priv_bytes ossl 32)) (\<lambda>(r, bs).
     if r \<noteq> 1 then throw (Error backend_failure ''OpenSSL RAND_priv_bytes failed'')
     else ret (overwrite (replicate 32 0) bs))"

definition random_token :: "('w, 'c, 'd) openssl \<Rightarrow> nat \<Rightarrow> (error, 'w, string) act" where
  "random_token ossl byte_size =
     (if byte_size = 0
      then throw (Error invalid_input ''random token byte size must be greater than zero'')
      else bindM (random_bytes ossl byte_size) (\<lambda>b. lift_result (base64url_encode b)))"

section \<open>Lemmas\<close>

lemma fill_random_0 [simp]: "fill_random ossl 0 w = (Inr [], w)"
  by (simp add: fill_random.simps)

lemma fill_random_length: "fill_random ossl n w = (Inr bs, w') \<Longrightarrow> length bs = n"
proof (induction ossl n w arbitrary: bs w' rule: fill_random.induct)
  case (1 ossl n w)
  show ?case
  proof (cases "n = 0")
    case True
    with "1.prems" show ?thesis by simp
  next
    case False
    let ?c = "min n int_max"
    obtain r b w1 where rb: "RAND_bytes ossl ?c w = ((r, b), w1)" by (metis surj_pair)
    with "1.prems" False obtain rest w2 where r: "r = 1"
      and rest: "fill_random ossl (n - ?c) w1 = (Inr rest, w2)"
      and bs: "bs = overwrite (replicate ?c 0) b @ rest"
      by (auto simp: fill_random.simps [of ossl n] Let_def split: if_splits prod.splits sum.splits)
    have "length rest = n - ?c"
      using "1.IH" [OF False refl rb [symmetric] _ _ rest] r by simp
    then show ?thesis by (simp add: bs)
  qed
qed

lemma fill_random_Inl: "fill_random ossl n w = (Inl e, w') \<Longrightarrow> code e = backend_failure"
proof (induction ossl n w arbitrary: e w' rule: fill_random.induct)
  case (1 ossl n w)
  obtain r b w1 where rb: "RAND_bytes ossl (min n int_max) w = ((r, b), w1)" by (metis surj_pair)
  have n: "n \<noteq> 0" using "1.prems" by (cases "n = 0") simp_all
  show ?case
  proof (cases "r = 1")
    case True
    with "1.prems" rb n have "fill_random ossl (n - min n int_max) w1 = (Inl e, w')"
      by (auto simp: fill_random.simps [of ossl n] Let_def split: prod.splits sum.splits)
    then show ?thesis using "1.IH" [OF n refl rb [symmetric]] True by simp
  next
    case False
    with "1.prems" rb n show ?thesis by (auto simp: fill_random.simps [of ossl n] Let_def)
  qed
qed

lemma fill_random_available:
  "rand_available ossl \<Longrightarrow> \<exists>bs w'. fill_random ossl n w = (Inr bs, w')"
proof (induction ossl n w rule: fill_random.induct)
  case (1 ossl n w)
  obtain r b w1 where rb: "RAND_bytes ossl (min n int_max) w = ((r, b), w1)" by (metis surj_pair)
  moreover have "r = 1" using "1.prems" rb by (metis fst_conv rand_available_def)
  ultimately show ?case
  proof (cases "n = 0")
    case False
    with "1.IH" [OF False refl rb [symmetric]] \<open>r = 1\<close> rb "1.prems" show ?thesis
      by (auto simp: fill_random.simps [of ossl n] Let_def)
  qed simp
qed

lemma random_bytes_length: "random_bytes ossl n w = (Inr bs, w') \<Longrightarrow> length bs = n"
  by (auto simp: random_bytes_def fill_random_length split: if_splits)

lemma random_bytes_Inl: "random_bytes ossl n w = (Inl e, w') \<Longrightarrow> code e = backend_failure"
  by (auto simp: random_bytes_def fill_random_Inl split: if_splits)

lemma random_bytes_available:
  "rand_available ossl \<Longrightarrow> \<exists>bs w'. random_bytes ossl n w = (Inr bs, w')"
  by (simp add: random_bytes_def fill_random_available)

lemma random_bytes_fault:
  "random_bytes ossl n w = (Inl e, w') \<Longrightarrow> code e = backend_failure \<and> \<not> rand_available ossl"
  using random_bytes_Inl random_bytes_available [of ossl n w] by fastforce

lemma generate_key_length: "generate_key ossl w = (Inr k, w') \<Longrightarrow> is_key256 k"
  by (auto simp: generate_key_def bindM_Inr is_key256_def split: if_splits)

section \<open>Properties\<close>

text \<open>
  C38: Random tokens. A token that \<^verbatim>\<open>random_token(n)\<close> returns decodes, with the
  library's own strict Base64URL decoder, to \<open>n\<close> bytes, and \<open>n\<close> is not zero;
  a request for zero bytes is refused as \<^verbatim>\<open>invalid_input\<close> without drawing randomness.
\<close>

theorem random_token_decodes:
  "case random_token ossl n w of
     (Inr t, _) \<Rightarrow> n \<noteq> 0 \<and> (\<exists>b. base64url_decode t = Inr b \<and> length b = n)
   | (Inl e, w') \<Rightarrow> n = 0 \<longrightarrow> code e = invalid_input \<and> w' = w"
proof (cases "n = 0")
  case True
  then show ?thesis by (simp add: random_token_def)
next
  case False
  show ?thesis
  proof (cases "random_token ossl n w")
    case (Pair r w')
    show ?thesis
    proof (cases r)
      case (Inr t)
      with Pair False obtain b where "random_bytes ossl n w = (Inr b, w')" "base64url_encode b = Inr t"
        by (auto simp: random_token_def bindM_Inr)
      then show ?thesis
        using Pair Inr False b64url.decode_encode random_bytes_length by fastforce
    qed (use Pair False in simp)
  qed
qed

theorem random_token_decodes_witness:
  "\<exists>t. random_token sample_ossl 2 250 = (Inr t, 252) \<and> (\<exists>b. base64url_decode t = Inr b \<and> length b = 2)"
proof -
  have "random_token sample_ossl 2 250 = (Inr ''-vs'', 252)"
    by (simp add: random_token_def random_bytes_def fill_random.simps int_max_def sample_random_def
        act_simps base64url_encode_def base64_encode_def string_max_size_def base64_encode_group_def
        kAlphabet_def url_char_def strip_padding.simps upt_rec)
  then show ?thesis using random_token_decodes [where ossl = sample_ossl and n = 2 and w = 250] by simp
qed

end
