(* ===== verification/Hashing.thy ===== *)
theory Hashing
  imports Openssl
begin

text \<open>
  \<^verbatim>\<open>src/hash.cpp\<close>: SHA-256, HMAC-SHA-256 and HKDF-SHA-256 over OpenSSL, with
  every unexpected return value reported as a backend failure.
\<close>

section \<open>The code\<close>

definition throw_sha256_failure :: "(error, 's, 'a) act" where
  "throw_sha256_failure = throw (Error backend_failure ''OpenSSL SHA-256 operation failed'')"

definition throw_hmac_backend_failure :: "(error, 's, 'a) act" where
  "throw_hmac_backend_failure = throw (Error backend_failure ''OpenSSL HMAC-SHA-256 operation failed'')"

definition throw_hkdf_backend_failure :: "(error, 's, 'a) act" where
  "throw_hkdf_backend_failure = throw (Error backend_failure ''OpenSSL HKDF-SHA-256 operation failed'')"

text \<open>The part of \<^verbatim>\<open>sha256\<close> after the context exists; an empty input is not passed on.\<close>

definition sha256_context :: "('w, 'c, 'd) openssl \<Rightarrow> bytes \<Rightarrow> (error, 'd, digest256) act" where
  "sha256_context ossl input =
     bindM (call (EVP_DigestInit_ex ossl)) (\<lambda>r.
     if r \<noteq> 1 then throw_sha256_failure else
     bindM (if input = [] then ret True else bindM (call (EVP_DigestUpdate ossl input)) (\<lambda>r. ret (r = 1)))
       (\<lambda>digest_updated.
     if \<not> digest_updated then throw_sha256_failure else
     bindM (call (EVP_DigestFinal_ex ossl)) (\<lambda>(r, out, output_size).
     if r \<noteq> 1 then throw_sha256_failure
     else if output_size \<noteq> 32 then throw_sha256_failure
     else ret (overwrite (replicate 32 0) out))))"

definition sha256 :: "('w, 'c, 'd) openssl \<Rightarrow> bytes \<Rightarrow> (error, 'w, digest256) act" where
  "sha256 ossl input =
     bindM (call (EVP_MD_CTX_new ossl)) (\<lambda>context.
     case context of
       None \<Rightarrow> throw_sha256_failure
     | Some d \<Rightarrow>
         if \<not> EVP_sha256_found ossl then throw_sha256_failure
         else lift_result (fst (sha256_context ossl input d)))"

text \<open>
  The parameter array: digest and mode always, the key always (an empty key as a
  zero-length octet string), salt and info only when they are not empty. The mode is
  \<^verbatim>\<open>EVP_KDF_HKDF_MODE_EXTRACT_AND_EXPAND\<close>, which is 0.
\<close>

definition hkdf_params :: "bytes \<Rightarrow> bytes \<Rightarrow> bytes \<Rightarrow> ossl_param list" where
  "hkdf_params key_material salt info =
     [utf8_string ''digest'' ''SHA256'', int_param ''mode'' 0, octet_string ''key'' key_material]
     @ (if salt \<noteq> [] then [octet_string ''salt'' salt] else [])
     @ (if info \<noteq> [] then [octet_string ''info'' info] else [])"

definition hkdf_sha256 ::
  "('w, 'c, 'd) openssl \<Rightarrow> bytes \<Rightarrow> bytes \<Rightarrow> bytes \<Rightarrow> nat \<Rightarrow> (error, 'w, bytes) act" where
  "hkdf_sha256 ossl key_material salt info output_size =
     (if output_size = 0 then ret []
      else
        bindM (call (EVP_KDF_fetch ossl ''HKDF'')) (\<lambda>kdf.
        if \<not> kdf then throw_hkdf_backend_failure else
        bindM (call (EVP_KDF_CTX_new ossl)) (\<lambda>context.
        if \<not> context then throw_hkdf_backend_failure else
        bindM (call (EVP_KDF_derive ossl output_size (hkdf_params key_material salt info))) (\<lambda>(r, out).
        if r \<noteq> 1 then throw_hkdf_backend_failure
        else ret (overwrite (replicate output_size 0) out)))))"

definition hmac_sha256 :: "('w, 'c, 'd) openssl \<Rightarrow> bytes \<Rightarrow> bytes \<Rightarrow> (error, 'w, digest256) act" where
  "hmac_sha256 ossl key input =
     bindM (call (EVP_Q_mac ossl ''HMAC'' ''SHA256'' key input 32)) (\<lambda>(non_null, out, output_size).
     if \<not> non_null then throw_hmac_backend_failure
     else if output_size \<noteq> 32 then throw_hmac_backend_failure
     else ret (overwrite (replicate 32 0) out))"

lemmas hash_failures = throw_sha256_failure_def throw_hmac_backend_failure_def throw_hkdf_backend_failure_def

section \<open>What the manual pages say\<close>

text \<open>
  \<^verbatim>\<open>EVP_DigestInit(3)\<close>, \<^verbatim>\<open>EVP_MAC(3)\<close>, \<^verbatim>\<open>EVP_KDF-HKDF(7)\<close>: what the calls
  that report success have done. A context has taken in the bytes \<open>view d\<close> since it was initialized; \<open>H\<close> is
  the digest, \<open>M\<close> the MAC, \<open>K key salt info n\<close> the derived bytes. How long a digest or a MAC is, is
  left open: the code checks it.
\<close>

definition hash_documented ::
  "('w, 'c, 'd) openssl \<Rightarrow> ('d \<Rightarrow> bytes option) \<Rightarrow> (bytes \<Rightarrow> bytes) \<Rightarrow> (bytes \<Rightarrow> bytes \<Rightarrow> bytes) \<Rightarrow>
   (bytes \<Rightarrow> bytes \<Rightarrow> bytes \<Rightarrow> nat \<Rightarrow> bytes) \<Rightarrow> bool" where
  "hash_documented ossl view H M K \<longleftrightarrow>
     (\<forall>d d'. EVP_DigestInit_ex ossl d = (1, d') \<longrightarrow> view d' = Some []) \<and>
     (\<forall>b d d' a. EVP_DigestUpdate ossl b d = (1, d') \<and> view d = Some a \<longrightarrow> view d' = Some (a @ b)) \<and>
     (\<forall>d out n d' a. EVP_DigestFinal_ex ossl d = ((1, out, n), d') \<and> view d = Some a \<longrightarrow> out = H a \<and> n = length (H a)) \<and>
     (\<forall>k b m w out n w'. EVP_Q_mac ossl ''HMAC'' ''SHA256'' k b m w = ((True, out, n), w') \<longrightarrow>
        out = M k b \<and> n = length (M k b)) \<and>
     (\<forall>n ps w out w'. EVP_KDF_derive ossl n ps w = ((1, out), w') \<and> text_param ''digest'' ps = Some ''SHA256'' \<and>
        number_param ''mode'' ps = Some 0 \<longrightarrow>
        out = K (octets_param ''key'' ps) (octets_param ''salt'' ps) (octets_param ''info'' ps) n \<and> length out = n)"

text \<open>When they report success; HKDF gives at most 255 blocks.\<close>

definition hash_available :: "('w, 'c, 'd) openssl \<Rightarrow> ('d \<Rightarrow> bytes option) \<Rightarrow> bool" where
  "hash_available ossl view \<longleftrightarrow>
     (\<forall>w. fst (EVP_MD_CTX_new ossl w) \<noteq> None) \<and> EVP_sha256_found ossl \<and>
     (\<forall>d. fst (EVP_DigestInit_ex ossl d) = 1) \<and>
     (\<forall>b d a. view d = Some a \<longrightarrow> fst (EVP_DigestUpdate ossl b d) = 1) \<and>
     (\<forall>d a. view d = Some a \<longrightarrow> fst (fst (EVP_DigestFinal_ex ossl d)) = 1) \<and>
     (\<forall>k b w. fst (fst (EVP_Q_mac ossl ''HMAC'' ''SHA256'' k b 32 w))) \<and>
     (\<forall>w. fst (EVP_KDF_fetch ossl ''HKDF'' w)) \<and> (\<forall>w. fst (EVP_KDF_CTX_new ossl w)) \<and>
     (\<forall>n ps w. 0 < n \<and> n \<le> 255 * 32 \<and> text_param ''digest'' ps = Some ''SHA256'' \<and> number_param ''mode'' ps = Some 0 \<longrightarrow>
        fst (fst (EVP_KDF_derive ossl n ps w)) = 1)"

section \<open>Lemmas\<close>

text \<open>
  A result that is \<open>h\<close>, of size \<open>n\<close>, or a backend failure; there is no failure when the backend is
  \<open>working\<close> and \<open>h\<close> has that size.
\<close>

definition exactly :: "bytes \<Rightarrow> nat \<Rightarrow> bool \<Rightarrow> error + bytes \<Rightarrow> bool" where
  "exactly h n working r \<longleftrightarrow>
     (case r of Inr out \<Rightarrow> out = h \<and> length h = n | Inl e \<Rightarrow> code e = backend_failure \<and> \<not> (working \<and> length h = n))"

lemma exactly_simps [simp]:
  "exactly h n working (Inr out) \<longleftrightarrow> out = h \<and> length h = n"
  "exactly h n working (Inl e) \<longleftrightarrow> code e = backend_failure \<and> \<not> (working \<and> length h = n)"
  by (simp_all add: exactly_def)

lemma hash_documentedD:
  assumes "hash_documented ossl view H M K"
  shows "EVP_DigestInit_ex ossl d = (1, d') \<Longrightarrow> view d' = Some []"
    and "EVP_DigestUpdate ossl b d = (1, d') \<Longrightarrow> view d = Some a \<Longrightarrow> view d' = Some (a @ b)"
    and "EVP_DigestFinal_ex ossl d = ((1, out, sz), d') \<Longrightarrow> view d = Some a \<Longrightarrow> out = H a \<and> sz = length (H a)"
    and "EVP_Q_mac ossl ''HMAC'' ''SHA256'' k b m w = ((True, out, sz), w') \<Longrightarrow> out = M k b \<and> sz = length (M k b)"
    and "EVP_KDF_derive ossl n ps w = ((1, out), w') \<Longrightarrow> text_param ''digest'' ps = Some ''SHA256'' \<Longrightarrow>
      number_param ''mode'' ps = Some 0 \<Longrightarrow>
      out = K (octets_param ''key'' ps) (octets_param ''salt'' ps) (octets_param ''info'' ps) n \<and> length out = n"
proof -
  note a = assms [unfolded hash_documented_def]
  show "view d' = Some []" if "EVP_DigestInit_ex ossl d = (1, d')"
    using a [THEN conjunct1] that by blast
  show "view d' = Some (a @ b)" if "EVP_DigestUpdate ossl b d = (1, d')" and "view d = Some a"
    using a [THEN conjunct2, THEN conjunct1] that by blast
  show "out = H a \<and> sz = length (H a)" if "EVP_DigestFinal_ex ossl d = ((1, out, sz), d')" and "view d = Some a"
    using a [THEN conjunct2, THEN conjunct2, THEN conjunct1] that by blast
  show "out = M k b \<and> sz = length (M k b)" if "EVP_Q_mac ossl ''HMAC'' ''SHA256'' k b m w = ((True, out, sz), w')"
    using a [THEN conjunct2, THEN conjunct2, THEN conjunct2, THEN conjunct1] that by blast
  show "out = K (octets_param ''key'' ps) (octets_param ''salt'' ps) (octets_param ''info'' ps) n \<and> length out = n" if "EVP_KDF_derive ossl n ps w = ((1, out), w')" and "text_param ''digest'' ps = Some ''SHA256''" and "number_param ''mode'' ps = Some 0"
    using a [THEN conjunct2, THEN conjunct2, THEN conjunct2, THEN conjunct2] that by blast
qed

lemma hash_availableD:
  assumes "hash_available ossl view"
  shows "EVP_MD_CTX_new ossl w = (context, w') \<Longrightarrow> context \<noteq> None" and "EVP_sha256_found ossl"
    and "EVP_DigestInit_ex ossl d = (r, d') \<Longrightarrow> r = 1"
    and "EVP_DigestUpdate ossl b d = (r, d') \<Longrightarrow> view d = Some a \<Longrightarrow> r = 1"
    and "EVP_DigestFinal_ex ossl d = ((r, out, sz), d') \<Longrightarrow> view d = Some a \<Longrightarrow> r = 1"
    and "EVP_Q_mac ossl ''HMAC'' ''SHA256'' k b 32 w = ((x, out, sz), w') \<Longrightarrow> x"
    and "EVP_KDF_fetch ossl ''HKDF'' w = (x, w') \<Longrightarrow> x" and "EVP_KDF_CTX_new ossl w = (x, w') \<Longrightarrow> x"
    and "EVP_KDF_derive ossl n ps w = ((r, out), w') \<Longrightarrow> 0 < n \<Longrightarrow> n \<le> 255 * 32 \<Longrightarrow>
      text_param ''digest'' ps = Some ''SHA256'' \<Longrightarrow> number_param ''mode'' ps = Some 0 \<Longrightarrow> r = 1"
proof -
  note a = assms [unfolded hash_available_def]
  show "context \<noteq> None" if "EVP_MD_CTX_new ossl w = (context, w')"
    using a [THEN conjunct1] that by (metis fst_conv)
  show "EVP_sha256_found ossl"
    using a [THEN conjunct2, THEN conjunct1] .
  show "r = 1" if "EVP_DigestInit_ex ossl d = (r, d')"
    using a [THEN conjunct2, THEN conjunct2, THEN conjunct1] that by (metis fst_conv)
  show "r = 1" if "EVP_DigestUpdate ossl b d = (r, d')" and "view d = Some a"
    using a [THEN conjunct2, THEN conjunct2, THEN conjunct2, THEN conjunct1] that by (metis fst_conv)
  show "r = 1" if "EVP_DigestFinal_ex ossl d = ((r, out, sz), d')" and "view d = Some a"
    using a [THEN conjunct2, THEN conjunct2, THEN conjunct2, THEN conjunct2, THEN conjunct1] that by (metis fst_conv)
  show "x" if "EVP_Q_mac ossl ''HMAC'' ''SHA256'' k b 32 w = ((x, out, sz), w')"
    using a [THEN conjunct2, THEN conjunct2, THEN conjunct2, THEN conjunct2, THEN conjunct2, THEN conjunct1] that by (metis fst_conv)
  show "x" if "EVP_KDF_fetch ossl ''HKDF'' w = (x, w')"
    using a [THEN conjunct2, THEN conjunct2, THEN conjunct2, THEN conjunct2, THEN conjunct2, THEN conjunct2, THEN conjunct1] that by (metis fst_conv)
  show "x" if "EVP_KDF_CTX_new ossl w = (x, w')"
    using a [THEN conjunct2, THEN conjunct2, THEN conjunct2, THEN conjunct2, THEN conjunct2, THEN conjunct2, THEN conjunct2, THEN conjunct1] that by (metis fst_conv)
  show "r = 1" if "EVP_KDF_derive ossl n ps w = ((r, out), w')" and "0 < n" and "n \<le> 255 * 32" and "text_param ''digest'' ps = Some ''SHA256''" and "number_param ''mode'' ps = Some 0"
    using a [THEN conjunct2, THEN conjunct2, THEN conjunct2, THEN conjunct2, THEN conjunct2, THEN conjunct2, THEN conjunct2, THEN conjunct2] that by (metis fst_conv)
qed

text \<open>The parameters the code passes; an empty salt or info is left out, which means the same.\<close>

lemma hkdf_params_values:
  "text_param ''digest'' (hkdf_params key salt info) = Some ''SHA256''"
  "number_param ''mode'' (hkdf_params key salt info) = Some 0"
  "octets_param ''key'' (hkdf_params key salt info) = key"
  "octets_param ''salt'' (hkdf_params key salt info) = salt"
  "octets_param ''info'' (hkdf_params key salt info) = info"
  by (simp_all add: hkdf_params_def)

lemma sha256_context_exact:
  assumes doc: "hash_documented ossl view H M K"
  shows "exactly (H input) 32 (hash_available ossl view) (fst (sha256_context ossl input d))"
proof -
  obtain r1 d1 where 1: "EVP_DigestInit_ex ossl d = (r1, d1)" by fastforce
  obtain r2 d2 where 2: "(if input = [] then (1, d1) else EVP_DigestUpdate ossl input d1) = (r2, d2)" by fastforce
  obtain r3 out sz d3 where 3: "EVP_DigestFinal_ex ossl d2 = ((r3, out, sz), d3)" by (metis surj_pair)
  have v1: "view d1 = Some []" if "r1 = 1" using hash_documentedD(1) [OF doc] 1 that by blast
  have v2: "view d2 = Some input" if "r1 = 1" "r2 = 1"
    using hash_documentedD(2) [OF doc _ v1 [OF that(1)], of input d2] v1 2 that by (auto split: if_splits)
  have v3: "out = H input \<and> sz = length (H input)" if "r1 = 1" "r2 = 1" "r3 = 1"
    using hash_documentedD(3) [OF doc _ v2 [OF that(1, 2)]] 3 that by blast
  have ok: "r1 = 1 \<and> r2 = 1 \<and> r3 = 1" if a: "hash_available ossl view"
  proof -
    have r1: "r1 = 1" by (rule hash_availableD(3) [OF a 1])
    have r2: "r2 = 1" using hash_availableD(4) [OF a _ v1 [OF r1]] 2 by (auto split: if_splits)
    show ?thesis using r1 r2 hash_availableD(5) [OF a 3 v2 [OF r1 r2]] by blast
  qed
  have run: "fst (sha256_context ossl input d) =
      (if r1 = 1 \<and> r2 = 1 \<and> r3 = 1 \<and> sz = 32 then Inr (overwrite (replicate 32 0) out)
       else Inl (Error backend_failure ''OpenSSL SHA-256 operation failed''))"
    using 1 2 3 by (cases "input = []") (simp_all add: sha256_context_def hash_failures act_simps)
  show ?thesis
  proof (cases "r1 = 1 \<and> r2 = 1 \<and> r3 = 1 \<and> sz = 32")
    case True
    then show ?thesis using v3 by (simp add: run overwrite_def)
  next
    case False
    then show ?thesis using v3 ok unfolding run by auto
  qed
qed

lemma sha256_exact:
  assumes doc: "hash_documented ossl view H M K"
  shows "exactly (H input) 32 (hash_available ossl view) (fst (sha256 ossl input w))"
proof -
  obtain ctx w' where c: "EVP_MD_CTX_new ossl w = (ctx, w')" by fastforce
  show ?thesis
  proof (cases ctx)
    case None
    then show ?thesis using c hash_availableD(1) [OF _ c] by (auto simp: sha256_def hash_failures act_simps)
  next
    case (Some d)
    then show ?thesis
      using c sha256_context_exact [OF doc, of input d] hash_availableD(2) [of ossl view]
      by (auto simp: sha256_def hash_failures act_simps)
  qed
qed

lemma hmac_exact:
  assumes doc: "hash_documented ossl view H M K"
  shows "exactly (M key input) 32 (hash_available ossl view) (fst (hmac_sha256 ossl key input w))"
proof -
  obtain ok out sz w' where c: "EVP_Q_mac ossl ''HMAC'' ''SHA256'' key input 32 w = ((ok, out, sz), w')" by (metis surj_pair)
  have "out = M key input \<and> sz = length (M key input)" if "ok" using hash_documentedD(4) [OF doc, of key input 32 w out sz w'] c that by simp
  moreover have "ok" if "hash_available ossl view" using hash_availableD(6) [OF that c] .
  ultimately show ?thesis using c by (auto simp: hmac_sha256_def hash_failures act_simps overwrite_def)
qed

lemma hkdf_exact:
  assumes doc: "hash_documented ossl view H M K"
  shows "exactly (if n = 0 then [] else K key salt info n) n (hash_available ossl view \<and> n \<le> 255 * 32)
    (fst (hkdf_sha256 ossl key salt info n w))"
proof (cases "n = 0")
  case True
  then show ?thesis by (simp add: hkdf_sha256_def)
next
  case False
  let ?ps = "hkdf_params key salt info"
  obtain x1 w1 where 1: "EVP_KDF_fetch ossl ''HKDF'' w = (x1, w1)" by fastforce
  obtain x2 w2 where 2: "EVP_KDF_CTX_new ossl w1 = (x2, w2)" by fastforce
  obtain r out w3 where 3: "EVP_KDF_derive ossl n ?ps w2 = ((r, out), w3)" by (metis surj_pair)
  have "out = K key salt info n \<and> length out = n" if "r = 1"
    using hash_documentedD(5) [OF doc, of n ?ps w2 out w3] 3 that unfolding hkdf_params_values by blast
  moreover have "x1 \<and> x2 \<and> r = 1" if "hash_available ossl view" "n \<le> 255 * 32"
    using hash_availableD(7) [OF that(1) 1] hash_availableD(8) [OF that(1) 2] hash_availableD(9) [OF that(1) 3] that(2) False
    by (simp add: hkdf_params_values)
  ultimately show ?thesis
    using False 1 2 3 by (auto simp: hkdf_sha256_def hash_failures act_simps overwrite_def)
qed

section \<open>Properties\<close>

text \<open>
  C39: Digests, MACs and derived keys. Whatever \<^verbatim>\<open>sha256\<close> and \<^verbatim>\<open>hmac_sha256\<close>
  return is the digest of the whole input and the MAC of the input under the key, of 32 bytes;
  \<^verbatim>\<open>hkdf_sha256\<close> returns the bytes HKDF-SHA-256 derives from key material, salt and info, as many as
  were asked for. Every other outcome is a
  \<^verbatim>\<open>backend_failure\<close>, and it does not happen when the calls succeed with outputs of these sizes.
\<close>

theorem hashes_exact:
  assumes "hash_documented ossl view H M K"
  shows "exactly (H input) 32 (hash_available ossl view) (fst (sha256 ossl input w)) \<and>
    exactly (M key input) 32 (hash_available ossl view) (fst (hmac_sha256 ossl key input w)) \<and>
    exactly (if n = 0 then [] else K key salt info n) n (hash_available ossl view \<and> n \<le> 255 * 32)
      (fst (hkdf_sha256 ossl key salt info n w))"
  using sha256_exact [OF assms] hmac_exact [OF assms] hkdf_exact [OF assms] by blast

lemma sample_hash_documented:
  "hash_documented sample_ossl Some (\<lambda>a. replicate 32 (sum_list a)) (\<lambda>k b. replicate 32 (sum_list k + sum_list b))
     (\<lambda>k s i n. replicate n (sum_list k + sum_list s + sum_list i))"
  by (auto simp: hash_documented_def sample_ossl_def)

lemma sample_hash_available: "hash_available sample_ossl Some"
  by (simp add: hash_available_def sample_ossl_def)

theorem hashes_exact_witness:
  "fst (sha256 sample_ossl [1, 2, 3] 0) = Inr (replicate 32 6) \<and>
   fst (hmac_sha256 sample_ossl [4] [1, 2] 0) = Inr (replicate 32 7) \<and>
   fst (hkdf_sha256 sample_ossl [4] [] [5] 42 0) = Inr (replicate 42 9)"
proof -
  have inr: "r = Inr h" if "exactly h n True r" "length h = n" for h n r
    using that by (cases r) simp_all
  note hashes = hashes_exact [OF sample_hash_documented, unfolded eqTrueI [OF sample_hash_available]]
  show ?thesis
    using hashes [where input = "[1, 2, 3]" and w = 0] hashes [where key = "[4]" and input = "[1, 2]" and w = 0]
      hashes [where key = "[4]" and salt = "[]" and info = "[5]" and n = 42 and w = 0]
    by (intro conjI inr) simp_all
qed

end
