(* ===== verification/Packet_Stream.thy ===== *)
theory Packet_Stream
  imports Openssl
begin

text \<open>
  \<^verbatim>\<open>src/aead_internal.hpp\<close> and \<^verbatim>\<open>src/packet_stream.cpp\<close>: the
  \<^verbatim>\<open>SKT1\<close> packet layout and the two one-shot streaming objects. An object is
  \<open>None\<close> after it has been moved from (\<^verbatim>\<open>impl_ == nullptr\<close>).
\<close>

section \<open>Packet layout and helpers (aead\_internal.hpp)\<close>

definition kMagic :: bytes where "kMagic = [0x53, 0x4b, 0x54, 0x31]"
definition kVersion :: byte where "kVersion = 0x01"
definition kMagicSize :: nat where "kMagicSize = length kMagic"
definition kVersionSize :: nat where "kVersionSize = 1"
definition kHeaderSize :: nat where "kHeaderSize = kMagicSize + kVersionSize"
definition kNonceSize :: nat where "kNonceSize = 12"
definition kPrefixSize :: nat where "kPrefixSize = kHeaderSize + kNonceSize"
definition kTagSize :: nat where "kTagSize = 16"
definition kOverhead :: nat where "kOverhead = kPrefixSize + kTagSize"

lemma packet_sizes [simp]:
  "kMagicSize = 4" "kHeaderSize = 5" "kNonceSize = 12" "kPrefixSize = 17" "kTagSize = 16" "kOverhead = 33"
  by (simp_all add: kMagicSize_def kMagic_def kVersionSize_def kHeaderSize_def kNonceSize_def
      kPrefixSize_def kTagSize_def kOverhead_def)

definition aead_backend_failure :: error where
  "aead_backend_failure = Error backend_failure ''OpenSSL AES-256-GCM operation failed''"

definition aead_invalid_packet :: error where
  "aead_invalid_packet = Error invalid_packet ''Invalid AEAD packet''"

definition aead_authentication_failed :: error where
  "aead_authentication_failed = Error authentication_failed ''AEAD authentication failed''"

definition check_update_size :: "nat \<Rightarrow> string \<Rightarrow> (error, 's, unit) act" where
  "check_update_size n name =
     throw_if (n > int_max) (Error invalid_input (name @ '' exceeds OpenSSL update limit''))"

definition update_size :: "bytes \<Rightarrow> string \<Rightarrow> (error, 's, int) act" where
  "update_size input name = thenM (check_update_size (length input) name) (ret (int (length input)))"

definition make_header :: bytes where
  "make_header = kMagic @ [kVersion]"

definition make_packet_prefix :: "bytes \<Rightarrow> (error, 's, bytes) act" where
  "make_packet_prefix nonce =
     thenM (throw_if (length nonce \<noteq> kNonceSize) aead_backend_failure) (ret (make_header @ nonce))"

definition require_valid_prefix :: "bytes \<Rightarrow> (error, 's, unit) act" where
  "require_valid_prefix packet_prefix =
     thenM (throw_if (length packet_prefix \<noteq> kPrefixSize) aead_invalid_packet)
    (thenM (throw_if (take kMagicSize packet_prefix \<noteq> kMagic) aead_invalid_packet)
           (throw_if (packet_prefix ! kMagicSize \<noteq> kVersion) aead_invalid_packet))"

definition require_valid_packet :: "bytes \<Rightarrow> (error, 's, unit) act" where
  "require_valid_packet packet =
     thenM (throw_if (length packet < kOverhead) aead_invalid_packet)
           (require_valid_prefix (take kPrefixSize packet))"

definition make_context :: "('w, 'c, 'd) openssl \<Rightarrow> (error, 'w, 'c) act" where
  "make_context ossl =
     bindM (call (EVP_CIPHER_CTX_new ossl)) (\<lambda>context.
     case context of
       None \<Rightarrow> throw aead_backend_failure
     | Some c \<Rightarrow> if \<not> EVP_aes_256_gcm_found ossl then throw aead_backend_failure else ret c)"

text \<open>All three calls are made, whatever the earlier ones returned.\<close>

definition initialize_encrypt_context ::
  "('w, 'c, 'd) openssl \<Rightarrow> key256 \<Rightarrow> bytes \<Rightarrow> (error, 'c, bool) act" where
  "initialize_encrypt_context ossl key nonce =
     bindM (call (EVP_EncryptInit_cipher ossl)) (\<lambda>r1.
     bindM (call (EVP_CTRL_GCM_SET_IVLEN ossl kNonceSize)) (\<lambda>r2.
     bindM (call (EVP_EncryptInit_key ossl key nonce)) (\<lambda>r3.
     ret (r1 = 1 \<and> r2 = 1 \<and> r3 = 1))))"

definition initialize_decrypt_context ::
  "('w, 'c, 'd) openssl \<Rightarrow> key256 \<Rightarrow> bytes \<Rightarrow> (error, 'c, bool) act" where
  "initialize_decrypt_context ossl key nonce =
     bindM (call (EVP_DecryptInit_cipher ossl)) (\<lambda>r1.
     bindM (call (EVP_CTRL_GCM_SET_IVLEN ossl kNonceSize)) (\<lambda>r2.
     bindM (call (EVP_DecryptInit_key ossl key nonce)) (\<lambda>r3.
     ret (r1 = 1 \<and> r2 = 1 \<and> r3 = 1))))"

definition update_aad :: "('w, 'c, 'd) openssl \<Rightarrow> bytes \<Rightarrow> string \<Rightarrow> (error, 'c, unit) act" where
  "update_aad ossl aad name =
     bindM (update_size aad name) (\<lambda>aad_size.
     if aad_size = 0 then ret ()
     else bindM (call (EVP_CipherUpdate_aad ossl aad)) (\<lambda>r. throw_if (r \<noteq> 1) aead_backend_failure))"

section \<open>Chunks (packet\_stream.cpp)\<close>

definition encrypt_update :: "('w, 'c, 'd) openssl \<Rightarrow> bytes \<Rightarrow> (error, 'c, bytes) act" where
  "encrypt_update ossl plaintext =
     bindM (update_size plaintext ''plaintext'') (\<lambda>plaintext_size.
     let ciphertext = replicate (length plaintext) 0
     in if plaintext_size = 0 then ret ciphertext
        else bindM (call (EVP_EncryptUpdate ossl plaintext)) (\<lambda>(r, out, ciphertext_size).
          thenM (throw_if (r \<noteq> 1) aead_backend_failure)
         (thenM (throw_if (ciphertext_size \<noteq> plaintext_size) aead_backend_failure)
                (ret (overwrite ciphertext out)))))"

definition decrypt_update :: "('w, 'c, 'd) openssl \<Rightarrow> bytes \<Rightarrow> (error, 'c, bytes) act" where
  "decrypt_update ossl ciphertext =
     bindM (update_size ciphertext ''ciphertext'') (\<lambda>ciphertext_size.
     let plaintext = replicate (length ciphertext) 0
     in if ciphertext_size = 0 then ret plaintext
        else bindM (call (EVP_DecryptUpdate ossl ciphertext)) (\<lambda>(r, out, plaintext_size).
          thenM (throw_if (r \<noteq> 1) aead_backend_failure)
         (thenM (throw_if (plaintext_size \<noteq> ciphertext_size) aead_backend_failure)
                (ret (overwrite plaintext out)))))"

section \<open>The streaming objects (packet\_stream.cpp)\<close>

datatype packet_stream_phase = ready | active | finished

record 'c stream_impl =
  impl_key :: key256
  impl_aad :: bytes
  impl_context :: "'c option"
  impl_phase :: packet_stream_phase

type_synonym ('c, 'w) stream_state = "'c stream_impl option \<times> 'w"

text \<open>
  The constructor copies the key and the AAD and checks the AAD's size; a move leaves
  the source without state.
\<close>

definition stream_new :: "key256 \<Rightarrow> bytes \<Rightarrow> 'c stream_impl option result" where
  "stream_new input_key input_aad =
     (if length input_aad > int_max
      then Inl (Error invalid_input (''AAD'' @ '' exceeds OpenSSL update limit''))
      else Inr (Some \<lparr> impl_key = input_key, impl_aad = input_aad, impl_context = None, impl_phase = ready \<rparr>))"

definition stream_move :: "'c stream_impl option \<Rightarrow> 'c stream_impl option \<times> 'c stream_impl option" where
  "stream_move other = (other, None)"

text \<open>\<^verbatim>\<open>if (impl_ == nullptr) throw_invalid_input(...)\<close>, then the body on the object's state.\<close>

definition with_impl ::
  "string \<Rightarrow> (error, 'c stream_impl \<times> 'w, 'a) act \<Rightarrow> (error, ('c, 'w) stream_state, 'a) act" where
  "with_impl no_state body =
     (\<lambda>(this, w). case this of
        None \<Rightarrow> (Inl (Error invalid_input no_state), (None, w))
      | Some i \<Rightarrow> (case body (i, w) of (r, (i', w')) \<Rightarrow> (r, (Some i', w'))))"

definition require_phase ::
  "packet_stream_phase \<Rightarrow> string \<Rightarrow> (error, 'c stream_impl \<times> 'w, unit) act" where
  "require_phase p message =
     bindM (gets (\<lambda>(i, w). impl_phase i)) (\<lambda>q. throw_if (q \<noteq> p) (Error invalid_input message))"

text \<open>
  A call on \<^verbatim>\<open>impl_->context\<close>. The code makes none while the pointer is null
  (lemma \<open>stream_reachable_inv\<close> below keeps that invariant); the model's answer to it is a failure.
\<close>

definition on_context ::
  "(error, 'c, 'a) act \<Rightarrow> (error, 'c stream_impl \<times> 'w, 'a) act" where
  "on_context m =
     (\<lambda>(i, w). case impl_context i of
        None \<Rightarrow> (Inl aead_backend_failure, (i, w))
      | Some c \<Rightarrow> (case m c of (r, c') \<Rightarrow> (r, (i\<lparr>impl_context := Some c'\<rparr>, w))))"

definition set_phase :: "packet_stream_phase \<Rightarrow> (error, 'c stream_impl \<times> 'w, unit) act" where
  "set_phase p = modify (\<lambda>(i, w). (i\<lparr>impl_phase := p\<rparr>, w))"

definition set_context :: "'c option \<Rightarrow> (error, 'c stream_impl \<times> 'w, unit) act" where
  "set_context c = modify (\<lambda>(i, w). (i\<lparr>impl_context := c\<rparr>, w))"

text \<open>\<^verbatim>\<open>impl_->context.reset(); impl_->phase = packet_stream_phase::finished;\<close>\<close>

definition finish :: "(error, 'c stream_impl \<times> 'w, unit) act" where
  "finish = thenM (set_context None) (set_phase finished)"

definition encryptor_begin :: "('w, 'c, 'd) openssl \<Rightarrow> (error, ('c, 'w) stream_state, bytes) act" where
  "encryptor_begin ossl = with_impl ''packet encryptor has no state''
    (thenM (require_phase ready ''packet encryptor begin() may only be called once'')
    (bindM (on_snd (call (RAND_bytes ossl kNonceSize))) (\<lambda>(r, bs).
     let nonce = overwrite (replicate kNonceSize 0) bs in
     thenM (throw_if (r \<noteq> 1) aead_backend_failure)
    (bindM (on_snd (make_context ossl)) (\<lambda>c.
     thenM (set_context (Some c))
    (bindM (gets (\<lambda>(i, w). impl_key i)) (\<lambda>key.
     bindM (on_context (initialize_encrypt_context ossl key nonce)) (\<lambda>initialized.
     thenM (throw_if (\<not> initialized) aead_backend_failure)
    (thenM (on_context (update_aad ossl make_header ''header''))
    (bindM (gets (\<lambda>(i, w). impl_aad i)) (\<lambda>aad.
     thenM (on_context (update_aad ossl aad ''AAD''))
    (thenM (set_phase active)
           (make_packet_prefix nonce)))))))))))))"

definition encryptor_update ::
  "('w, 'c, 'd) openssl \<Rightarrow> bytes \<Rightarrow> (error, ('c, 'w) stream_state, bytes) act" where
  "encryptor_update ossl plaintext = with_impl ''packet encryptor has no state''
    (thenM (require_phase active ''packet encryptor update() requires begin() before finalize()'')
           (on_context (encrypt_update ossl plaintext)))"

definition encryptor_finalize :: "('w, 'c, 'd) openssl \<Rightarrow> (error, ('c, 'w) stream_state, bytes) act" where
  "encryptor_finalize ossl = with_impl ''packet encryptor has no state''
    (thenM (require_phase active ''packet encryptor finalize() requires begin() exactly once'')
    (bindM (on_context (call (EVP_EncryptFinal_ex ossl))) (\<lambda>(r, out, final_size).
     thenM (throw_if (r \<noteq> 1) aead_backend_failure)
    (thenM (throw_if (final_size \<noteq> 0) aead_backend_failure)
    (bindM (on_context (call (EVP_CTRL_GCM_GET_TAG ossl kTagSize))) (\<lambda>(r, tag).
     thenM (throw_if (r \<noteq> 1) aead_backend_failure)
    (thenM finish
           (ret (overwrite (replicate kTagSize 0) tag)))))))))"

definition decryptor_begin ::
  "('w, 'c, 'd) openssl \<Rightarrow> bytes \<Rightarrow> (error, ('c, 'w) stream_state, unit) act" where
  "decryptor_begin ossl packet_prefix = with_impl ''packet decryptor has no state''
    (thenM (require_phase ready ''packet decryptor begin() may only be called once'')
    (thenM (require_valid_prefix packet_prefix)
    (let header = take kHeaderSize packet_prefix;
         nonce = drop (length packet_prefix - kNonceSize) packet_prefix in
     bindM (on_snd (make_context ossl)) (\<lambda>c.
     thenM (set_context (Some c))
    (bindM (gets (\<lambda>(i, w). impl_key i)) (\<lambda>key.
     bindM (on_context (initialize_decrypt_context ossl key nonce)) (\<lambda>initialized.
     thenM (throw_if (\<not> initialized) aead_backend_failure)
    (thenM (on_context (update_aad ossl header ''header''))
    (bindM (gets (\<lambda>(i, w). impl_aad i)) (\<lambda>aad.
     thenM (on_context (update_aad ossl aad ''AAD''))
           (set_phase active)))))))))))"

definition decryptor_update ::
  "('w, 'c, 'd) openssl \<Rightarrow> bytes \<Rightarrow> (error, ('c, 'w) stream_state, bytes) act" where
  "decryptor_update ossl ciphertext = with_impl ''packet decryptor has no state''
    (thenM (require_phase active ''packet decryptor update() requires begin() before finalize()'')
           (on_context (decrypt_update ossl ciphertext)))"

definition decryptor_finalize ::
  "('w, 'c, 'd) openssl \<Rightarrow> bytes \<Rightarrow> (error, ('c, 'w) stream_state, bytes) act" where
  "decryptor_finalize ossl tag = with_impl ''packet decryptor has no state''
    (thenM (require_phase active ''packet decryptor finalize() requires begin() exactly once'')
    (if length tag \<noteq> kTagSize then thenM finish (throw aead_invalid_packet)
     else
     bindM (on_context (call (EVP_CTRL_GCM_SET_TAG ossl tag))) (\<lambda>r.
     thenM (throw_if (r \<noteq> 1) aead_backend_failure)
    (bindM (on_context (call (EVP_DecryptFinal_ex ossl))) (\<lambda>(r, out, final_size).
     if r \<noteq> 1 then thenM finish (throw aead_authentication_failed)
     else
     let final_buffer = overwrite [0] out in
     thenM (throw_if (final_size < 0 \<or> nat final_size > length final_buffer) aead_backend_failure)
    (thenM finish
           (ret (take (nat final_size) final_buffer))))))))"

section \<open>The contract of a one-shot streaming object\<close>

text \<open>
  The phases in the order the code declares them.
\<close>

instantiation packet_stream_phase :: linorder
begin

fun phase_rank :: "packet_stream_phase \<Rightarrow> nat" where
  "phase_rank ready = 0"
| "phase_rank active = 1"
| "phase_rank finished = 2"

definition less_eq_packet_stream_phase :: "packet_stream_phase \<Rightarrow> packet_stream_phase \<Rightarrow> bool" where
  "less_eq_packet_stream_phase p q \<longleftrightarrow> phase_rank p \<le> phase_rank q"

definition less_packet_stream_phase :: "packet_stream_phase \<Rightarrow> packet_stream_phase \<Rightarrow> bool" where
  "less_packet_stream_phase p q \<longleftrightarrow> phase_rank p < phase_rank q"

instance
proof
  fix p q :: packet_stream_phase
  show "p \<le> q \<Longrightarrow> q \<le> p \<Longrightarrow> p = q"
    by (cases p; cases q) (simp_all add: less_eq_packet_stream_phase_def)
qed (auto simp: less_eq_packet_stream_phase_def less_packet_stream_phase_def)

end

lemmas phase_order = less_eq_packet_stream_phase_def less_packet_stream_phase_def

text \<open>The calls of a client, the phase each requires and the phase it leads to.\<close>

datatype ('b, 'f) stream_call = Begin 'b | Update bytes | Finalize 'f

fun required_phase :: "('b, 'f) stream_call \<Rightarrow> packet_stream_phase" where
  "required_phase (Begin _) = ready"
| "required_phase (Update _) = active"
| "required_phase (Finalize _) = active"

fun next_phase :: "('b, 'f) stream_call \<Rightarrow> packet_stream_phase" where
  "next_phase (Begin _) = active"
| "next_phase (Update _) = active"
| "next_phase (Finalize _) = finished"

text \<open>The sequences of calls the interface documents: begin, updates, finalize.\<close>

fun one_shot :: "packet_stream_phase \<Rightarrow> ('b, 'f) stream_call list \<Rightarrow> bool" where
  "one_shot p [] = True"
| "one_shot p (c # cs) = (required_phase c = p \<and> one_shot (next_phase c) cs)"

text \<open>Calls in sequence, each with what it returned or threw.\<close>

fun stream_run ::
  "(('b, 'f) stream_call \<Rightarrow> (error, ('c, 'w) stream_state, bytes) act) \<Rightarrow> ('b, 'f) stream_call list \<Rightarrow>
   ('c, 'w) stream_state \<Rightarrow> (('b, 'f) stream_call \<times> bytes result) list \<times> ('c, 'w) stream_state"
where
  "stream_run exec [] s = ([], s)"
| "stream_run exec (c # cs) s =
     (let (r, s') = exec c s; (rs, s'') = stream_run exec cs s' in ((c, r) # rs, s''))"

definition succeeded :: "('a \<times> 'b result) list \<Rightarrow> 'a list" where
  "succeeded rs = map fst (filter (\<lambda>(c, r). \<not> isl r) rs)"

text \<open>
  The states an object can be in: built, moved into or out of another object, and
  after any call, whether it returned or threw.
\<close>

inductive stream_reachable ::
  "(('b, 'f) stream_call \<Rightarrow> (error, ('c, 'w) stream_state, bytes) act) \<Rightarrow> 'c stream_impl option \<Rightarrow> bool"
  for exec
where
  built: "stream_new key aad = Inr this \<Longrightarrow> stream_reachable exec this"
| moved_into: "stream_reachable exec other \<Longrightarrow> stream_reachable exec (fst (stream_move other))"
| moved_out: "stream_reachable exec other \<Longrightarrow> stream_reachable exec (snd (stream_move other))"
| called: "stream_reachable exec this \<Longrightarrow> exec req (this, w) = (r, (this', w')) \<Longrightarrow>
    stream_reachable exec this'"

inductive_cases stream_reachableE: "stream_reachable exec this"

text \<open>
  The object's invariant: a context while active, none once finished.
\<close>

definition stream_inv :: "'c stream_impl option \<Rightarrow> bool" where
  "stream_inv this \<longleftrightarrow>
     (case this of None \<Rightarrow> True
      | Some i \<Rightarrow> (impl_phase i = active \<longrightarrow> impl_context i \<noteq> None) \<and>
                  (impl_phase i = finished \<longrightarrow> impl_context i = None))"

lemma stream_new_inv: "stream_new k a = Inr st \<Longrightarrow> stream_inv st"
  by (auto simp: stream_new_def stream_inv_def split: if_splits)

locale one_shot_stream =
  fixes exec :: "('b, 'f) stream_call \<Rightarrow> (error, ('c, 'w) stream_state, bytes) act"
  assumes moved_from: "\<exists>e. exec req (None, w) = (Inl e, (None, w)) \<and> code e = invalid_input"
    and wrong_phase: "impl_phase i \<noteq> required_phase req \<Longrightarrow>
          \<exists>e. exec req (Some i, w) = (Inl e, (Some i, w)) \<and> code e = invalid_input"
    and phase_success: "exec req (Some i, w) = (Inr out, (this, w')) \<Longrightarrow>
          \<exists>j. this = Some j \<and> impl_phase j = next_phase req"
    and phase_failure: "exec req (Some i, w) = (Inl e, (this, w')) \<Longrightarrow> impl_phase i = required_phase req \<Longrightarrow>
          \<exists>j. this = Some j \<and> (impl_phase j = impl_phase i \<or> (\<exists>x. req = Finalize x) \<and> impl_phase j = finished)"
    and keeps_inputs: "exec req (Some i, w) = (r, (Some j, w')) \<Longrightarrow>
          impl_key j = impl_key i \<and> impl_aad j = impl_aad i"
    and keeps_inv: "exec req (this, w) = (r, (this', w')) \<Longrightarrow> stream_inv this \<Longrightarrow> stream_inv this'"
begin

lemma phase_le:
  assumes "exec req (Some i, w) = (r, (this, w'))"
  shows "\<exists>j. this = Some j \<and> impl_phase i \<le> impl_phase j"
proof (cases "impl_phase i = required_phase req")
  case True
  then show ?thesis
    using assms phase_success [of req i w _ this w'] phase_failure [of req i w _ this w']
    by (cases r; cases req) (auto simp: phase_order)
next
  case False
  then show ?thesis using assms wrong_phase [of i req w] by auto
qed

lemma finished_absorbs:
  assumes "impl_phase i = finished"
  shows "\<exists>e. exec req (Some i, w) = (Inl e, (Some i, w)) \<and> code e = invalid_input"
  using assms wrong_phase [of i req w] by (cases req) auto

lemma stream_run_phase_le:
  "stream_run exec cs (Some i, w) = (rs, (this, w')) \<Longrightarrow> \<exists>j. this = Some j \<and> impl_phase i \<le> impl_phase j"
proof (induction cs arbitrary: i w rs)
  case (Cons c cs)
  obtain r this1 w1 where c: "exec c (Some i, w) = (r, (this1, w1))" by (metis surj_pair)
  then obtain j where "this1 = Some j" "impl_phase i \<le> impl_phase j" using phase_le by blast
  with Cons.prems c Cons.IH [of j w1] show ?case
    by (fastforce split: prod.splits intro: order_trans)
qed auto

text \<open>After it has finished, an object refuses every req and never changes again.\<close>

lemma stream_run_finished:
  assumes "impl_phase i = finished"
  shows "stream_run exec cs (Some i, w) = (rs, s') \<Longrightarrow>
    s' = (Some i, w) \<and> (\<forall>(c, r) \<in> set rs. \<exists>e. r = Inl e \<and> code e = invalid_input)"
proof (induction cs arbitrary: rs s')
  case (Cons c cs)
  obtain e where c: "exec c (Some i, w) = (Inl e, (Some i, w))" "code e = invalid_input"
    using finished_absorbs [OF assms] by blast
  obtain rs1 s1 where t: "stream_run exec cs (Some i, w) = (rs1, s1)" by (metis surj_pair)
  show ?case using Cons.prems c Cons.IH [OF t] t by auto
qed simp

text \<open>The calls that succeed always form a documented sequence.\<close>

lemma stream_run_one_shot:
  "stream_run exec cs (Some i, w) = (rs, s') \<Longrightarrow>
     one_shot (impl_phase i) (succeeded rs)"
proof (induction cs arbitrary: i w rs s')
  case (Cons c cs)
  obtain r this1 w1 where c: "exec c (Some i, w) = (r, (this1, w1))" by (metis surj_pair)
  then obtain j where j: "this1 = Some j" using phase_le by blast
  obtain rs1 where rest: "stream_run exec cs (Some j, w1) = (rs1, s')" and rs: "rs = (c, r) # rs1"
    using Cons.prems c j by (auto split: prod.splits)
  note ih = Cons.IH [OF rest]
  show ?case
  proof (cases r)
    case (Inr out)
    then have "impl_phase j = next_phase c" using phase_success c j by blast
    moreover have "required_phase c = impl_phase i" using wrong_phase [of i c w] c Inr by (cases "impl_phase i = required_phase c") auto
    ultimately show ?thesis using ih rs Inr by (simp add: succeeded_def)
  next
    case (Inl e)
    show ?thesis
    proof (cases "impl_phase j = finished")
      case True
      then have "filter (\<lambda>(c, r). \<not> isl r) rs1 = []"
        using stream_run_finished [OF True rest] by (force simp: filter_empty_conv)
      then show ?thesis using rs Inl by (simp add: succeeded_def)
    next
      case False
      then have "impl_phase j = impl_phase i"
        using phase_failure [of c i w e this1 w1] wrong_phase [of i c w] c j Inl by fastforce
      then show ?thesis using ih rs Inl by (simp add: succeeded_def)
    qed
  qed
qed (simp add: succeeded_def)

lemma stream_reachable_inv: "stream_reachable exec this \<Longrightarrow> stream_inv this"
proof (induction rule: stream_reachable.induct)
  case (built key aad this)
  then show ?case by (rule stream_new_inv)
next
  case (called this req w r this' w')
  then show ?case using keeps_inv by blast
qed (simp_all add: stream_move_def stream_inv_def)


end

section \<open>Both objects keep the contract\<close>

text \<open>The outcomes of the building blocks, read backwards.\<close>

lemma with_impl_None: "with_impl n body (None, w) = (Inl (Error invalid_input n), (None, w))"
  by (simp add: with_impl_def)

lemma with_impl_Some:
  "with_impl n body (Some i, w) = (r, (this, w')) \<longleftrightarrow> (\<exists>j. this = Some j \<and> body (i, w) = (r, (j, w')))"
  by (auto simp: with_impl_def split: prod.splits)

lemma require_phase_Inr: "require_phase p m s = (Inr u, s') \<longleftrightarrow> impl_phase (fst s) = p \<and> s' = s"
  by (auto simp: require_phase_def act_simps split: prod.splits if_splits)

lemma require_phase_Inl:
  "require_phase p m s = (Inl e, s') \<longleftrightarrow> impl_phase (fst s) \<noteq> p \<and> e = Error invalid_input m \<and> s' = s"
  by (auto simp: require_phase_def act_simps split: prod.splits if_splits)

lemma on_context_Inr:
  "on_context m (i, w) = (Inr a, (j, w')) \<longleftrightarrow>
     (\<exists>c c'. impl_context i = Some c \<and> m c = (Inr a, c') \<and> j = i\<lparr>impl_context := Some c'\<rparr> \<and> w' = w)"
  by (auto simp: on_context_def split: option.splits prod.splits)

lemma on_context_Inl:
  "on_context m (i, w) = (Inl e, (j, w')) \<longleftrightarrow>
     (impl_context i = None \<and> e = aead_backend_failure \<and> j = i \<and> w' = w) \<or>
     (\<exists>c c'. impl_context i = Some c \<and> m c = (Inl e, c') \<and> j = i\<lparr>impl_context := Some c'\<rparr> \<and> w' = w)"
  by (auto simp: on_context_def split: option.splits prod.splits)

lemma on_snd_Inr: "on_snd m (s, t) = (Inr a, (s', t')) \<longleftrightarrow> s' = s \<and> m t = (Inr a, t')"
  by (auto simp: on_snd_def split: prod.splits)

lemma on_snd_Inl: "on_snd m (s, t) = (Inl e, (s', t')) \<longleftrightarrow> s' = s \<and> m t = (Inl e, t')"
  by (auto simp: on_snd_def split: prod.splits)

lemma set_phase_apply [simp]: "set_phase p (i, w) = (Inr (), (i\<lparr>impl_phase := p\<rparr>, w))"
  by (simp add: set_phase_def)

lemma set_context_apply [simp]: "set_context c (i, w) = (Inr (), (i\<lparr>impl_context := c\<rparr>, w))"
  by (simp add: set_context_def)

lemma finish_apply [simp]:
  "finish (i, w) = (Inr (), (i\<lparr>impl_context := None, impl_phase := finished\<rparr>, w))"
  by (simp add: finish_def act_simps)

lemmas stream_cases = with_impl_Some require_phase_Inr require_phase_Inl on_context_Inr on_context_Inl
  on_snd_Inr on_snd_Inl act_InrD act_InlD

definition encryptor_exec ::
  "('w, 'c, 'd) openssl \<Rightarrow> (unit, unit) stream_call \<Rightarrow> (error, ('c, 'w) stream_state, bytes) act" where
  "encryptor_exec ossl req =
     (case req of Begin _ \<Rightarrow> encryptor_begin ossl
      | Update plaintext \<Rightarrow> encryptor_update ossl plaintext
      | Finalize _ \<Rightarrow> encryptor_finalize ossl)"

text \<open>\<open>begin\<close> of the decryptor takes the packet's prefix, \<open>finalize\<close> its tag.\<close>

definition decryptor_exec ::
  "('w, 'c, 'd) openssl \<Rightarrow> (bytes, bytes) stream_call \<Rightarrow> (error, ('c, 'w) stream_state, bytes) act" where
  "decryptor_exec ossl req =
     (case req of Begin packet_prefix \<Rightarrow> thenM (decryptor_begin ossl packet_prefix) (ret [])
      | Update ciphertext \<Rightarrow> decryptor_update ossl ciphertext
      | Finalize tag \<Rightarrow> decryptor_finalize ossl tag)"

lemma encryptor_moved_from:
  "\<exists>e. encryptor_exec ossl req (None, w) = (Inl e, (None, w)) \<and> code e = invalid_input"
  by (cases req) (simp_all add: encryptor_exec_def encryptor_begin_def encryptor_update_def
      encryptor_finalize_def with_impl_None)

lemma decryptor_moved_from:
  "\<exists>e. decryptor_exec ossl req (None, w) = (Inl e, (None, w)) \<and> code e = invalid_input"
  by (cases req) (simp_all add: decryptor_exec_def decryptor_begin_def decryptor_update_def
      decryptor_finalize_def with_impl_None thenM_apply)

text \<open>What a guarded body does when the phase is not the one it requires.\<close>

lemma guard_wrong_phase:
  "impl_phase i \<noteq> p \<Longrightarrow>
     with_impl n (thenM (require_phase p m) body) (Some i, w) = (Inl (Error invalid_input m), (Some i, w))"
  by (simp add: with_impl_Some thenM_Inl require_phase_Inl)

lemma encryptor_wrong_phase:
  "impl_phase i \<noteq> required_phase req \<Longrightarrow>
     \<exists>e. encryptor_exec ossl req (Some i, w) = (Inl e, (Some i, w)) \<and> code e = invalid_input"
  by (cases req) (simp_all add: encryptor_exec_def encryptor_begin_def encryptor_update_def
      encryptor_finalize_def guard_wrong_phase)

lemma decryptor_wrong_phase:
  "impl_phase i \<noteq> required_phase req \<Longrightarrow>
     \<exists>e. decryptor_exec ossl req (Some i, w) = (Inl e, (Some i, w)) \<and> code e = invalid_input"
  by (cases req) (simp_all add: decryptor_exec_def decryptor_begin_def decryptor_update_def
      decryptor_finalize_def guard_wrong_phase thenM_apply)

lemma wp_with_impl [wp_simps]:
  "wp (with_impl n body) Q E (Some i, w) =
     wp body (\<lambda>a s. Q a (Some (fst s), snd s)) (\<lambda>e s. E e (Some (fst s), snd s)) (i, w)"
  by (auto simp: wp_def with_impl_def split: prod.splits sum.splits)

lemma wp_require_phase [wp_simps]:
  "wp (require_phase p m) Q E s =
     (if impl_phase (fst s) = p then Q () s else E (Error invalid_input m) s)"
  by (cases s) (simp add: require_phase_def wp_simps)

lemma wp_on_context [wp_simps]:
  "wp (on_context m) Q E (i, w) =
     ((impl_context i = None \<longrightarrow> E aead_backend_failure (i, w)) \<and>
      (\<forall>c. impl_context i = Some c \<longrightarrow>
         wp m (\<lambda>a c'. Q a (i\<lparr>impl_context := Some c'\<rparr>, w)) (\<lambda>e c'. E e (i\<lparr>impl_context := Some c'\<rparr>, w)) c))"
  by (auto simp: wp_def on_context_def split: option.splits prod.splits sum.splits)

lemma wp_set_phase [wp_simps]: "wp (set_phase p) Q E (i, w) = Q () (i\<lparr>impl_phase := p\<rparr>, w)"
  by (simp add: wp_def)

lemma wp_set_context [wp_simps]: "wp (set_context c) Q E (i, w) = Q () (i\<lparr>impl_context := c\<rparr>, w)"
  by (simp add: wp_def)

lemma wp_finish [wp_simps]:
  "wp finish Q E (i, w) = Q () (i\<lparr>impl_context := None, impl_phase := finished\<rparr>, w)"
  by (simp add: wp_def)

text \<open>The effect of each operation on the object, whatever the backend does.\<close>

definition stream_effect ::
  "('b, 'f) stream_call \<Rightarrow> 'c stream_impl \<Rightarrow> 'a result \<Rightarrow> 'c stream_impl option \<Rightarrow> bool" where
  "stream_effect req i r this \<longleftrightarrow>
     (\<exists>j. this = Some j \<and> impl_key j = impl_key i \<and> impl_aad j = impl_aad i \<and>
        (case r of
           Inr _ \<Rightarrow> impl_phase j = next_phase req \<and>
                    (if next_phase req = finished then impl_context j = None else impl_context j \<noteq> None)
         | Inl _ \<Rightarrow> j = i
             \<or> impl_phase j = impl_phase i \<and> impl_phase i = required_phase req \<and> impl_context j \<noteq> None
             \<or> (\<exists>x. req = Finalize x) \<and> impl_phase j = finished \<and> impl_context j = None))"

lemma stream_effectI:
  assumes "\<And>a. r = Inr a \<Longrightarrow> stream_effect req i (Inr a :: 'a result) this"
    and "\<And>e. r = Inl e \<Longrightarrow> stream_effect req i (Inl e :: 'a result) this"
  shows "stream_effect req i r this"
  using assms by (cases r) auto

lemma encryptor_begin_effect:
  "wp (encryptor_begin ossl) (\<lambda>a s. stream_effect (Begin x) i (Inr a) (fst s))
     (\<lambda>e s. stream_effect (Begin x) i (Inl e :: 'r result) (fst s)) (Some i, w)"
  by (simp add: encryptor_begin_def make_packet_prefix_def wp_simps Let_def)
    (auto simp: stream_effect_def intro!: wpI split: option.splits)

lemma encryptor_update_effect:
  "wp (encryptor_update ossl plaintext) (\<lambda>a s. stream_effect (Update x) i (Inr a) (fst s))
     (\<lambda>e s. stream_effect (Update x) i (Inl e :: 'r result) (fst s)) (Some i, w)"
  by (simp add: encryptor_update_def wp_simps Let_def)
    (auto simp: stream_effect_def intro!: wpI split: option.splits)

lemma encryptor_finalize_effect:
  "wp (encryptor_finalize ossl) (\<lambda>a s. stream_effect (Finalize x) i (Inr a) (fst s))
     (\<lambda>e s. stream_effect (Finalize x) i (Inl e :: 'r result) (fst s)) (Some i, w)"
  by (simp add: encryptor_finalize_def wp_simps Let_def)
    (auto simp: stream_effect_def intro!: wpI split: option.splits)

lemma decryptor_begin_effect:
  "wp (decryptor_begin ossl packet_prefix) (\<lambda>a s. stream_effect (Begin x) i (Inr a) (fst s))
     (\<lambda>e s. stream_effect (Begin x) i (Inl e :: 'r result) (fst s)) (Some i, w)"
  by (simp add: decryptor_begin_def require_valid_prefix_def wp_simps Let_def)
    (auto simp: stream_effect_def intro!: wpI split: option.splits)

lemma decryptor_update_effect:
  "wp (decryptor_update ossl ciphertext) (\<lambda>a s. stream_effect (Update x) i (Inr a) (fst s))
     (\<lambda>e s. stream_effect (Update x) i (Inl e :: 'r result) (fst s)) (Some i, w)"
  by (simp add: decryptor_update_def wp_simps Let_def)
    (auto simp: stream_effect_def intro!: wpI split: option.splits)

lemma decryptor_finalize_effect:
  "wp (decryptor_finalize ossl tag) (\<lambda>a s. stream_effect (Finalize x) i (Inr a) (fst s))
     (\<lambda>e s. stream_effect (Finalize x) i (Inl e :: 'r result) (fst s)) (Some i, w)"
  by (simp add: decryptor_finalize_def wp_simps Let_def)
    (auto simp: stream_effect_def intro!: wpI split: option.splits)

text \<open>The laws of the contract, for any object whose operations have these effects.\<close>

lemma effect_success:
  assumes "stream_effect req i (Inr a) this"
  shows "\<exists>j. this = Some j \<and> impl_phase j = next_phase req"
  using assms by (auto simp: stream_effect_def)

lemma effect_failure:
  assumes "stream_effect req i (Inl e) this"
  shows "\<exists>j. this = Some j \<and> (impl_phase j = impl_phase i \<or> (\<exists>x. req = Finalize x) \<and> impl_phase j = finished)"
  using assms by (auto simp: stream_effect_def)

lemma effect_inputs: "stream_effect req i r (Some j) \<Longrightarrow> impl_key j = impl_key i \<and> impl_aad j = impl_aad i"
  by (auto simp: stream_effect_def)

lemma effect_inv:
  assumes "stream_effect req i r this" and "stream_inv (Some i)"
  shows "stream_inv this"
proof -
  have "next_phase req \<noteq> ready" "required_phase req \<noteq> finished" by (cases req; simp)+
  then show ?thesis
    using assms by (cases r) (auto simp: stream_effect_def stream_inv_def split: if_splits)
qed

lemma effectD:
  assumes "wp m (\<lambda>a s. stream_effect req i (Inr a) (fst s)) (\<lambda>e s. stream_effect req i (Inl e :: 'r result) (fst s)) s"
    and "m s = (r :: 'r result, t)"
  shows "stream_effect req i r (fst t)"
  using assms by (cases r) (simp_all add: wp_def)

lemma encryptor_effect:
  assumes "encryptor_exec ossl req (Some i, w) = (r, (this, w'))"
  shows "stream_effect req i r this"
  using assms effectD [OF encryptor_begin_effect] effectD [OF encryptor_update_effect]
    effectD [OF encryptor_finalize_effect]
  by (cases req) (fastforce simp: encryptor_exec_def)+

lemma decryptor_begin_effect_ret:
  assumes "thenM (decryptor_begin ossl packet_prefix) (ret []) (Some i, w) = (r :: bytes result, (this, w'))"
  shows "stream_effect (Begin x) i r this"
proof -
  have "wp (thenM (decryptor_begin ossl packet_prefix) (ret []))
      (\<lambda>a s. stream_effect (Begin x) i (Inr a) (fst s))
      (\<lambda>e s. stream_effect (Begin x) i (Inl e :: bytes result) (fst s)) (Some i, w)"
    unfolding wp_thenM wp_ret
    by (rule wp_mono [OF decryptor_begin_effect [where x = x]]) (simp_all add: stream_effect_def)
  from effectD [OF this assms] show ?thesis by simp
qed

lemma decryptor_effect:
  assumes "decryptor_exec ossl req (Some i, w) = (r, (this, w'))"
  shows "stream_effect req i r this"
  using assms decryptor_begin_effect_ret effectD [OF decryptor_update_effect]
    effectD [OF decryptor_finalize_effect]
  by (cases req) (fastforce simp: decryptor_exec_def)+

interpretation encryptor: one_shot_stream "encryptor_exec ossl" for ossl
proof (unfold_locales, goal_cases)
  case (1 req w) show ?case by (rule encryptor_moved_from)
next
  case (2 i req w) then show ?case by (rule encryptor_wrong_phase)
next
  case (3 req i w out this w') then show ?case by (rule effect_success [OF encryptor_effect])
next
  case (4 req i w e this w') then show ?case by (intro effect_failure [OF encryptor_effect])
next
  case (5 req i w r j w') then show ?case by (intro effect_inputs [OF encryptor_effect])
next
  case (6 req this w r this' w')
  show ?case
  proof (cases this)
    case None
    then show ?thesis using 6 encryptor_moved_from [of ossl req w] by (auto simp: stream_inv_def)
  next
    case (Some i)
    show ?thesis using effect_inv [OF encryptor_effect [OF 6(1) [unfolded Some]]] 6(2) Some by simp
  qed
qed

interpretation decryptor: one_shot_stream "decryptor_exec ossl" for ossl
proof (unfold_locales, goal_cases)
  case (1 req w) show ?case by (rule decryptor_moved_from)
next
  case (2 i req w) then show ?case by (rule decryptor_wrong_phase)
next
  case (3 req i w out this w') then show ?case by (rule effect_success [OF decryptor_effect])
next
  case (4 req i w e this w') then show ?case by (intro effect_failure [OF decryptor_effect])
next
  case (5 req i w r j w') then show ?case by (intro effect_inputs [OF decryptor_effect])
next
  case (6 req this w r this' w')
  show ?case
  proof (cases this)
    case None
    then show ?thesis using 6 decryptor_moved_from [of ossl req w] by (auto simp: stream_inv_def)
  next
    case (Some i)
    show ?thesis using effect_inv [OF decryptor_effect [OF 6(1) [unfolded Some]]] 6(2) Some by simp
  qed
qed

section \<open>What the operations compute\<close>

text \<open>
  An active object whose context is at a given point of the GCM computation.
\<close>

definition running ::
  "('c \<Rightarrow> gcm_view) \<Rightarrow> gcm_dir \<Rightarrow> bytes \<Rightarrow> bytes \<Rightarrow> bytes \<Rightarrow> bytes \<Rightarrow> 'c stream_impl option \<Rightarrow> bool"
where
  "running view d k nonce aad ct this \<longleftrightarrow>
     (\<exists>i c. this = Some i \<and> impl_phase i = active \<and> impl_context i = Some c \<and>
        view c = Running d k nonce aad ct None)"

text \<open>A failure of the backend: never when all its calls report success.\<close>

definition gcm_fault :: "('w, 'c, 'd) openssl \<Rightarrow> ('c \<Rightarrow> gcm_view) \<Rightarrow> gcm_tag \<Rightarrow> error \<Rightarrow> bool" where
  "gcm_fault ossl view tg e \<longleftrightarrow> e = aead_backend_failure \<and> \<not> gcm_available ossl view tg"

definition size_fault :: "string \<Rightarrow> bytes \<Rightarrow> error \<Rightarrow> bool" where
  "size_fault name input e \<longleftrightarrow>
     length input > int_max \<and> e = Error invalid_input (name @ '' exceeds OpenSSL update limit'')"

lemma make_context_doc:
  assumes "gcm_documented ossl view ks tg"
  shows "wp (make_context ossl) (\<lambda>c w'. view c = Fresh) (\<lambda>e _. gcm_fault ossl view tg e) w"
  using gcm_documentedD(1) [OF assms] gcm_availableD(1) [of ossl view tg] gcm_available_calls(1) [of ossl view tg]
  by (simp add: make_context_def wp_simps gcm_fault_def) (metis option.distinct(1))

lemma initialize_encrypt_context_doc:
  assumes "gcm_documented ossl view ks tg" and "view c = Fresh" and "length k = 32" and "length nonce = 12"
  shows "wp (initialize_encrypt_context ossl k nonce)
    (\<lambda>initialized c'. if initialized then view c' = Running Encrypting k nonce [] [] None
       else \<not> gcm_available ossl view tg)
    (\<lambda>_ _. False) c"
proof -
  note doc = gcm_documentedD [OF assms(1)]
  note ok = gcm_available_calls [of ossl view tg]
  have effect: "view c3 = Running Encrypting k nonce [] [] None"
    if "EVP_EncryptInit_cipher ossl c = (1, c1)" "EVP_CTRL_GCM_SET_IVLEN ossl 12 c1 = (1, c2)"
      "EVP_EncryptInit_key ossl k nonce c2 = (1, c3)" for c1 c2 c3
    using that doc(2) doc(4) doc(5) assms(2-) by simp
  have success: "r1 = 1 \<and> r2 = 1 \<and> r3 = 1"
    if "EVP_EncryptInit_cipher ossl c = (r1, c1)" "EVP_CTRL_GCM_SET_IVLEN ossl 12 c1 = (r2, c2)"
      "EVP_EncryptInit_key ossl k nonce c2 = (r3, c3)" "gcm_available ossl view tg" for r1 r2 r3 c1 c2 c3
  proof -
    have 1: "r1 = 1" using ok(2) that assms(2) by blast
    then have v1: "view c1 = Selected Encrypting 12" using doc(2) that assms(2) by blast
    have 2: "r2 = 1" using ok(4) [OF that(4,2) v1] by simp
    then have "view c2 = Selected Encrypting 12" using doc(4) that v1 by blast
    then have "r3 = 1" using ok(5) [OF that(4,3)] assms by simp
    with 1 2 show ?thesis by simp
  qed
  show ?thesis
    by (simp add: initialize_encrypt_context_def wp_simps) (use effect success in blast)
qed

lemma initialize_decrypt_context_doc:
  assumes "gcm_documented ossl view ks tg" and "view c = Fresh" and "length k = 32" and "length nonce = 12"
  shows "wp (initialize_decrypt_context ossl k nonce)
    (\<lambda>initialized c'. if initialized then view c' = Running Decrypting k nonce [] [] None
       else \<not> gcm_available ossl view tg)
    (\<lambda>_ _. False) c"
proof -
  note doc = gcm_documentedD [OF assms(1)]
  note ok = gcm_available_calls [of ossl view tg]
  have effect: "view c3 = Running Decrypting k nonce [] [] None"
    if "EVP_DecryptInit_cipher ossl c = (1, c1)" "EVP_CTRL_GCM_SET_IVLEN ossl 12 c1 = (1, c2)"
      "EVP_DecryptInit_key ossl k nonce c2 = (1, c3)" for c1 c2 c3
    using that doc(3) doc(4) doc(6) assms(2-) by simp
  have success: "r1 = 1 \<and> r2 = 1 \<and> r3 = 1"
    if "EVP_DecryptInit_cipher ossl c = (r1, c1)" "EVP_CTRL_GCM_SET_IVLEN ossl 12 c1 = (r2, c2)"
      "EVP_DecryptInit_key ossl k nonce c2 = (r3, c3)" "gcm_available ossl view tg" for r1 r2 r3 c1 c2 c3
  proof -
    have 1: "r1 = 1" using ok(3) that assms(2) by blast
    then have v1: "view c1 = Selected Decrypting 12" using doc(3) that assms(2) by blast
    have 2: "r2 = 1" using ok(4) [OF that(4,2) v1] by simp
    then have "view c2 = Selected Decrypting 12" using doc(4) that v1 by blast
    then have "r3 = 1" using ok(6) [OF that(4,3)] assms by simp
    with 1 2 show ?thesis by simp
  qed
  show ?thesis
    by (simp add: initialize_decrypt_context_def wp_simps) (use effect success in blast)
qed

lemma update_aad_doc:
  assumes "gcm_documented ossl view ks tg" and "view c = Running d k iv aad [] t"
  shows "wp (update_aad ossl a name)
    (\<lambda>_ c'. view c' = Running d k iv (aad @ a) [] t)
    (\<lambda>e _. gcm_fault ossl view tg e \<or> size_fault name a e) c"
  using assms(2-) gcm_documentedD(7) [OF assms(1)] gcm_available_calls(7) [of ossl view tg] 
  by (simp add: update_aad_def update_size_def check_update_size_def wp_simps Let_def) (auto simp: gcm_fault_def size_fault_def)

lemma encrypt_update_doc:
  assumes "gcm_documented ossl view ks tg" and "view c = Running Encrypting k iv aad ct t"
  shows "wp (encrypt_update ossl p)
    (\<lambda>out c'. length p \<le> int_max \<and> out = crypt (ks k iv) (length ct) p \<and> view c' = Running Encrypting k iv aad (ct @ out) t)
    (\<lambda>e _. gcm_fault ossl view tg e \<or> size_fault ''plaintext'' p e) c"
  using assms(2)
  by (simp add: encrypt_update_def update_size_def check_update_size_def wp_simps Let_def)
    (auto simp: gcm_fault_def size_fault_def
      dest: gcm_documentedD(8) [OF assms(1)] gcm_available_calls(8) [of ossl view tg])

lemma decrypt_update_doc:
  assumes "gcm_documented ossl view ks tg" and "view c = Running Decrypting k iv aad ct t"
  shows "wp (decrypt_update ossl p)
    (\<lambda>out c'. length p \<le> int_max \<and> out = crypt (ks k iv) (length ct) p \<and> view c' = Running Decrypting k iv aad (ct @ p) t)
    (\<lambda>e _. gcm_fault ossl view tg e \<or> size_fault ''ciphertext'' p e) c"
  using assms(2)
  by (simp add: decrypt_update_def update_size_def check_update_size_def wp_simps Let_def)
    (auto simp: gcm_fault_def size_fault_def
      dest: gcm_documentedD(9) [OF assms(1)] gcm_available_calls(11) [of ossl view tg])

text \<open>The same for the operations of an object; update and finalize leave the library state alone.\<close>

lemma wp_conseq:
  assumes "wp m Q' E' s" and "\<And>a t. m s = (Inr a, t) \<Longrightarrow> Q' a t \<Longrightarrow> Q a t"
    and "\<And>e t. m s = (Inl e, t) \<Longrightarrow> E' e t \<Longrightarrow> E e t"
  shows "wp m Q E s"
  using assms by (auto simp: wp_iff)

lemma encryptor_begin_doc:
  assumes "gcm_documented ossl view ks tg" and "impl_phase i = ready" and "is_key256 (impl_key i)"
    and "length (impl_aad i) \<le> int_max"
  shows "wp (encryptor_begin ossl)
    (\<lambda>p s. \<exists>nonce. length nonce = kNonceSize \<and> p = make_header @ nonce \<and>
       running view Encrypting (impl_key i) nonce (make_header @ impl_aad i) [] (fst s))
    (\<lambda>e s. e = aead_backend_failure \<and> \<not> (gcm_available ossl view tg \<and> rand_available ossl)) (Some i, w)"
proof -
  have rand: "r = 1" if "RAND_bytes ossl n w = ((r, bs), w')" "rand_available ossl" for n r bs w'
    using that by (metis fst_conv rand_available_def)
  have head: "\<not> size_fault n make_header e" "\<not> size_fault n (impl_aad i) e" for n e
    using assms(4) by (auto simp: size_fault_def make_header_def kMagic_def int_max_def)
  have key: "length (impl_key i) = 32" using assms(3) by (simp add: is_key256_def)
  show ?thesis
    using assms(2)
    apply (simp add: encryptor_begin_def make_packet_prefix_def wp_simps Let_def)
    apply (intro allI conjI impI)
    using rand apply blast
    apply (rule wp_conseq [OF make_context_doc [OF assms(1)]])
    apply (rule wp_conseq [OF initialize_encrypt_context_doc [OF assms(1) _ key]])
    apply assumption
    apply simp
    apply (intro conjI impI)
    apply simp
    apply (rule wp_conseq [OF update_aad_doc [OF assms(1)]])
    apply simp
    apply (rule wp_conseq [OF update_aad_doc [OF assms(1)]])
    apply simp
    apply (auto simp: running_def gcm_fault_def head)
    done
qed

lemma encryptor_update_doc:
  assumes "gcm_documented ossl view ks tg" and "running view Encrypting k nonce aad ct this"
  shows "wp (encryptor_update ossl p)
    (\<lambda>out s. length p \<le> int_max \<and> out = crypt (ks k nonce) (length ct) p \<and> snd s = w \<and>
       running view Encrypting k nonce aad (ct @ out) (fst s))
    (\<lambda>e s. gcm_fault ossl view tg e \<or> size_fault ''plaintext'' p e) (this, w)"
proof -
  obtain i c where i: "this = Some i" "impl_phase i = active" "impl_context i = Some c"
    "view c = Running Encrypting k nonce aad ct None"
    using assms(2) by (auto simp: running_def)
  show ?thesis
    unfolding i(1) using i(2, 3)
    by (simp add: encryptor_update_def wp_simps)
      (rule wp_conseq [OF encrypt_update_doc [OF assms(1) i(4)]], auto simp: running_def)
qed

lemma decryptor_update_doc:
  assumes "gcm_documented ossl view ks tg" and "running view Decrypting k nonce aad ct this"
  shows "wp (decryptor_update ossl p)
    (\<lambda>out s. length p \<le> int_max \<and> out = crypt (ks k nonce) (length ct) p \<and> snd s = w \<and>
       running view Decrypting k nonce aad (ct @ p) (fst s))
    (\<lambda>e s. gcm_fault ossl view tg e \<or> size_fault ''ciphertext'' p e) (this, w)"
proof -
  obtain i c where i: "this = Some i" "impl_phase i = active" "impl_context i = Some c"
    "view c = Running Decrypting k nonce aad ct None"
    using assms(2) by (auto simp: running_def)
  show ?thesis
    unfolding i(1) using i(2, 3)
    by (simp add: decryptor_update_def wp_simps)
      (rule wp_conseq [OF decrypt_update_doc [OF assms(1) i(4)]], auto simp: running_def)
qed

lemma encryptor_finalize_doc:
  assumes "gcm_documented ossl view ks tg" and "running view Encrypting k nonce aad ct this"
  shows "wp (encryptor_finalize ossl)
    (\<lambda>tag s. tag = tg k nonce aad ct \<and> snd s = w)
    (\<lambda>e s. gcm_fault ossl view tg e) (this, w)"
proof -
  obtain i c where i: "this = Some i" "impl_phase i = active" "impl_context i = Some c"
    and c: "view c = Running Encrypting k nonce aad ct None"
    using assms(2) by (auto simp: running_def)
  note doc = gcm_documentedD [OF assms(1)]
  note ok = gcm_available_calls [of ossl view tg]
  have final: "out = [] \<and> n = 0 \<and> view c1 = view c" "r = 1"
    if "EVP_EncryptFinal_ex ossl c = ((r, out, n), c1)" "r = 1 \<or> gcm_available ossl view tg" for r out n c1
    using that doc(10) [of c out n c1] ok(9) c by blast+
  have tag: "tag = tg k nonce aad ct \<and> r = 1"
    if "EVP_EncryptFinal_ex ossl c = ((1, fin, n), c1)" "EVP_CTRL_GCM_GET_TAG ossl 16 c1 = ((r, tag), c2)"
      "r = 1 \<or> gcm_available ossl view tg" for fin n r tag c1 c2
  proof -
    have "r = 1" using that(3) ok(10) [OF _ that(1, 2) c] by blast
    then show ?thesis using doc(11) [OF that(1) _ c] that(2) by simp
  qed
  show ?thesis
    unfolding i(1) using i(2, 3)
    by (simp add: encryptor_finalize_def wp_simps gcm_fault_def) (auto dest: final tag simp: doc(14))
qed

lemma decryptor_begin_doc:
  assumes "gcm_documented ossl view ks tg" and "impl_phase i = ready" and "is_key256 (impl_key i)"
    and "length (impl_aad i) \<le> int_max" and "length nonce = kNonceSize"
  shows "wp (decryptor_begin ossl (make_header @ nonce))
    (\<lambda>_ s. running view Decrypting (impl_key i) nonce (make_header @ impl_aad i) [] (fst s))
    (\<lambda>e s. gcm_fault ossl view tg e) (Some i, w)"
proof -
  have head: "\<not> size_fault n make_header e" "\<not> size_fault n (impl_aad i) e" for n e
    using assms(4) by (auto simp: size_fault_def make_header_def kMagic_def int_max_def)
  have key: "length (impl_key i) = 32" using assms(3) by (simp add: is_key256_def)
  have parts: "take 5 (make_header @ nonce) = make_header" "take 4 (make_header @ nonce) = kMagic"
    "(make_header @ nonce) ! 4 = kVersion" "length (make_header @ nonce) = 17"
    "drop 5 (make_header @ nonce) = nonce" "length make_header = 5"
    using assms(5) by (simp_all add: make_header_def kMagic_def)
  show ?thesis
    using assms(2, 5)
    apply (simp add: decryptor_begin_def require_valid_prefix_def wp_simps Let_def parts del: append_assoc take_append drop_append)
    apply (rule wp_conseq [OF make_context_doc [OF assms(1)]])
    apply (rule wp_conseq [OF initialize_decrypt_context_doc [OF assms(1) _ key]])
    apply assumption
    apply simp
    apply (intro conjI impI)
    apply (simp add: gcm_fault_def)
    apply (rule wp_conseq [OF update_aad_doc [OF assms(1)]])
    apply simp
    apply (rule wp_conseq [OF update_aad_doc [OF assms(1)]])
    apply simp
    apply (auto simp: running_def head)
    done
qed

lemma decryptor_begin_malformed:
  assumes "impl_phase i = ready"
    and "\<not> (length packet_prefix = kPrefixSize \<and> take kHeaderSize packet_prefix = make_header)"
  shows "wp (decryptor_begin ossl packet_prefix) (\<lambda>_ _. False)
    (\<lambda>e s. e = aead_invalid_packet \<and> s = (Some i, w)) (Some i, w)"
proof -
  have "take 4 packet_prefix \<noteq> kMagic \<or> packet_prefix ! 4 \<noteq> kVersion" if "length packet_prefix = 17"
  proof -
    have "take 5 packet_prefix = take 4 packet_prefix @ [packet_prefix ! 4]"
      using that take_Suc_conv_app_nth [of 4 packet_prefix] by simp
    then show ?thesis using assms(2) that by (auto simp: make_header_def)
  qed
  then show ?thesis using assms(1)
    by (auto simp: decryptor_begin_def require_valid_prefix_def wp_simps)
qed

lemma decryptor_finalize_doc:
  assumes "gcm_documented ossl view ks tg" and "running view Decrypting k nonce aad ct this"
  shows "wp (decryptor_finalize ossl tag)
    (\<lambda>out s. tag = tg k nonce aad ct \<and> out = [] \<and> snd s = w)
    (\<lambda>e s. gcm_fault ossl view tg e \<or>
       e = aead_invalid_packet \<and> length tag \<noteq> kTagSize \<or>
       e = aead_authentication_failed \<and> length tag = kTagSize \<and>
         (gcm_available ossl view tg \<longrightarrow> tag \<noteq> tg k nonce aad ct)) (this, w)"
proof -
  obtain i c where i: "this = Some i" "impl_phase i = active" "impl_context i = Some c"
    and c: "view c = Running Decrypting k nonce aad ct None"
    using assms(2) by (auto simp: running_def)
  note doc = gcm_documentedD [OF assms(1)]
  note ok = gcm_available_calls [of ossl view tg]
  obtain r1 c1 where set: "EVP_CTRL_GCM_SET_TAG ossl tag c = (r1, c1)" by fastforce
  obtain r2 out n c2 where final: "EVP_DecryptFinal_ex ossl c1 = ((r2, out, n), c2)"
    by (metis prod.collapse)
  have 1: "r1 = 1" if "length tag = 16" "gcm_available ossl view tg"
    using ok(12) [OF that(2) set c that(1)] .
  have 2: "view c1 = Running Decrypting k nonce aad ct (Some tag)" if "r1 = 1"
    using doc(12) [OF _ c] set that by blast
  have 3: "tag = tg k nonce aad ct \<and> out = [] \<and> n = 0" if "r1 = 1" "r2 = 1"
    using doc(13) [OF _ 2 [OF that(1)]] final that by blast
  then have range: "\<not> n < 0" "\<not> 1 < n" "n \<le> 0" if "r1 = 1" "r2 = 1"
    using that by simp_all
  have 4: "r2 = 1" if "r1 = 1" "gcm_available ossl view tg" "tag = tg k nonce aad ct"
    using ok(13) [OF that(2) final] 2 [OF that(1)] that(3) by simp
  show ?thesis
    unfolding i(1) using i(2, 3)
    by (simp add: decryptor_finalize_def wp_simps gcm_fault_def Let_def set final) (use 1 3 4 range in blast)
qed

section \<open>Properties\<close>

text \<open>
  C19: One-shot use. Whatever calls a client makes on a new encryptor or decryptor, in
  whatever order and whatever the backend answers, the calls that succeed form a prefix of
  begin, update*, finalize; a call the phase does not allow is refused. A constructor that
  throws does so for an AAD above the OpenSSL limit only.
\<close>

theorem stream_calls_one_shot:
  fixes ossl :: "('w, 'c, 'd) openssl"
  shows "case stream_new key aad of
     Inl e \<Rightarrow> int_max < length aad \<and> code e = invalid_input
   | Inr this \<Rightarrow>
       one_shot ready (succeeded (fst (stream_run (encryptor_exec ossl) calls (this, w)))) \<and>
       one_shot ready (succeeded (fst (stream_run (decryptor_exec ossl) dcalls (this, w))))"
proof (cases "stream_new key aad :: 'c stream_impl option result")
  case (Inr this)
  then obtain i where "this = Some i" "impl_phase i = ready"
    by (auto simp: stream_new_def split: if_splits)
  then show ?thesis
    using encryptor.stream_run_one_shot [where ossl = ossl and cs = calls and i = i and w = w] decryptor.stream_run_one_shot [where ossl = ossl and cs = dcalls and i = i and w = w] Inr
    by (cases "stream_run (encryptor_exec ossl) calls (this, w)";
        cases "stream_run (decryptor_exec ossl) dcalls (this, w)") simp
qed (auto simp: stream_new_def split: if_splits)

text \<open>
  C20: Object invariant. In every state an encryptor or decryptor can reach, by calls
  that return or throw and by moves, it holds a cipher context while it is active and none
  once it is finished.
\<close>

theorem stream_objects_invariant:
  "(stream_reachable (encryptor_exec ossl) this \<longrightarrow> stream_inv this) \<and>
   (stream_reachable (decryptor_exec ossl) that \<longrightarrow> stream_inv that)"
  using encryptor.stream_reachable_inv decryptor.stream_reachable_inv by blast

theorem stream_objects_invariant_witness:
  "\<exists>this. stream_reachable (encryptor_exec sample_ossl) (Some this) \<and> impl_phase this = active \<and> stream_inv (Some this)"
proof -
  let ?i = "\<lparr>impl_key = replicate 32 7, impl_aad = [1], impl_context = None, impl_phase = ready\<rparr>"
  have "stream_new (replicate 32 7) [1] = Inr (Some ?i)" by (simp add: stream_new_def int_max_def)
  then have new: "stream_reachable (encryptor_exec sample_ossl) (Some ?i)" by (rule built)
  obtain p this w' where started: "encryptor_exec sample_ossl (Begin ()) (Some ?i, 0) = (p, (this, w'))"
    by (metis prod.collapse)
  have "wp (encryptor_begin sample_ossl) (\<lambda>p s. \<exists>j. fst s = Some j \<and> impl_phase j = active) (\<lambda>_ _. False) (Some ?i, 0)"
    using encryptor_begin_doc [OF sample_documented, of ?i 0] sample_available sample_rand_available
    by (auto simp: wp_iff running_def is_key256_def int_max_def)
  then obtain j where "this = Some j" "impl_phase j = active"
    using started by (cases p) (auto simp: wp_def encryptor_exec_def)
  then show ?thesis
    using called [OF new started] stream_objects_invariant [where ossl = sample_ossl and this = this and that = None] by blast
qed

text \<open>
  Finished objects. Once an object is finished or has been moved from, every later
  call is refused as \<^verbatim>\<open>invalid_input\<close> and leaves object and library state as they were.
\<close>

theorem stream_no_reuse:
  "(impl_phase i = finished \<longrightarrow>
      (case stream_run (encryptor_exec ossl) calls (Some i, w) of
         (rs, s) \<Rightarrow> s = (Some i, w) \<and> (\<forall>(c, r) \<in> set rs. \<exists>e. r = Inl e \<and> code e = invalid_input))) \<and>
   (impl_phase j = finished \<longrightarrow>
      (case stream_run (decryptor_exec ossl) dcalls (Some j, w) of
         (rs, s) \<Rightarrow> s = (Some j, w) \<and> (\<forall>(c, r) \<in> set rs. \<exists>e. r = Inl e \<and> code e = invalid_input)))"
  using encryptor.stream_run_finished [where ossl = ossl and cs = calls and i = i and w = w] decryptor.stream_run_finished [where ossl = ossl and cs = dcalls and i = j and w = w]
  by (auto split: prod.splits)

theorem stream_no_reuse_witness:
  "case stream_run (encryptor_exec sample_ossl) [Begin (), Update [1], Finalize ()]
     (Some \<lparr>impl_key = [], impl_aad = [], impl_context = None, impl_phase = finished\<rparr>, 0) of
   (rs, s) \<Rightarrow> \<forall>(c, r) \<in> set rs. \<exists>e. r = Inl e \<and> code e = invalid_input"
  using stream_no_reuse [where ossl = sample_ossl and w = 0 and calls = "[Begin (), Update [1], Finalize ()]"
    and i = "\<lparr>impl_key = [], impl_aad = [], impl_context = None, impl_phase = finished\<rparr>"]
  by (auto split: prod.splits)

end
