(* ===== verification/Aead.thy ===== *)
theory Aead
  imports Packet_Stream
begin

text \<open>
  \<^verbatim>\<open>src/aead.cpp\<close> and \<^verbatim>\<open>src/key_wrap.cpp\<close>: whole-packet encryption and
  decryption on top of the streaming objects, and key wrapping on top of it. The wiping
  of plaintext buffers is in the theory Wiping.
\<close>

section \<open>The code\<close>

text \<open>A local object: its constructor may throw; it is gone when the function returns or throws.\<close>

definition with_object ::
  "'c stream_impl option result \<Rightarrow> (error, ('c, 'w) stream_state, 'a) act \<Rightarrow> (error, 'w, 'a) act" where
  "with_object constructed body =
     (\<lambda>w. case constructed of
        Inl e \<Rightarrow> (Inl e, w)
      | Inr this \<Rightarrow> (case body (this, w) of (r, (_, w')) \<Rightarrow> (r, w')))"

definition encrypt :: "('w, 'c, 'd) openssl \<Rightarrow> bytes \<Rightarrow> key256 \<Rightarrow> bytes \<Rightarrow> (error, 'w, bytes) act" where
  "encrypt ossl plaintext key aad =
     with_object (stream_new key aad)
       (bindM (encryptor_begin ossl) (\<lambda>packet.
        bindM (encryptor_update ossl plaintext) (\<lambda>ciphertext.
        bindM (encryptor_finalize ossl) (\<lambda>tag.
        ret (packet @ ciphertext @ tag)))))"

definition decrypt :: "('w, 'c, 'd) openssl \<Rightarrow> bytes \<Rightarrow> key256 \<Rightarrow> bytes \<Rightarrow> (error, 'w, bytes) act" where
  "decrypt ossl packet key aad =
     thenM (require_valid_packet packet)
    (let packet_prefix = take kPrefixSize packet;
         ciphertext = take (length packet - kOverhead) (drop kPrefixSize packet);
         tag = drop (length packet - kTagSize) packet in
     with_object (stream_new key aad)
       (thenM (decryptor_begin ossl packet_prefix)
       (bindM (decryptor_update ossl ciphertext) (\<lambda>plaintext.
        bindM (decryptor_finalize ossl tag) (\<lambda>trailing.
        ret (plaintext @ trailing))))))"

definition wrap_key :: "('w, 'c, 'd) openssl \<Rightarrow> key256 \<Rightarrow> key256 \<Rightarrow> bytes \<Rightarrow> (error, 'w, bytes) act" where
  "wrap_key ossl key_to_wrap wrapping_key aad = encrypt ossl key_to_wrap wrapping_key aad"

definition unwrap_key :: "('w, 'c, 'd) openssl \<Rightarrow> bytes \<Rightarrow> key256 \<Rightarrow> bytes \<Rightarrow> (error, 'w, key256) act" where
  "unwrap_key ossl packet wrapping_key aad =
     bindM (decrypt ossl packet wrapping_key aad) (\<lambda>key_bytes.
     thenM (throw_if (length key_bytes \<noteq> 32) (Error invalid_packet ''Invalid wrapped key packet''))
           (ret key_bytes))"

section \<open>Specification\<close>

definition sealed_packet :: "key_stream \<Rightarrow> gcm_tag \<Rightarrow> key256 \<Rightarrow> bytes \<Rightarrow> bytes \<Rightarrow> bytes \<Rightarrow> bytes" where
  "sealed_packet ks tg key nonce aad plaintext =
     (let ciphertext = crypt (ks key nonce) 0 plaintext
      in make_header @ nonce @ ciphertext @ tg key nonce (make_header @ aad) ciphertext)"

text \<open>A packet taken apart: nonce, ciphertext and tag of a packet that has the format.\<close>

definition packet_parts :: "bytes \<Rightarrow> (bytes \<times> bytes \<times> bytes) option" where
  "packet_parts packet =
     (if kOverhead \<le> length packet \<and> take kHeaderSize packet = make_header
      then Some (take kNonceSize (drop kHeaderSize packet),
                 take (length packet - kOverhead) (drop kPrefixSize packet),
                 drop (length packet - kTagSize) packet)
      else None)"

definition decrypt_spec :: "key_stream \<Rightarrow> gcm_tag \<Rightarrow> bytes \<Rightarrow> key256 \<Rightarrow> bytes \<Rightarrow> bytes result" where
  "decrypt_spec ks tg packet key aad =
     (case packet_parts packet of
        None \<Rightarrow> Inl aead_invalid_packet
      | Some (nonce, ciphertext, tag) \<Rightarrow>
          if int_max < length aad
          then Inl (Error invalid_input ''AAD exceeds OpenSSL update limit'')
          else if int_max < length ciphertext
          then Inl (Error invalid_input ''ciphertext exceeds OpenSSL update limit'')
          else if tag \<noteq> tg key nonce (make_header @ aad) ciphertext
          then Inl aead_authentication_failed
          else Inr (crypt (ks key nonce) 0 ciphertext))"

text \<open>
  The documented use of the streaming objects: \<^verbatim>\<open>begin\<close>, one
  \<^verbatim>\<open>update\<close> per chunk, \<^verbatim>\<open>finalize\<close>, with the outputs in order.
\<close>

fun updates :: "(bytes \<Rightarrow> (error, 's, bytes) act) \<Rightarrow> bytes list \<Rightarrow> (error, 's, bytes) act" where
  "updates update [] = ret []"
| "updates update (chunk # chunks) =
     bindM (update chunk) (\<lambda>out. bindM (updates update chunks) (\<lambda>outs. ret (out @ outs)))"

definition encrypt_chunked ::
  "('w, 'c, 'd) openssl \<Rightarrow> bytes list \<Rightarrow> key256 \<Rightarrow> bytes \<Rightarrow> (error, 'w, bytes) act" where
  "encrypt_chunked ossl chunks key aad =
     with_object (stream_new key aad)
       (bindM (encryptor_begin ossl) (\<lambda>packet.
        bindM (updates (encryptor_update ossl) chunks) (\<lambda>ciphertext.
        bindM (encryptor_finalize ossl) (\<lambda>tag.
        ret (packet @ ciphertext @ tag)))))"

definition decrypt_chunked ::
  "('w, 'c, 'd) openssl \<Rightarrow> bytes \<Rightarrow> bytes list \<Rightarrow> bytes \<Rightarrow> key256 \<Rightarrow> bytes \<Rightarrow> (error, 'w, bytes) act" where
  "decrypt_chunked ossl packet_prefix chunks tag key aad =
     with_object (stream_new key aad)
       (thenM (decryptor_begin ossl packet_prefix)
       (bindM (updates (decryptor_update ossl) chunks) (\<lambda>plaintext.
        bindM (decryptor_finalize ossl tag) (\<lambda>trailing.
        ret (plaintext @ trailing)))))"

section \<open>Lemmas\<close>

lemma wp_with_object [wp_simps]:
  "wp (with_object r m) Q E w \<longleftrightarrow>
     (\<forall>e. r = Inl e \<longrightarrow> E e w) \<and>
     (\<forall>this. r = Inr this \<longrightarrow> wp m (\<lambda>a s. Q a (snd s)) (\<lambda>e s. E e (snd s)) (this, w))"
  by (auto simp: wp_def with_object_def split: sum.splits prod.splits)

lemma length_make_header [simp]: "length make_header = 5"
  by (simp add: make_header_def kMagic_def)

lemma packet_parts_join:
  "packet_parts packet = Some (nonce, ciphertext, tag) \<longleftrightarrow>
     packet = make_header @ nonce @ ciphertext @ tag \<and> length nonce = kNonceSize \<and> length tag = kTagSize"
  (is "?l \<longleftrightarrow> ?r")
proof
  assume l: ?l
  let ?n = "length packet"
  have n: "33 \<le> ?n" and parts: "take 5 packet = make_header" "take 12 (drop 5 packet) = nonce"
    "take (?n - 33) (drop 17 packet) = ciphertext" "drop (?n - 16) packet = tag"
    using l by (simp_all add: packet_parts_def split: if_splits)
  have "?n - 33 + 17 = ?n - 16" using n by simp
  then have "drop (?n - 33) (drop 17 packet) = tag" "drop 12 (drop 5 packet) = drop 17 packet"
    using parts(4) by simp_all
  then have "packet = make_header @ nonce @ ciphertext @ tag"
    using parts by (metis append_take_drop_id)
  moreover have "length nonce = 12" "length tag = 16"
    unfolding parts [symmetric] using n by simp_all
  ultimately show ?r by simp
qed (auto simp: packet_parts_def)

lemma require_valid_packet_iff:
  "require_valid_packet packet w = (if packet_parts packet = None then (Inl aead_invalid_packet, w) else (Inr (), w))"
proof -
  have "take 5 packet = make_header \<longleftrightarrow> take 4 packet = kMagic \<and> packet ! 4 = kVersion" if "17 \<le> length packet"
  proof -
    have "take 5 packet = take 4 packet @ [packet ! 4]"
      using that take_Suc_conv_app_nth [of 4 packet] by simp
    then show ?thesis by (simp add: make_header_def)
  qed
  then show ?thesis
    by (auto simp: packet_parts_def require_valid_packet_def require_valid_prefix_def act_simps min_def)
qed

lemma decrypt_malformed:
  "packet_parts packet = None \<Longrightarrow> decrypt ossl packet key aad w = (Inl aead_invalid_packet, w)"
  by (simp add: decrypt_def thenM_apply require_valid_packet_iff)

lemma decrypt_parts:
  assumes "packet_parts packet = Some (nonce, ciphertext, tag)"
  shows "decrypt ossl packet key aad w =
    with_object (stream_new key aad)
       (thenM (decryptor_begin ossl (make_header @ nonce))
       (bindM (decryptor_update ossl ciphertext) (\<lambda>plaintext.
        bindM (decryptor_finalize ossl tag) (\<lambda>trailing.
        ret (plaintext @ trailing))))) w"
proof -
  have "packet = make_header @ nonce @ ciphertext @ tag" "length nonce = 12" "length tag = 16"
    using assms by (simp_all add: packet_parts_join)
  then show ?thesis
    using assms by (simp add: decrypt_def thenM_apply require_valid_packet_iff)
qed

lemma stream_new_Inr:
  "stream_new k aad = Inr this \<longleftrightarrow> length aad \<le> int_max \<and>
     this = Some \<lparr>impl_key = k, impl_aad = aad, impl_context = None, impl_phase = ready\<rparr>"
  by (auto simp: stream_new_def)

lemma stream_new_Inl:
  "stream_new k aad = Inl e \<longleftrightarrow> size_fault ''AAD'' aad e"
  by (auto simp: stream_new_def size_fault_def)

text \<open>Encryption, given a backend that does what it documents.\<close>

lemma encrypt_doc:
  assumes "gcm_documented ossl view ks tg" and "is_key256 key"
  shows "wp (encrypt ossl plaintext key aad)
    (\<lambda>packet _. length aad \<le> int_max \<and> length plaintext \<le> int_max \<and> (\<exists>nonce. length nonce = kNonceSize \<and> packet = sealed_packet ks tg key nonce aad plaintext))
    (\<lambda>e _. size_fault ''AAD'' aad e \<or> size_fault ''plaintext'' plaintext e \<or>
       e = aead_backend_failure \<and> \<not> (gcm_available ossl view tg \<and> rand_available ossl)) w"
  apply (simp add: encrypt_def wp_simps stream_new_Inr stream_new_Inl)
  apply (intro impI)
  apply (rule wp_conseq [OF encryptor_begin_doc [OF assms(1)]])
  apply (simp_all add: assms(2))
  apply (clarsimp simp: wp_simps)
  apply (rule wp_conseq [OF encryptor_update_doc [OF assms(1)]])
  apply assumption
  apply (clarsimp simp: wp_simps)
  apply (rule wp_conseq [OF encryptor_finalize_doc [OF assms(1)]])
  apply assumption
  apply (auto simp: sealed_packet_def gcm_fault_def wp_simps Let_def)
  done

lemma decrypt_doc:
  assumes "gcm_documented ossl view ks tg" and "is_key256 key"
    and "packet_parts packet = Some (nonce, ciphertext, tag)"
  shows "wp (decrypt ossl packet key aad)
    (\<lambda>plaintext _. decrypt_spec ks tg packet key aad = Inr plaintext)
    (\<lambda>e _. e = aead_backend_failure \<and> \<not> gcm_available ossl view tg \<or>
       e = aead_authentication_failed \<and> \<not> gcm_available ossl view tg \<or>
       decrypt_spec ks tg packet key aad = Inl e) w"
proof -
  have packet: "packet = make_header @ nonce @ ciphertext @ tag" "length nonce = 12" "length tag = 16"
    using assms(3) by (simp_all add: packet_parts_join)
  have eq: "wp (decrypt ossl packet key aad) Q E w = wp (with_object (stream_new key aad)
       (thenM (decryptor_begin ossl (make_header @ nonce))
       (bindM (decryptor_update ossl ciphertext) (\<lambda>plaintext.
        bindM (decryptor_finalize ossl tag) (\<lambda>trailing.
        ret (plaintext @ trailing)))))) Q E w" for Q :: "bytes \<Rightarrow> 'a \<Rightarrow> bool" and E
    using decrypt_parts [OF assms(3), of ossl key aad w] by (simp add: wp_def)
  show ?thesis
    unfolding eq using packet(2, 3)
    apply (simp add: wp_simps stream_new_Inr stream_new_Inl)
    apply (intro conjI impI allI)
    apply (simp add: decrypt_spec_def assms(3) size_fault_def)
    apply (rule wp_conseq [OF decryptor_begin_doc [OF assms(1)]])
    apply (simp_all add: assms(2))
    apply (clarsimp simp: wp_simps)
    apply (rule wp_conseq [OF decryptor_update_doc [OF assms(1)]])
    apply assumption
    apply (clarsimp simp: wp_simps)
    apply (rule wp_conseq [OF decryptor_finalize_doc [OF assms(1)]])
    apply assumption
    apply (auto simp: decrypt_spec_def assms(3) gcm_fault_def size_fault_def wp_simps)
    done
qed

text \<open>Chunks and the whole message give the same bytes.\<close>

lemma updates_running:
  fixes grow :: "nat \<Rightarrow> bytes \<Rightarrow> bytes"
  assumes step: "\<And>this ct p. running view d k nonce aad ct this \<Longrightarrow> length p \<le> int_max \<Longrightarrow>
      \<exists>this'. update p (this, w) = (Inr (crypt (ks k nonce) (length ct) p), (this', w)) \<and>
        running view d k nonce aad (ct @ grow (length ct) p) this'"
    and grow: "\<And>i p. length (grow i p) = length p"
      "\<And>i p q. grow i (p @ q) = grow i p @ grow (i + length p) q"
  shows "running view d k nonce aad ct this \<Longrightarrow> length (concat chunks) \<le> int_max \<Longrightarrow>
      \<exists>this'. updates update chunks (this, w) = (Inr (crypt (ks k nonce) (length ct) (concat chunks)), (this', w)) \<and>
        running view d k nonce aad (ct @ grow (length ct) (concat chunks)) this'"
proof (induction chunks arbitrary: ct this)
  case Nil
  have "grow (length ct) [] = []" using grow(1) by (metis length_0_conv)
  with Nil show ?case by simp
next
  case (Cons p chunks)
  obtain this1 where 1: "update p (this, w) = (Inr (crypt (ks k nonce) (length ct) p), (this1, w))"
    and run: "running view d k nonce aad (ct @ grow (length ct) p) this1"
    using step [of ct this p] Cons.prems by auto
  from Cons.IH [OF run] Cons.prems(2) obtain this2 where
    "updates update chunks (this1, w) = (Inr (crypt (ks k nonce) (length ct + length p) (concat chunks)), (this2, w))"
    "running view d k nonce aad (ct @ grow (length ct) p @ grow (length ct + length p) (concat chunks)) this2"
    by (auto simp: grow(1))
  with 1 show ?case by (simp add: act_simps crypt_append grow(2))
qed

lemma encryptor_update_total:
  assumes "gcm_documented ossl view ks tg" and "gcm_available ossl view tg"
    and "running view Encrypting k nonce aad ct this" and "length p \<le> int_max"
  shows "\<exists>this'. encryptor_update ossl p (this, w) = (Inr (crypt (ks k nonce) (length ct) p), (this', w)) \<and>
      running view Encrypting k nonce aad (ct @ crypt (ks k nonce) (length ct) p) this'"
  using encryptor_update_doc [OF assms(1, 3), of p w] assms(2, 4)
  by (cases "encryptor_update ossl p (this, w)"; cases "fst (encryptor_update ossl p (this, w))")
    (auto simp: wp_def gcm_fault_def size_fault_def)

lemma decryptor_update_total:
  assumes "gcm_documented ossl view ks tg" and "gcm_available ossl view tg"
    and "running view Decrypting k nonce aad ct this" and "length p \<le> int_max"
  shows "\<exists>this'. decryptor_update ossl p (this, w) = (Inr (crypt (ks k nonce) (length ct) p), (this', w)) \<and>
      running view Decrypting k nonce aad (ct @ p) this'"
  using decryptor_update_doc [OF assms(1, 3), of p w] assms(2, 4)
  by (cases "decryptor_update ossl p (this, w)"; cases "fst (decryptor_update ossl p (this, w))")
    (auto simp: wp_def gcm_fault_def size_fault_def)

lemma encryptor_finalize_total:
  assumes "gcm_documented ossl view ks tg" and "gcm_available ossl view tg"
    and "running view Encrypting k nonce aad ct this"
  shows "\<exists>this'. encryptor_finalize ossl (this, w) = (Inr (tg k nonce aad ct), (this', w))"
  using encryptor_finalize_doc [OF assms(1, 3), of w] assms(2)
  by (cases "encryptor_finalize ossl (this, w)"; cases "fst (encryptor_finalize ossl (this, w))")
    (auto simp: wp_def gcm_fault_def)

lemma encryptor_updates_total:
  assumes "gcm_documented ossl view ks tg" and "gcm_available ossl view tg"
    and "running view Encrypting k nonce aad ct this" and "length (concat chunks) \<le> int_max"
  shows "\<exists>this'. updates (encryptor_update ossl) chunks (this, w) =
        (Inr (crypt (ks k nonce) (length ct) (concat chunks)), (this', w)) \<and>
      running view Encrypting k nonce aad (ct @ crypt (ks k nonce) (length ct) (concat chunks)) this'"
proof (rule updates_running [where grow = "crypt (ks k nonce)"])
  fix this ct and p :: bytes
  assume "running view Encrypting k nonce aad ct this" "length p \<le> int_max"
  then show "\<exists>this'. encryptor_update ossl p (this, w) = (Inr (crypt (ks k nonce) (length ct) p), (this', w)) \<and>
      running view Encrypting k nonce aad (ct @ crypt (ks k nonce) (length ct) p) this'"
    by (rule encryptor_update_total [OF assms(1, 2)])
qed (use assms(3, 4) crypt_append in auto)

lemma decryptor_updates_total:
  assumes "gcm_documented ossl view ks tg" and "gcm_available ossl view tg"
    and "running view Decrypting k nonce aad ct this" and "length (concat chunks) \<le> int_max"
  shows "\<exists>this'. updates (decryptor_update ossl) chunks (this, w) =
        (Inr (crypt (ks k nonce) (length ct) (concat chunks)), (this', w)) \<and>
      running view Decrypting k nonce aad (ct @ concat chunks) this'"
proof (rule updates_running [where grow = "\<lambda>_ p. p"])
  fix this ct and p :: bytes
  assume "running view Decrypting k nonce aad ct this" "length p \<le> int_max"
  then show "\<exists>this'. decryptor_update ossl p (this, w) = (Inr (crypt (ks k nonce) (length ct) p), (this', w)) \<and>
      running view Decrypting k nonce aad (ct @ p) this'"
    by (rule decryptor_update_total [OF assms(1, 2)])
qed (use assms(3, 4) in auto)

lemma decryptor_finalize_total:
  assumes "gcm_documented ossl view ks tg" and "gcm_available ossl view tg"
    and "running view Decrypting k nonce aad ct this" and "length tag = kTagSize"
  shows "fst (decryptor_finalize ossl tag (this, w)) =
    (if tag = tg k nonce aad ct then Inr [] else Inl aead_authentication_failed)"
  using decryptor_finalize_doc [OF assms(1, 3), of tag w] assms(2, 4)
  by (cases "decryptor_finalize ossl tag (this, w)"; cases "fst (decryptor_finalize ossl tag (this, w))")
    (auto simp: wp_def gcm_fault_def)

text \<open>A function body on an object, case by case on its first call.\<close>

lemma with_object_cong:
  assumes "\<And>this. constructed = Inr this \<Longrightarrow> fst (m (this, w)) = fst (n (this, w))"
  shows "fst (with_object constructed m w) = fst (with_object constructed n w)"
  using assms by (auto simp: with_object_def split: sum.splits prod.splits)

lemma bindM_cong:
  assumes "\<And>a t. m s = (Inr a, t) \<Longrightarrow> fst (f a t) = fst (g a t)"
  shows "fst (bindM m f s) = fst (bindM m g s)"
  using assms by (auto simp: bindM_def split: sum.splits prod.splits)

lemma encrypt_chunked_encrypt:
  assumes doc: "gcm_documented ossl view ks tg" "gcm_available ossl view tg" and "is_key256 key"
    and len: "length (concat chunks) \<le> int_max"
  shows "fst (encrypt_chunked ossl chunks key aad w) = fst (encrypt ossl (concat chunks) key aad w)"
  unfolding encrypt_chunked_def encrypt_def
proof (intro with_object_cong bindM_cong, goal_cases)
  case (1 this p s)
  obtain this1 w1 where s: "s = (this1, w1)" by fastforce
  obtain nonce where run: "running view Encrypting key nonce (make_header @ aad) [] this1"
    using wp_InrD [OF encryptor_begin_doc [OF doc(1)] 1(2) [unfolded 1(1) [unfolded stream_new_Inr, THEN conjunct2]]]
      1 assms(3) s by (auto simp: stream_new_Inr)
  let ?c = "crypt (ks key nonce) 0 (concat chunks)"
  obtain this2 where 2: "updates (encryptor_update ossl) chunks (this1, w1) = (Inr ?c, (this2, w1))"
    "running view Encrypting key nonce (make_header @ aad) ?c this2"
    using encryptor_updates_total [OF doc run len] by auto
  obtain this3 where 3: "encryptor_update ossl (concat chunks) (this1, w1) = (Inr ?c, (this3, w1))"
    "running view Encrypting key nonce (make_header @ aad) ?c this3"
    using encryptor_update_total [OF doc run len] by auto
  let ?t = "tg key nonce (make_header @ aad) ?c"
  obtain this4 this5 where "encryptor_finalize ossl (this2, w1) = (Inr ?t, (this4, w1))"
    "encryptor_finalize ossl (this3, w1) = (Inr ?t, (this5, w1))"
    using encryptor_finalize_total [OF doc 2(2)] encryptor_finalize_total [OF doc 3(2)] by blast
  with 2(1) 3(1) show ?case by (simp add: s act_simps)
qed

lemma decrypt_chunked_decrypt:
  assumes doc: "gcm_documented ossl view ks tg" "gcm_available ossl view tg" and "is_key256 key"
    and parts: "packet_parts packet = Some (nonce, concat chunks, tag)"
    and len: "length (concat chunks) \<le> int_max"
  shows "fst (decrypt_chunked ossl (make_header @ nonce) chunks tag key aad w) = fst (decrypt ossl packet key aad w)"
  unfolding decrypt_chunked_def decrypt_parts [OF parts] thenM_def
proof (intro with_object_cong bindM_cong, goal_cases)
  case (1 this u s)
  have sizes: "length nonce = kNonceSize" "length tag = kTagSize"
    using parts by (simp_all add: packet_parts_join)
  obtain this1 w1 where s: "s = (this1, w1)" by fastforce
  have run: "running view Decrypting key nonce (make_header @ aad) [] this1"
    using wp_InrD [OF decryptor_begin_doc [OF doc(1)] 1(2) [unfolded 1(1) [unfolded stream_new_Inr, THEN conjunct2]]]
      1 assms(3) s sizes by (auto simp: stream_new_Inr)
  let ?p = "crypt (ks key nonce) 0 (concat chunks)"
  obtain this2 where 2: "updates (decryptor_update ossl) chunks (this1, w1) = (Inr ?p, (this2, w1))"
    "running view Decrypting key nonce (make_header @ aad) (concat chunks) this2"
    using decryptor_updates_total [OF doc run len] by auto
  obtain this3 where 3: "decryptor_update ossl (concat chunks) (this1, w1) = (Inr ?p, (this3, w1))"
    "running view Decrypting key nonce (make_header @ aad) (concat chunks) this3"
    using decryptor_update_total [OF doc run len] by auto
  obtain r s4 s5 where "decryptor_finalize ossl tag (this2, w1) = (r, s4)"
    "decryptor_finalize ossl tag (this3, w1) = (r, s5)"
    using decryptor_finalize_total [OF doc 2(2) sizes(2), of w1] decryptor_finalize_total [OF doc 3(2) sizes(2), of w1]
    by (metis prod.collapse)
  with 2(1) 3(1) show ?case by (cases r) (simp_all add: s act_simps)
qed

text \<open>Decryption computes its specification when the backend is available.\<close>

lemma decrypt_refines:
  assumes "gcm_documented ossl view ks tg" and "gcm_available ossl view tg" and "is_key256 key"
  shows "fst (decrypt ossl packet key aad w) = decrypt_spec ks tg packet key aad"
proof (cases "packet_parts packet")
  case None
  then show ?thesis by (simp add: decrypt_malformed decrypt_spec_def)
next
  case (Some parts)
  obtain nonce ciphertext tag where "parts = (nonce, ciphertext, tag)" by (metis prod_cases3)
  then show ?thesis
    using decrypt_doc [OF assms(1, 3), of packet nonce ciphertext tag aad w] Some assms(2)
    by (cases "decrypt ossl packet key aad w"; cases "fst (decrypt ossl packet key aad w)") (auto simp: wp_def)
qed

lemma decrypt_spec_sealed:
  assumes "length nonce = kNonceSize" and "length (tg key nonce (make_header @ aad) (crypt (ks key nonce) 0 p)) = 16"
    and "length aad \<le> int_max" and "length p \<le> int_max"
  shows "decrypt_spec ks tg (sealed_packet ks tg key nonce aad p) key aad = Inr p"
proof -
  let ?c = "crypt (ks key nonce) 0 p"
  have "packet_parts (sealed_packet ks tg key nonce aad p) = Some (nonce, ?c, tg key nonce (make_header @ aad) ?c)"
    using assms(1, 2) by (simp add: packet_parts_join sealed_packet_def Let_def)
  then show ?thesis using assms(3, 4) by (simp add: decrypt_spec_def)
qed

lemma decrypt_spec_Inr:
  assumes "decrypt_spec ks tg packet key aad = Inr p"
  shows "\<exists>nonce. length nonce = kNonceSize \<and> packet = sealed_packet ks tg key nonce aad p"
proof -
  from assms obtain nonce ciphertext tag where
    parts: "packet_parts packet = Some (nonce, ciphertext, tag)" "tag = tg key nonce (make_header @ aad) ciphertext"
    and p: "p = crypt (ks key nonce) 0 ciphertext"
    by (auto simp: decrypt_spec_def split: option.splits if_splits)
  then show ?thesis
    unfolding packet_parts_join by (intro exI [of _ nonce]) (simp add: sealed_packet_def Let_def)
qed

lemma decrypt_Inr:
  assumes "gcm_documented ossl view ks tg" and "is_key256 key" and "decrypt ossl packet key aad w = (Inr p, w')"
  shows "\<exists>nonce. length nonce = kNonceSize \<and> packet = sealed_packet ks tg key nonce aad p"
proof -
  obtain nonce ciphertext tag where "packet_parts packet = Some (nonce, ciphertext, tag)"
    using assms(3) decrypt_malformed [of packet ossl key aad w] by (cases "packet_parts packet") auto
  from wp_InrD [OF decrypt_doc [OF assms(1, 2) this] assms(3)] show ?thesis
    by (rule decrypt_spec_Inr)
qed

lemma encrypt_decrypt:
  assumes "gcm_documented ossl view ks tg" and "gcm_available ossl view tg" and "is_key256 key"
    and "encrypt ossl p key aad w = (Inr packet, w')"
  shows "fst (decrypt ossl packet key aad v) = Inr p"
proof -
  obtain nonce where "length nonce = kNonceSize" "packet = sealed_packet ks tg key nonce aad p"
    "length aad \<le> int_max" "length p \<le> int_max"
    using wp_InrD [OF encrypt_doc [OF assms(1, 3)] assms(4)] by auto
  then show ?thesis
    using decrypt_refines [OF assms(1-3)] decrypt_spec_sealed gcm_documentedD(14) [OF assms(1)] by simp
qed

section \<open>Properties\<close>

text \<open>
  C21: Packet format. What \<^verbatim>\<open>encrypt\<close> returns is header, a 12-byte nonce, the
  GCM ciphertext of the plaintext and its 16-byte tag over header and AAD; it throws only
  for an AAD or plaintext above the OpenSSL limit, or when a backend call fails.
\<close>

theorem encrypt_packet:
  assumes "gcm_documented ossl view ks tg" and "is_key256 key"
  shows "case fst (encrypt ossl plaintext key aad w) of
      Inr packet \<Rightarrow> \<exists>nonce. length nonce = kNonceSize \<and> packet = sealed_packet ks tg key nonce aad plaintext \<and>
        length packet = kOverhead + length plaintext
    | Inl e \<Rightarrow> size_fault ''AAD'' aad e \<or> size_fault ''plaintext'' plaintext e \<or>
        e = aead_backend_failure \<and> \<not> (gcm_available ossl view tg \<and> rand_available ossl)"
  using encrypt_doc [OF assms, of plaintext aad w] gcm_documentedD(14) [OF assms(1)]
  by (cases "encrypt ossl plaintext key aad w"; cases "fst (encrypt ossl plaintext key aad w)")
    (auto simp: wp_def sealed_packet_def Let_def)

theorem encrypt_packet_witness:
  "\<exists>packet nonce. fst (encrypt sample_ossl [1, 2] (replicate 32 7) [9] 0) = Inr packet \<and>
     packet = sealed_packet sample_ks sample_tag (replicate 32 7) nonce [9] [1, 2] \<and> length packet = 35"
  using encrypt_packet [OF sample_documented, where key = "replicate 32 7" and plaintext = "[1, 2]" and aad = "[9]" and w = 0] sample_available sample_rand_available
  by (cases "fst (encrypt sample_ossl [1, 2] (replicate 32 7) [9] 0)")
    (auto simp: is_key256_def size_fault_def int_max_def)

text \<open>
  C7: Decryption implements its specification: the packet's shape is checked first
  (\<^verbatim>\<open>invalid_packet\<close>), then the sizes of AAD and ciphertext
  (\<^verbatim>\<open>invalid_input\<close>), then the tag (\<^verbatim>\<open>authentication_failed\<close>), and
  only then is plaintext returned.
\<close>

theorem decrypt_implements_spec:
  assumes "gcm_documented ossl view ks tg" and "gcm_available ossl view tg" and "is_key256 key"
  shows "fst (decrypt ossl packet key aad w) = decrypt_spec ks tg packet key aad"
  using assms by (rule decrypt_refines)

lemma sample_tag_not_constant: "sample_tag k iv aad ct \<noteq> replicate 16 b"
proof
  assume eq: "sample_tag k iv aad ct = replicate 16 b"
  have "sample_tag k iv aad ct ! 1 = sample_tag k iv aad ct ! 0 + 1"
    by (simp add: sample_tag_def)
  moreover have "sample_tag k iv aad ct ! 1 = b" "sample_tag k iv aad ct ! 0 = b"
    by (simp_all add: eq)
  ultimately show False by simp
qed

theorem decrypt_implements_spec_witness:
  "fst (decrypt sample_ossl (make_header @ replicate 12 0 @ [0, 0] @ replicate 16 0) (replicate 32 7) [] 0) =
     Inl aead_authentication_failed"
proof -
  have "packet_parts (make_header @ replicate 12 0 @ [0, 0] @ replicate 16 0) = Some (replicate 12 0, [0, 0], replicate 16 0)"
    unfolding packet_parts_join by simp
  then show ?thesis
    using decrypt_implements_spec [OF sample_documented sample_available, where key = "replicate 32 7"
        and packet = "make_header @ replicate 12 0 @ [0, 0] @ replicate 16 0" and aad = "[]" and w = 0]
      sample_tag_not_constant [THEN not_sym]
    by (simp add: is_key256_def decrypt_spec_def int_max_def del: append_Cons append_Nil)
qed

text \<open>
  C4: Authenticity. Whatever calls fail or succeed, a packet that \<^verbatim>\<open>decrypt\<close>
  accepts is exactly the packet sealing the returned plaintext under the same key and AAD
  with the nonce it carries; a malformed packet is refused before the backend is used.
\<close>

theorem decrypt_authentic:
  assumes "gcm_documented ossl view ks tg" and "is_key256 key"
  shows "case decrypt ossl packet key aad w of
      (Inr plaintext, _) \<Rightarrow> \<exists>nonce. length nonce = kNonceSize \<and> packet = sealed_packet ks tg key nonce aad plaintext
    | (Inl e, w') \<Rightarrow> packet_parts packet = None \<longrightarrow> e = aead_invalid_packet \<and> w' = w"
proof (cases "decrypt ossl packet key aad w")
  case (Pair r w')
  then show ?thesis
    using decrypt_Inr [OF assms] decrypt_malformed [of packet ossl key aad w] by (cases r) auto
qed

theorem decrypt_authentic_witness:
  "case decrypt sample_ossl [0x53, 0x4b] (replicate 32 7) [] 5 of
     (Inr p, _) \<Rightarrow> False | (Inl e, w') \<Rightarrow> e = aead_invalid_packet \<and> w' = 5"
proof -
  have "packet_parts [0x53, 0x4b] = None" by (simp add: packet_parts_def)
  then show ?thesis
    using decrypt_authentic [OF sample_documented, where key = "replicate 32 7" and packet = "[0x53, 0x4b]" and aad = "[]" and w = 5]
    by (simp add: is_key256_def decrypt_malformed)
qed

text \<open>
  C22: Round trip. Decrypting what \<^verbatim>\<open>encrypt\<close> returned, under the same key and
  AAD, gives the plaintext.
\<close>

theorem decrypt_encrypt:
  assumes "gcm_documented ossl view ks tg" and "gcm_available ossl view tg" and "is_key256 key"
  shows "case fst (encrypt ossl plaintext key aad w) of
      Inr packet \<Rightarrow> fst (decrypt ossl packet key aad w') = Inr plaintext
    | Inl e \<Rightarrow> code e = invalid_input \<or> code e = backend_failure"
proof (cases "encrypt ossl plaintext key aad w")
  case (Pair r v)
  show ?thesis
  proof (cases r)
    case (Inr packet)
    with Pair show ?thesis using encrypt_decrypt [OF assms] by simp
  next
    case (Inl e)
    then show ?thesis
      using Pair wp_InlD [OF encrypt_doc [OF assms(1, 3), of plaintext aad w], of e v]
      by (auto simp: size_fault_def aead_backend_failure_def)
  qed
qed

theorem decrypt_encrypt_witness:
  "\<exists>packet. fst (encrypt sample_ossl [3, 1, 4] (replicate 32 7) [9] 0) = Inr packet \<and>
     fst (decrypt sample_ossl packet (replicate 32 7) [9] 100) = Inr [3, 1, 4]"
proof -
  have "\<exists>packet. fst (encrypt sample_ossl [3, 1, 4] (replicate 32 7) [9] 0) = Inr packet"
    using encrypt_doc [OF sample_documented, where key = "replicate 32 7" and plaintext = "[3, 1, 4]" and aad = "[9]" and w = 0] sample_available sample_rand_available
    by (cases "encrypt sample_ossl [3, 1, 4] (replicate 32 7) [9] 0"; cases "fst (encrypt sample_ossl [3, 1, 4] (replicate 32 7) [9] 0)")
      (auto simp: wp_def is_key256_def size_fault_def int_max_def)
  then show ?thesis
    using decrypt_encrypt [OF sample_documented sample_available, where key = "replicate 32 7" and plaintext = "[3, 1, 4]"
      and aad = "[9]" and w = 0 and w' = 100]
    by (auto simp: is_key256_def)
qed

text \<open>
  C13: Streaming equals one-shot. Feeding a message to the streaming objects in chunks
  of any sizes gives the packet, or the plaintext or error, of the whole-packet functions.
\<close>

theorem chunked_equals_whole:
  assumes "gcm_documented ossl view ks tg" and "gcm_available ossl view tg" and "is_key256 key"
    and "length (concat chunks) \<le> int_max"
  shows "fst (encrypt_chunked ossl chunks key aad w) = fst (encrypt ossl (concat chunks) key aad w) \<and>
    (packet_parts packet = Some (nonce, concat chunks, tag) \<longrightarrow>
       fst (decrypt_chunked ossl (make_header @ nonce) chunks tag key aad w) = fst (decrypt ossl packet key aad w))"
  using encrypt_chunked_encrypt [OF assms] decrypt_chunked_decrypt [OF assms(1-3) _ assms(4)] by blast

theorem chunked_equals_whole_witness:
  "fst (encrypt_chunked sample_ossl [[1], [], [2, 3]] (replicate 32 7) [] 0) =
     fst (encrypt sample_ossl [1, 2, 3] (replicate 32 7) [] 0)"
  using chunked_equals_whole [OF sample_documented sample_available, where key = "replicate 32 7"
      and chunks = "[[1], [], [2, 3]]" and aad = "[]" and w = 0]
  by (simp add: is_key256_def int_max_def)

text \<open>
  C23: Key wrapping. A wrapped key unwraps to itself; a packet that authenticates but
  does not hold 32 bytes is refused as \<^verbatim>\<open>invalid_packet\<close>; what is returned is a key.
\<close>

theorem key_wrap_roundtrip:
  assumes "gcm_documented ossl view ks tg" and "gcm_available ossl view tg"
    and "is_key256 wrapping_key" and "is_key256 key"
  shows "(case fst (wrap_key ossl key wrapping_key aad w) of
        Inr packet \<Rightarrow> fst (unwrap_key ossl packet wrapping_key aad w') = Inr key
      | Inl e \<Rightarrow> code e = invalid_input \<or> code e = backend_failure) \<and>
    fst (unwrap_key ossl packet wrapping_key aad w) =
      (case decrypt_spec ks tg packet wrapping_key aad of
         Inr k \<Rightarrow> if is_key256 k then Inr k else Inl (Error invalid_packet ''Invalid wrapped key packet'')
       | Inl e \<Rightarrow> Inl e)"
proof -
  have unwrap: "fst (unwrap_key ossl packet wrapping_key aad w) =
      (case decrypt_spec ks tg packet wrapping_key aad of
         Inr k \<Rightarrow> if is_key256 k then Inr k else Inl (Error invalid_packet ''Invalid wrapped key packet'')
       | Inl e \<Rightarrow> Inl e)" for packet w
    unfolding decrypt_refines [OF assms(1-3), of packet aad w, symmetric]
    by (auto simp: unwrap_key_def act_simps is_key256_def split: prod.splits sum.splits)
  show ?thesis
  proof (cases "wrap_key ossl key wrapping_key aad w")
    case (Pair r v)
    show ?thesis
    proof (cases r)
      case (Inr packet)
      then have "fst (decrypt ossl packet wrapping_key aad w') = Inr key"
        using Pair encrypt_decrypt [OF assms(1-3)] by (simp add: wrap_key_def)
      then show ?thesis
        using Pair Inr assms(4) unwrap decrypt_refines [OF assms(1-3)] by simp
    next
      case (Inl e)
      then show ?thesis
        using Pair unwrap wp_InlD [OF encrypt_doc [OF assms(1, 3), of key aad w], of e v]
        by (auto simp: wrap_key_def size_fault_def aead_backend_failure_def)
    qed
  qed
qed

theorem key_wrap_roundtrip_witness:
  "case fst (wrap_key sample_ossl (replicate 32 1) (replicate 32 2) [] 0) of
     Inr packet \<Rightarrow> fst (unwrap_key sample_ossl packet (replicate 32 2) [] 0) = Inr (replicate 32 1)
   | Inl e \<Rightarrow> code e = invalid_input \<or> code e = backend_failure"
  using key_wrap_roundtrip [OF sample_documented sample_available, where wrapping_key = "replicate 32 2"
      and key = "replicate 32 1" and aad = "[]" and w = 0 and w' = 0]
  by (simp add: is_key256_def)

end
