(* ===== verification/Wiping.thy ===== *)
theory Wiping
  imports Aead
begin

text \<open>
  \<^verbatim>\<open>src/wipe.hpp\<close> and its calls in \<^verbatim>\<open>src/packet_stream.cpp\<close>,
  \<^verbatim>\<open>src/aead.cpp\<close> and \<^verbatim>\<open>src/key_wrap.cpp\<close>: the functions once more, over a
  state that also records what the storage of keys, of additional data and of recovered plaintext holds
  at the moment it is given back. \<open>f_mem\<close> is the function \<open>f\<close> with that record.
\<close>

section \<open>wipe.hpp\<close>

text \<open>A state with the contents of the storage given back so far.\<close>

type_synonym 's memory = "'s \<times> bytes list"

definition free :: "bytes \<Rightarrow> 's memory \<Rightarrow> 's memory" where
  "free b = (\<lambda>(s, freed). (s, freed @ [b]))"

text \<open>\<^verbatim>\<open>OPENSSL_cleanse\<close> is a parameter; its manual page says it fills the storage with zeros.\<close>

definition cleanse_documented :: "(bytes \<Rightarrow> bytes) \<Rightarrow> bool" where
  "cleanse_documented OPENSSL_cleanse \<longleftrightarrow> (\<forall>b. OPENSSL_cleanse b = replicate (length b) 0)"

definition secure_wipe :: "(bytes \<Rightarrow> bytes) \<Rightarrow> bytes \<Rightarrow> bytes" where
  "secure_wipe OPENSSL_cleanse data = (if data \<noteq> [] then OPENSSL_cleanse data else data)"

text \<open>
  A local buffer with a guard \<^verbatim>\<open>wipe_on_exit\<close> declared after it: when its scope \<open>m\<close> returns or
  throws, the guard's destructor runs first, then the buffer's.
\<close>

definition wipe_on_exit :: "(bytes \<Rightarrow> bytes) \<Rightarrow> bytes \<Rightarrow> ('e, 's memory, 'a) act \<Rightarrow> ('e, 's memory, 'a) act" where
  "wipe_on_exit cleanse data m = (\<lambda>s. case m s of (r, t) \<Rightarrow> (r, free (secure_wipe cleanse data) t))"

text \<open>A local buffer without a guard that is returned, or given back as it is when \<open>m\<close> throws.\<close>

definition freeing :: "bytes \<Rightarrow> ('e, 's memory, 'a) act \<Rightarrow> ('e, 's memory, 'a) act" where
  "freeing b m = on_throw m (free b)"

section \<open>Storage left wiped\<close>

definition wiped :: "bytes \<Rightarrow> bool" where
  "wiped b \<longleftrightarrow> (\<forall>x \<in> set b. x = 0)"

text \<open>
  \<open>tidy E m' m\<close>: \<open>m'\<close> does what \<open>m\<close> does, and all the storage it gives back is wiped, unless it
  throws an error in \<open>E\<close>.
\<close>

definition tidy :: "('e \<Rightarrow> bool) \<Rightarrow> ('e, 's memory, 'a) act \<Rightarrow> ('e, 's, 'a) act \<Rightarrow> bool" where
  "tidy E m' m \<longleftrightarrow> (\<forall>s freed. \<exists>new. m' (s, freed) = (fst (m s), (snd (m s), freed @ new)) \<and>
     ((\<exists>e. fst (m s) = Inl e \<and> E e) \<or> (\<forall>b \<in> set new. wiped b)))"

named_theorems tidy_intros \<open>storage left wiped by the constructs and operations\<close>

lemma tidyI:
  assumes "\<And>s freed r t. m s = (r, t) \<Longrightarrow> \<exists>new. m' (s, freed) = (r, (t, freed @ new)) \<and>
     ((\<exists>e. r = Inl e \<and> E e) \<or> (\<forall>b \<in> set new. wiped b))"
  shows "tidy E m' m"
  unfolding tidy_def by (intro allI assms prod.collapse [symmetric])

lemma tidyE:
  assumes "tidy E m' m"
  obtains r t new where "m s = (r, t)" and "m' (s, freed) = (r, (t, freed @ new))"
    and "(\<exists>e. r = Inl e \<and> E e) \<or> (\<forall>b \<in> set new. wiped b)"
proof -
  from assms [unfolded tidy_def, rule_format, of s freed] obtain new where
    n: "m' (s, freed) = (fst (m s), (snd (m s), freed @ new)) \<and>
      ((\<exists>e. fst (m s) = Inl e \<and> E e) \<or> (\<forall>b \<in> set new. wiped b))" ..
  show thesis by (rule that [OF prod.collapse [symmetric] conjunct1 [OF n] conjunct2 [OF n]])
qed

lemma tidy_on_fst [tidy_intros]: "tidy E (on_fst m) m"
  by (rule tidyI) (auto simp: on_fst_def)

lemma tidy_ret [tidy_intros]: "tidy E (ret a) (ret a)"
  by (rule tidyI) auto

lemma tidy_throw [tidy_intros]: "tidy E (throw e) (throw e)"
  by (rule tidyI) auto

lemma tidy_throw_if [tidy_intros]: "tidy E (throw_if b e) (throw_if b e)"
  by (rule tidyI) (auto simp: throw_if_def)

lemma tidy_lift_result [tidy_intros]: "tidy E (lift_result r) (lift_result r)"
  by (rule tidyI) auto

lemma tidy_bindM_result:
  assumes m: "tidy E m' m" and f: "\<And>a s t. m s = (Inr a, t) \<Longrightarrow> tidy E (f' a) (f a)"
  shows "tidy E (bindM m' f') (bindM m f)"
proof (rule tidyI)
  fix s freed r t
  assume run: "bindM m f s = (r, t)"
  obtain r1 t1 new where 1: "m s = (r1, t1)" "m' (s, freed) = (r1, (t1, freed @ new))"
    "(\<exists>e. r1 = Inl e \<and> E e) \<or> (\<forall>b \<in> set new. wiped b)" by (rule tidyE [OF m])
  show "\<exists>new. bindM m' f' (s, freed) = (r, (t, freed @ new)) \<and>
      ((\<exists>e. r = Inl e \<and> E e) \<or> (\<forall>b \<in> set new. wiped b))"
  proof (cases r1)
    case (Inl e)
    then show ?thesis using 1 run by (auto simp: bindM_def)
  next
    case (Inr a)
    obtain r2 t2 new' where 2: "f a t1 = (r2, t2)" "f' a (t1, freed @ new) = (r2, (t2, (freed @ new) @ new'))"
      "(\<exists>e. r2 = Inl e \<and> E e) \<or> (\<forall>b \<in> set new'. wiped b)"
      by (rule tidyE [OF f [OF 1(1) [unfolded Inr]]])
    then show ?thesis using 1 run Inr by (intro exI [of _ "new @ new'"]) (auto simp: bindM_def)
  qed
qed

lemma tidy_bindM [tidy_intros]: "tidy E m' m \<Longrightarrow> (\<And>a. tidy E (f' a) (f a)) \<Longrightarrow> tidy E (bindM m' f') (bindM m f)"
  by (rule tidy_bindM_result)

lemma tidy_thenM [tidy_intros]: "tidy E m' m \<Longrightarrow> tidy E n' n \<Longrightarrow> tidy E (thenM m' n') (thenM m n)"
  unfolding thenM_def by (rule tidy_bindM)

lemma tidy_if [tidy_intros]:
  "(b \<Longrightarrow> tidy E m' m) \<Longrightarrow> (\<not> b \<Longrightarrow> tidy E n' n) \<Longrightarrow> tidy E (if b then m' else n') (if b then m else n)"
  by simp

lemma wiped_secure_wipe: "cleanse_documented cleanse \<Longrightarrow> wiped (secure_wipe cleanse b)"
  by (auto simp: wiped_def secure_wipe_def cleanse_documented_def)

lemma wiped_zeros [simp]: "wiped (replicate n 0)"
  by (simp add: wiped_def)

lemma tidy_wipe_on_exit [tidy_intros]:
  assumes "cleanse_documented cleanse" and "tidy E m' m"
  shows "tidy E (wipe_on_exit cleanse b m') m"
proof (rule tidyI)
  fix s freed r t
  assume run: "m s = (r, t)"
  obtain r1 t1 new where "m s = (r1, t1)" "m' (s, freed) = (r1, (t1, freed @ new))"
    "(\<exists>e. r1 = Inl e \<and> E e) \<or> (\<forall>b \<in> set new. wiped b)" by (rule tidyE [OF assms(2)])
  then show "\<exists>new. wipe_on_exit cleanse b m' (s, freed) = (r, (t, freed @ new)) \<and>
      ((\<exists>e. r = Inl e \<and> E e) \<or> (\<forall>b \<in> set new. wiped b))"
    using run wiped_secure_wipe [OF assms(1)]
    by (intro exI [of _ "new @ [secure_wipe cleanse b]"]) (auto simp: wipe_on_exit_def free_def)
qed

text \<open>Storage that is given back as it is on a throw: it is zero, or every throw is in \<open>E\<close>.\<close>

lemma tidy_freeing:
  assumes m: "tidy E m' m" and b: "wiped b \<or> (\<forall>s e t. m s = (Inl e, t) \<longrightarrow> E e)"
  shows "tidy E (freeing b m') m"
proof (rule tidyI)
  fix s freed r t
  assume run: "m s = (r, t)"
  obtain r1 t1 new where 1: "m s = (r1, t1)" "m' (s, freed) = (r1, (t1, freed @ new))"
    "(\<exists>e. r1 = Inl e \<and> E e) \<or> (\<forall>b \<in> set new. wiped b)" by (rule tidyE [OF m])
  show "\<exists>new. freeing b m' (s, freed) = (r, (t, freed @ new)) \<and>
      ((\<exists>e. r = Inl e \<and> E e) \<or> (\<forall>b \<in> set new. wiped b))"
  proof (cases r)
    case (Inl e)
    then show ?thesis
      using 1 run b by (intro exI [of _ "new @ [b]"]) (auto simp: freeing_def on_throw_def free_def)
  next
    case (Inr a)
    then show ?thesis using 1 run by (auto simp: freeing_def on_throw_def)
  qed
qed

section \<open>Packets: the code\<close>

text \<open>\<^verbatim>\<open>~impl\<close>: both members are wiped; then they are destroyed in the reverse of their order.\<close>

definition destroy_impl :: "(bytes \<Rightarrow> bytes) \<Rightarrow> 'c stream_impl \<Rightarrow> 's memory \<Rightarrow> 's memory" where
  "destroy_impl cleanse i s =
     (let key = secure_wipe cleanse (impl_key i);
          aad = secure_wipe cleanse (impl_aad i)
      in free key (free aad s))"

text \<open>
  An object of either class in a scope. When the constructor throws there is no object whose
  destructor could run: its members are given back as they are.
\<close>

definition with_object_mem ::
  "(bytes \<Rightarrow> bytes) \<Rightarrow> key256 \<Rightarrow> bytes \<Rightarrow> (error, ('c, 'w) stream_state memory, 'a) act \<Rightarrow> (error, 'w memory, 'a) act" where
  "with_object_mem cleanse key aad body = (\<lambda>(w, freed).
     case stream_new key aad of
       Inl e \<Rightarrow> (Inl e, free key (free aad (w, freed)))
     | Inr this \<Rightarrow>
         (case body ((this, w), freed) of (r, ((this', w'), freed')) \<Rightarrow>
            (r, case this' of None \<Rightarrow> (w', freed') | Some i \<Rightarrow> destroy_impl cleanse i (w', freed'))))"

text \<open>The frames of a call on the object's state and on its context.\<close>

definition with_impl_mem ::
  "string \<Rightarrow> (error, ('c stream_impl \<times> 'w) memory, 'a) act \<Rightarrow> (error, ('c, 'w) stream_state memory, 'a) act" where
  "with_impl_mem no_state body = (\<lambda>((this, w), freed).
     case this of
       None \<Rightarrow> (Inl (Error invalid_input no_state), ((None, w), freed))
     | Some i \<Rightarrow> (case body ((i, w), freed) of (r, ((i', w'), freed')) \<Rightarrow> (r, ((Some i', w'), freed'))))"

definition on_context_mem ::
  "(error, 'c memory, 'a) act \<Rightarrow> (error, ('c stream_impl \<times> 'w) memory, 'a) act" where
  "on_context_mem m = (\<lambda>((i, w), freed).
     case impl_context i of
       None \<Rightarrow> (Inl aead_backend_failure, ((i, w), freed))
     | Some c \<Rightarrow> (case m (c, freed) of (r, (c', freed')) \<Rightarrow> (r, ((i\<lparr>impl_context := Some c'\<rparr>, w), freed'))))"

definition decrypt_update_mem :: "('w, 'c, 'd) openssl \<Rightarrow> bytes \<Rightarrow> (error, 'c memory, bytes) act" where
  "decrypt_update_mem ossl ciphertext =
     bindM (on_fst (update_size ciphertext ''ciphertext'')) (\<lambda>ciphertext_size.
     let plaintext = replicate (length ciphertext) 0
     in if ciphertext_size = 0 then ret plaintext
        else bindM (on_fst (call (EVP_DecryptUpdate ossl ciphertext))) (\<lambda>(r, out, plaintext_size).
          freeing (overwrite plaintext out)
         (thenM (throw_if (r \<noteq> 1) aead_backend_failure)
         (thenM (throw_if (plaintext_size \<noteq> ciphertext_size) aead_backend_failure)
                (ret (overwrite plaintext out))))))"

definition decryptor_update_mem ::
  "('w, 'c, 'd) openssl \<Rightarrow> bytes \<Rightarrow> (error, ('c, 'w) stream_state memory, bytes) act" where
  "decryptor_update_mem ossl ciphertext = with_impl_mem ''packet decryptor has no state''
    (thenM (on_fst (require_phase active ''packet decryptor update() requires begin() before finalize()''))
           (on_context_mem (decrypt_update_mem ossl ciphertext)))"

definition encrypt_mem ::
  "('w, 'c, 'd) openssl \<Rightarrow> (bytes \<Rightarrow> bytes) \<Rightarrow> bytes \<Rightarrow> key256 \<Rightarrow> bytes \<Rightarrow> (error, 'w memory, bytes) act" where
  "encrypt_mem ossl cleanse plaintext key aad =
     with_object_mem cleanse key aad
       (bindM (on_fst (encryptor_begin ossl)) (\<lambda>packet.
        bindM (on_fst (encryptor_update ossl plaintext)) (\<lambda>ciphertext.
        bindM (on_fst (encryptor_finalize ossl)) (\<lambda>tag.
        ret (packet @ ciphertext @ tag)))))"

text \<open>
  \<^verbatim>\<open>plaintext.insert\<close> gives back the old storage of the plaintext as it is when there is something to insert.
\<close>

definition decrypt_mem ::
  "('w, 'c, 'd) openssl \<Rightarrow> (bytes \<Rightarrow> bytes) \<Rightarrow> bytes \<Rightarrow> key256 \<Rightarrow> bytes \<Rightarrow> (error, 'w memory, bytes) act" where
  "decrypt_mem ossl cleanse packet key aad =
     thenM (require_valid_packet packet)
    (let packet_prefix = take kPrefixSize packet;
         ciphertext = take (length packet - kOverhead) (drop kPrefixSize packet);
         tag = drop (length packet - kTagSize) packet in
     with_object_mem cleanse key aad
       (thenM (on_fst (decryptor_begin ossl packet_prefix))
       (bindM (decryptor_update_mem ossl ciphertext) (\<lambda>plaintext.
        bindM (on_throw (on_fst (decryptor_finalize ossl tag)) (free (secure_wipe cleanse plaintext))) (\<lambda>trailing.
        wipe_on_exit cleanse trailing
          (thenM (if trailing = [] then ret () else modify (free plaintext))
                 (ret (plaintext @ trailing))))))))"

definition wrap_key_mem ::
  "('w, 'c, 'd) openssl \<Rightarrow> (bytes \<Rightarrow> bytes) \<Rightarrow> key256 \<Rightarrow> key256 \<Rightarrow> bytes \<Rightarrow> (error, 'w memory, bytes) act" where
  "wrap_key_mem ossl cleanse key_to_wrap wrapping_key aad = encrypt_mem ossl cleanse key_to_wrap wrapping_key aad"

definition unwrap_key_mem ::
  "('w, 'c, 'd) openssl \<Rightarrow> (bytes \<Rightarrow> bytes) \<Rightarrow> bytes \<Rightarrow> key256 \<Rightarrow> bytes \<Rightarrow> (error, 'w memory, key256) act" where
  "unwrap_key_mem ossl cleanse packet wrapping_key aad =
     bindM (decrypt_mem ossl cleanse packet wrapping_key aad) (\<lambda>key_bytes.
     wipe_on_exit cleanse key_bytes
       (thenM (throw_if (length key_bytes \<noteq> 32) (Error invalid_packet ''Invalid wrapped key packet''))
              (ret key_bytes)))"

section \<open>Packets: lemmas\<close>

text \<open>The errors after which storage may hold secrets: OpenSSL has failed, or the constructor has thrown.\<close>

definition packet_untidy :: "error \<Rightarrow> bool" where
  "packet_untidy e \<longleftrightarrow> e = aead_backend_failure \<or> e = Error invalid_input ''AAD exceeds OpenSSL update limit''"

lemma tidy_with_impl [tidy_intros]:
  assumes "tidy E m' m"
  shows "tidy E (with_impl_mem no_state m') (with_impl no_state m)"
proof (rule tidyI)
  fix s :: "'a stream_impl option \<times> 'b" and freed r t
  assume run: "with_impl no_state m s = (r, t)"
  obtain this w where s: "s = (this, w)" by fastforce
  show "\<exists>new. with_impl_mem no_state m' (s, freed) = (r, (t, freed @ new)) \<and>
      ((\<exists>e. r = Inl e \<and> E e) \<or> (\<forall>b \<in> set new. wiped b))"
  proof (cases this)
    case (Some i)
    obtain r1 t1 new where "m (i, w) = (r1, t1)" "m' ((i, w), freed) = (r1, (t1, freed @ new))"
      "(\<exists>e. r1 = Inl e \<and> E e) \<or> (\<forall>b \<in> set new. wiped b)" by (rule tidyE [OF assms])
    then show ?thesis using run Some s by (cases t1) (auto simp: with_impl_def with_impl_mem_def)
  qed (use run s in \<open>auto simp: with_impl_def with_impl_mem_def\<close>)
qed

lemma tidy_on_context [tidy_intros]:
  assumes "tidy E m' m"
  shows "tidy E (on_context_mem m') (on_context m)"
proof (rule tidyI)
  fix s :: "'a stream_impl \<times> 'c" and freed r t
  assume run: "on_context m s = (r, t)"
  obtain i w where s: "s = (i, w)" by fastforce
  show "\<exists>new. on_context_mem m' (s, freed) = (r, (t, freed @ new)) \<and>
      ((\<exists>e. r = Inl e \<and> E e) \<or> (\<forall>b \<in> set new. wiped b))"
  proof (cases "impl_context i")
    case (Some c)
    obtain r1 t1 new where "m c = (r1, t1)" "m' (c, freed) = (r1, (t1, freed @ new))"
      "(\<exists>e. r1 = Inl e \<and> E e) \<or> (\<forall>b \<in> set new. wiped b)" by (rule tidyE [OF assms])
    then show ?thesis using run Some s by (auto simp: on_context_def on_context_mem_def)
  qed (use run s in \<open>auto simp: on_context_def on_context_mem_def\<close>)
qed

lemma tidy_with_object [tidy_intros]:
  fixes m :: "(error, ('c, 'w) stream_state, 'a) act"
  assumes c: "cleanse_documented cleanse" and m: "tidy packet_untidy m' m"
  shows "tidy packet_untidy (with_object_mem cleanse key aad m') (with_object (stream_new key aad) m)"
proof (rule tidyI)
  fix w freed r t
  assume run: "with_object (stream_new key aad) m w = (r, t)"
  show "\<exists>new. with_object_mem cleanse key aad m' (w, freed) = (r, (t, freed @ new)) \<and>
      ((\<exists>e. r = Inl e \<and> packet_untidy e) \<or> (\<forall>b \<in> set new. wiped b))"
  proof (cases "stream_new key aad :: 'c stream_impl option result")
    case (Inl e)
    then have "packet_untidy e" by (auto simp: stream_new_def packet_untidy_def split: if_splits)
    then show ?thesis using run Inl by (auto simp: with_object_def with_object_mem_def free_def)
  next
    case (Inr this)
    obtain r1 t1 new where 0: "m (this, w) = (r1, t1)" "m' ((this, w), freed) = (r1, (t1, freed @ new))"
      "(\<exists>e. r1 = Inl e \<and> packet_untidy e) \<or> (\<forall>b \<in> set new. wiped b)" by (rule tidyE [OF m])
    obtain this1 w1 where t1: "t1 = (this1, w1)" by fastforce
    note 1 = 0 [unfolded t1]
    define left where "left = (case this1 of None \<Rightarrow> []
      | Some i \<Rightarrow> [secure_wipe cleanse (impl_aad i), secure_wipe cleanse (impl_key i)])"
    have "\<forall>b \<in> set left. wiped b" using wiped_secure_wipe [OF c] by (auto simp: left_def split: option.splits)
    then show ?thesis
      using run Inr 1 by (intro exI [of _ "new @ left"])
        (auto simp: with_object_def with_object_mem_def destroy_impl_def free_def left_def split: option.splits)
  qed
qed

lemma tidy_decrypt_update [tidy_intros]: "tidy packet_untidy (decrypt_update_mem ossl ciphertext) (decrypt_update ossl ciphertext)"
  unfolding decrypt_update_mem_def decrypt_update_def Let_def
  by (intro tidy_intros) (auto intro!: tidy_freeing tidy_intros simp: packet_untidy_def act_simps split: if_splits)

lemma tidy_decryptor_update [tidy_intros]:
  "tidy packet_untidy (decryptor_update_mem ossl ciphertext) (decryptor_update ossl ciphertext)"
  unfolding decryptor_update_mem_def decryptor_update_def by (intro tidy_intros)

text \<open>The final call writes nothing: GCM has no padding.\<close>

definition gcm_final_documented :: "('w, 'c, 'd) openssl \<Rightarrow> bool" where
  "gcm_final_documented ossl \<longleftrightarrow> (\<forall>c out n c'. EVP_DecryptFinal_ex ossl c = ((1, out, n), c') \<longrightarrow> n = 0)"

lemma finalize_trailing:
  assumes "gcm_final_documented ossl" and "decryptor_finalize ossl tag s = (Inr trailing, t)"
  shows "trailing = []"
proof -
  obtain this w where s: "s = (this, w)" by fastforce
  have "wp (decryptor_finalize ossl tag) (\<lambda>trailing _. trailing = []) (\<lambda>_ _. True) (this, w)"
    using assms(1) unfolding decryptor_finalize_def Let_def
    by (cases this) (simp add: with_impl_def wp_def, auto simp: wp_simps gcm_final_documented_def)
  from wp_InrD [OF this assms(2) [unfolded s]] show ?thesis .
qed

lemma tidy_wipe_on_throw:
  assumes c: "cleanse_documented cleanse" and m: "tidy E m' m"
  shows "tidy E (on_throw m' (free (secure_wipe cleanse b))) m"
  using tidy_freeing [OF m, of "secure_wipe cleanse b"] wiped_secure_wipe [OF c] unfolding freeing_def by blast

lemma tidy_packets [tidy_intros]:
  assumes c: "cleanse_documented cleanse"
  shows "tidy packet_untidy (encrypt_mem ossl cleanse plaintext key aad) (encrypt ossl plaintext key aad)"
    and "gcm_final_documented ossl \<Longrightarrow> tidy packet_untidy (decrypt_mem ossl cleanse packet key aad) (decrypt ossl packet key aad)"
proof -
  show "tidy packet_untidy (encrypt_mem ossl cleanse plaintext key aad) (encrypt ossl plaintext key aad)"
    unfolding encrypt_mem_def encrypt_def by (intro tidy_intros c)
  assume final: "gcm_final_documented ossl"
  have valid: "tidy E (require_valid_packet packet) (require_valid_packet packet)" for E
    unfolding require_valid_packet_def require_valid_prefix_def by (intro tidy_intros)
  have rest: "tidy E (wipe_on_exit cleanse trailing
      (thenM (if trailing = [] then ret () else modify (free plaintext)) (ret (plaintext @ trailing)))) (ret (plaintext @ trailing))"
    if "decryptor_finalize ossl tag s = (Inr trailing, t)" for E plaintext trailing tag s t
    using finalize_trailing [OF final that]
    by (intro tidy_wipe_on_exit [OF c]) (auto intro!: tidyI simp: thenM_apply)
  show "tidy packet_untidy (decrypt_mem ossl cleanse packet key aad) (decrypt ossl packet key aad)"
    unfolding decrypt_mem_def decrypt_def Let_def
    by (intro tidy_thenM tidy_with_object [OF c] tidy_on_fst valid tidy_bindM [OF tidy_decryptor_update]
        tidy_bindM_result [OF tidy_wipe_on_throw [OF c tidy_on_fst]] rest)
qed

section \<open>A packet with a wrong tag, step by step\<close>

lemma sample_begin:
  assumes "length nonce = 12" and "length key = 32"
  shows "decryptor_begin sample_ossl ([0x53, 0x4b, 0x54, 0x31, 1] @ nonce) (Some \<lparr>impl_key = key, impl_aad = [3], impl_context = None, impl_phase = ready\<rparr>, w) =
    (Inr (), (Some \<lparr>impl_key = key, impl_aad = [3], impl_context = Some (Running Decrypting key nonce [0x53, 0x4b, 0x54, 0x31, 1, 3] [] None),
       impl_phase = active\<rparr>, w))"
  using assms
  by (simp add: decryptor_begin_def act_simps with_impl_def require_phase_def require_valid_prefix_def kMagic_def kVersion_def
    make_context_def set_context_def set_phase_def on_context_def initialize_decrypt_context_def update_aad_def update_size_def check_update_size_def int_max_def
    on_snd_def Let_def)

lemma sample_update:
  "decryptor_update_mem sample_ossl [5, 6] ((Some \<lparr>impl_key = key, impl_aad = aad, impl_context = Some (Running Decrypting key nonce aa [] None),
      impl_phase = active\<rparr>, w), freed) =
    (Inr (crypt (sample_ks key nonce) 0 [5, 6]), ((Some \<lparr>impl_key = key, impl_aad = aad, impl_context = Some (Running Decrypting key nonce aa [5, 6] None),
       impl_phase = active\<rparr>, w), freed))"
  by (simp add: decryptor_update_mem_def with_impl_mem_def require_phase_def on_context_mem_def decrypt_update_mem_def update_size_def
     check_update_size_def int_max_def act_simps on_fst_def freeing_def overwrite_def Let_def)

lemma sample_finalize:
  assumes "length tag = 16" and "tag \<noteq> sample_tag key nonce aa ct"
  shows "decryptor_finalize sample_ossl tag (Some \<lparr>impl_key = key, impl_aad = aad, impl_context = Some (Running Decrypting key nonce aa ct None),
      impl_phase = active\<rparr>, w) =
    (Inl aead_authentication_failed, (Some \<lparr>impl_key = key, impl_aad = aad, impl_context = None, impl_phase = finished\<rparr>, w))"
  using assms
  by (simp add: decryptor_finalize_def with_impl_def require_phase_def on_context_def finish_def set_context_def set_phase_def act_simps)
lemma tampered_packet_freed:
  assumes "length nonce = 12" and "length key = 32" and "length tag = 16" and "tag \<noteq> sample_tag key nonce [0x53, 0x4b, 0x54, 0x31, 1, 3] [5, 6]"
  shows "decrypt_mem sample_ossl (\<lambda>b. replicate (length b) 0) ([0x53, 0x4b, 0x54, 0x31, 1] @ nonce @ [5, 6] @ tag) key [3] (w, []) =
    (Inl aead_authentication_failed, (w, [[0, 0], [0], replicate 32 0]))"
proof -
  have new: "stream_new key [3] = Inr (Some \<lparr>impl_key = key, impl_aad = [3], impl_context = None, impl_phase = ready\<rparr>)"
    by (simp add: stream_new_def int_max_def)
  show ?thesis
    using assms(1-3) length_0_conv [of key] sample_begin [OF assms(1, 2)] sample_finalize [OF assms(3, 4)]
    by (simp add: decrypt_mem_def require_valid_packet_def require_valid_prefix_def kMagic_def kVersion_def with_object_mem_def new
        sample_update act_simps on_fst_def destroy_impl_def secure_wipe_def free_def)
qed

section \<open>Properties\<close>

text \<open>
  C17: The storage of secrets, for packets and wrapped keys. The functions with the record of what is
  given back do what the functions do, and whenever they return, reject a packet, or find it not to be authentic,
  every key, every copy of additional data and every byte of recovered plaintext they have given back
  was overwritten with zeros before. The exceptions are the errors in \<open>packet_untidy\<close>.
\<close>

theorem packets_wiped:
  assumes "cleanse_documented cleanse" and "gcm_final_documented ossl"
  shows "tidy packet_untidy (encrypt_mem ossl cleanse plaintext key aad) (encrypt ossl plaintext key aad) \<and>
    tidy packet_untidy (decrypt_mem ossl cleanse packet key aad) (decrypt ossl packet key aad) \<and>
    tidy packet_untidy (wrap_key_mem ossl cleanse k key aad) (wrap_key ossl k key aad) \<and>
    tidy packet_untidy (unwrap_key_mem ossl cleanse packet key aad) (unwrap_key ossl packet key aad)"
  unfolding wrap_key_mem_def wrap_key_def unwrap_key_mem_def unwrap_key_def
  by (intro conjI tidy_intros assms)

theorem packets_wiped_witness:
  "let packet = [0x53, 0x4b, 0x54, 0x31, 1] @ replicate 12 0 @ [5, 6] @ replicate 16 9; key = replicate 32 1;
       run = decrypt_mem sample_ossl (\<lambda>b. replicate (length b) 0) packet key [3]
   in run (0, []) = (Inl aead_authentication_failed, (0, [[0, 0], [0], replicate 32 0])) \<and>
      tidy packet_untidy run (decrypt sample_ossl packet key [3])"
proof -
  have "cleanse_documented (\<lambda>b. replicate (length b) 0)" by (simp add: cleanse_documented_def)
  moreover have "gcm_final_documented sample_ossl"
  proof -
    have "sample_decrypt_final v = ((1, out, n), v') \<Longrightarrow> n = 0" for v out n v'
      by (cases v rule: sample_decrypt_final.cases) (auto split: if_splits)
    then show ?thesis by (auto simp: gcm_final_documented_def sample_ossl_def)
  qed
  moreover have "replicate 16 9 \<noteq> sample_tag (replicate 32 1) (replicate 12 0) [0x53, 0x4b, 0x54, 0x31, 1, 3] [5, 6]"
  proof
    assume "replicate 16 9 = sample_tag (replicate 32 1) (replicate 12 0) [0x53, 0x4b, 0x54, 0x31, 1, 3] [5, 6]" (is "?l = ?r")
    then have "?l ! 0 = ?r ! 0" "?l ! 1 = ?r ! 1" by simp_all
    moreover have "?r ! 1 = ?r ! 0 + 1" by (simp add: sample_tag_def)
    moreover have "?l ! 0 = 9" "?l ! 1 = 9" by simp_all
    ultimately show False by simp
  qed
  ultimately show ?thesis
    unfolding Let_def
    using packets_wiped [of "\<lambda>b. replicate (length b) 0" sample_ossl]
      tampered_packet_freed [of "replicate 12 0" "replicate 32 1" "replicate 16 9" 0]
    by (intro conjI) (simp_all del: replicate.simps replicate_Suc add: length_replicate)
qed

end
