(* ===== verification/Iostream.thy ===== *)
theory Iostream
  imports Prelude
begin

text \<open>
  What the code uses of the C++ stream library: unformatted input with its state bits
  (\<^verbatim>\<open>read\<close>, \<^verbatim>\<open>gcount\<close>, \<^verbatim>\<open>peek\<close>), unformatted output
  (\<^verbatim>\<open>write\<close>), and the helpers of \<^verbatim>\<open>src/file_io.cpp\<close> over them.
\<close>

section \<open>Streams\<close>

text \<open>
  An input stream: the bytes the source has left; whether it ends in a read fault
  instead of an end of file; the state bits; the count of the last unformatted input.
\<close>

record istream =
  remaining :: bytes
  faulty :: bool
  eofbit :: bool
  failbit :: bool
  badbit :: bool
  gcount :: nat

definition istream_of :: "bytes \<Rightarrow> istream" where
  "istream_of data =
     \<lparr>remaining = data, faulty = False, eofbit = False, failbit = False, badbit = False, gcount = 0\<rparr>"

definition good :: "istream \<Rightarrow> bool" where
  "good s \<longleftrightarrow> \<not> eofbit s \<and> \<not> failbit s \<and> \<not> badbit s"

text \<open>\<^verbatim>\<open>fail()\<close> reports the fail bit or the bad bit.\<close>

definition stream_fail :: "istream \<Rightarrow> bool" where
  "stream_fail s \<longleftrightarrow> failbit s \<or> badbit s"

text \<open>
  \<^verbatim>\<open>read(p, n)\<close>: nothing but the fail bit when the stream is not good; otherwise up
  to \<open>n\<close> bytes, and when there are fewer, either the bad bit (fault) or end and fail bits.
\<close>

definition istream_read :: "nat \<Rightarrow> istream \<Rightarrow> bytes \<times> istream" where
  "istream_read n s =
     (if \<not> good s then ([], s\<lparr>failbit := True, gcount := 0\<rparr>)
      else
        let data = take n (remaining s);
            s' = s\<lparr>remaining := drop n (remaining s), gcount := length data\<rparr>
        in (data,
            if length data = n then s'
            else if faulty s then s'\<lparr>badbit := True\<rparr>
            else s'\<lparr>eofbit := True, failbit := True\<rparr>))"

text \<open>\<^verbatim>\<open>peek()\<close>: whether it returned \<^verbatim>\<open>eof\<close>.\<close>

definition istream_peek_eof :: "istream \<Rightarrow> bool \<times> istream" where
  "istream_peek_eof s =
     (if \<not> good s then (True, s\<lparr>failbit := True, gcount := 0\<rparr>)
      else if remaining s \<noteq> [] then (False, s\<lparr>gcount := 0\<rparr>)
      else if faulty s then (True, s\<lparr>badbit := True, gcount := 0\<rparr>)
      else (True, s\<lparr>eofbit := True, gcount := 0\<rparr>))"

text \<open>
  An output stream: what has been written; how many more bytes the device takes
  (\<open>None\<close> if it never refuses); whether the stream has failed.
\<close>

record ostream =
  written :: bytes
  room :: "nat option"
  ofail :: bool

definition ostream_empty :: ostream where
  "ostream_empty = \<lparr>written = [], room = None, ofail = False\<rparr>"

definition ostream_write :: "bytes \<Rightarrow> ostream \<Rightarrow> ostream" where
  "ostream_write data s =
     (if ofail s then s
      else case room s of
          None \<Rightarrow> s\<lparr>written := written s @ data\<rparr>
        | Some n \<Rightarrow>
            if length data \<le> n then s\<lparr>written := written s @ data, room := Some (n - length data)\<rparr>
            else s\<lparr>written := written s @ take n data, room := Some 0, ofail := True\<rparr>)"

section \<open>Helpers of file\_io.cpp\<close>

definition file_backend_failure :: "string \<Rightarrow> error" where
  "file_backend_failure message = Error backend_failure message"

definition file_invalid_packet :: error where
  "file_invalid_packet = Error invalid_packet ''Invalid file sealing packet''"

text \<open>\<^verbatim>\<open>write_all(std::ostream &, ...)\<close>\<close>

definition write_all_stream :: "bytes \<Rightarrow> (error, ostream, unit) act" where
  "write_all_stream data =
     thenM (modify (ostream_write data))
    (bindM (gets ofail) (\<lambda>failed. throw_if failed (file_backend_failure ''File write failed'')))"

text \<open>The bytes read, or \<open>None\<close> where the code returns \<^verbatim>\<open>false\<close>.\<close>

definition read_exact :: "nat \<Rightarrow> (error, istream, bytes option) act" where
  "read_exact n =
     bindM (call (istream_read n)) (\<lambda>data.
     bindM (gets (\<lambda>s. s)) (\<lambda>s.
     if gcount s = n then ret (Some data)
     else thenM (throw_if (badbit s \<or> \<not> eofbit s \<and> stream_fail s) (file_backend_failure ''File read failed''))
                (ret None)))"

definition reject_trailing_data :: "(error, istream, unit) act" where
  "reject_trailing_data =
     bindM (call (istream_read 1)) (\<lambda>_.
     bindM (gets (\<lambda>s. s)) (\<lambda>s.
     thenM (throw_if (gcount s \<noteq> 0) file_invalid_packet)
           (throw_if (badbit s \<or> \<not> eofbit s \<and> stream_fail s) (file_backend_failure ''File read failed''))))"

section \<open>Lemmas\<close>

lemma istream_of_good [simp]: "good (istream_of data)"
  by (simp add: good_def istream_of_def)

lemma istream_of_simps [simp]: "remaining (istream_of data) = data" "faulty (istream_of data) = False"
  by (simp_all add: istream_of_def)

lemma istream_read_full:
  assumes "good s" and "n \<le> length (remaining s)"
  shows "istream_read n s =
    (take n (remaining s), s\<lparr>remaining := drop n (remaining s), gcount := n\<rparr>)"
  using assms by (simp add: istream_read_def min_def)

lemma good_update [simp]: "good (s\<lparr>remaining := r\<rparr>) = good s" "good (s\<lparr>gcount := n\<rparr>) = good s"
  by (simp_all add: good_def)

text \<open>
  \<open>read_exact\<close> splits the input: a full read takes exactly \<open>n\<close> bytes off the front.
\<close>

lemma read_exact_ok:
  assumes "good s" and "n \<le> length (remaining s)"
  shows "read_exact n s =
    (Inr (Some (take n (remaining s))), s\<lparr>remaining := drop n (remaining s), gcount := n\<rparr>)"
  using assms by (simp add: read_exact_def act_simps istream_read_full)

lemma read_exact_Some:
  assumes "read_exact n s = (Inr (Some data), s')" and "good s"
  shows "remaining s = data @ remaining s' \<and> length data = n \<and> good s' \<and> faulty s' = faulty s"
proof (cases "n \<le> length (remaining s)")
  case True
  with read_exact_ok [OF assms(2) True] assms(1)
  have "data = take n (remaining s)" "s' = s\<lparr>remaining := drop n (remaining s), gcount := n\<rparr>" by simp_all
  then show ?thesis using True assms(2) by (simp add: good_def)
next
  case False
  then show ?thesis using assms
    by (auto simp: read_exact_def istream_read_def act_simps Let_def split: if_splits)
qed

lemma read_exact_short:
  assumes "good s" and "length (remaining s) < n" and "\<not> faulty s"
  shows "\<exists>s'. read_exact n s = (Inr None, s')"
  using assms by (auto simp: read_exact_def act_simps istream_read_def Let_def good_def)

lemma read_exact_Inl:
  "read_exact n s = (Inl e, s') \<Longrightarrow> e = file_backend_failure ''File read failed'' \<and> (good s \<longrightarrow> faulty s)"
  by (auto simp: read_exact_def act_simps istream_read_def Let_def good_def split: if_splits prod.splits)

lemma reject_trailing_data_Inr:
  assumes "reject_trailing_data s = (Inr u, s')" and "good s"
  shows "remaining s = [] \<and> \<not> faulty s"
  using assms
  by (cases "remaining s")
    (auto simp: reject_trailing_data_def act_simps istream_read_def Let_def good_def stream_fail_def split: if_splits)

lemma reject_trailing_data_ok:
  assumes "remaining s = []" and "\<not> faulty s" and "good s"
  shows "\<exists>s'. reject_trailing_data s = (Inr (), s')"
  using assms by (auto simp: reject_trailing_data_def act_simps istream_read_def Let_def good_def stream_fail_def)

lemma reject_trailing_data_Inl:
  "reject_trailing_data s = (Inl e, s') \<Longrightarrow> good s \<Longrightarrow>
     e = file_invalid_packet \<and> remaining s \<noteq> [] \<or> e = file_backend_failure ''File read failed'' \<and> faulty s"
  by (cases "remaining s")
    (auto simp: reject_trailing_data_def act_simps istream_read_def Let_def good_def stream_fail_def split: if_splits)

end
