(* ===== verification/File_System.thy ===== *)
theory File_System
  imports Iostream
begin

text \<open>
  What the code uses of the POSIX file interface and of C standard I/O: directory entries
  that point to files, exclusive creation, hard links, removal, \<^verbatim>\<open>fsync\<close> and
  buffered \<^verbatim>\<open>FILE\<close> output. Every call takes one tick of a clock. Whether it
  fails, how much a failing write accepted, how much of a buffer has reached the file, after how
  many bytes a stream it opens breaks, and which files other programs create just before it are
  functions of the tick, about which nothing is
  assumed: a theorem for every file system is a theorem for every fault (a crash from some tick
  on included) and for every interleaving with programs that create files.
\<close>

section \<open>State\<close>

type_synonym path = string

text \<open>
  A file is named by who created it: this program or another one. \<open>synced\<close> is the content a
  file had at its last \<^verbatim>\<open>fsync\<close>, \<open>durable\<close> the entry a name had when its
  directory was last synchronized.
\<close>

datatype file_id = Own nat | Foreign nat

record file_system =
  entries :: "path \<Rightarrow> file_id option"
  contents :: "file_id \<Rightarrow> bytes"
  synced :: "file_id \<Rightarrow> bytes option"
  durable :: "path \<Rightarrow> file_id option"
  next_own :: nat
  next_foreign :: nat
  clock :: nat
  faults :: "nat \<Rightarrow> bool"
  accepts :: "nat \<Rightarrow> nat"
  drains :: "nat \<Rightarrow> nat"
  stream_limit :: "nat \<Rightarrow> nat option"
  others :: "nat \<Rightarrow> (path \<times> bytes) list"

definition new_file :: "path \<Rightarrow> bytes \<Rightarrow> file_id \<Rightarrow> file_system \<Rightarrow> file_system" where
  "new_file p b n fs =
     fs\<lparr>entries := (entries fs)(p \<mapsto> n), contents := (contents fs)(n := b), synced := (synced fs)(n := None)\<rparr>"

text \<open>Another program creates a file, if the name is free.\<close>

definition arrive :: "path \<times> bytes \<Rightarrow> file_system \<Rightarrow> file_system" where
  "arrive = (\<lambda>(p, b) fs.
     if entries fs p = None
     then (new_file p b (Foreign (next_foreign fs)) fs)\<lparr>next_foreign := Suc (next_foreign fs)\<rparr>
     else fs)"

text \<open>A call: the others act, the clock moves on; the result is whether the call is to fail.\<close>

definition syscall :: "file_system \<Rightarrow> bool \<times> file_system" where
  "syscall fs =
     (faults fs (clock fs), (fold arrive (others fs (clock fs)) fs)\<lparr>clock := Suc (clock fs)\<rparr>)"

section \<open>Calls\<close>

datatype errno = EEXIST | other_errno

text \<open>\<^verbatim>\<open>open(path, O_WRONLY | O_CREAT | O_EXCL)\<close>: the file created.\<close>

definition sys_open_excl :: "path \<Rightarrow> file_system \<Rightarrow> (errno + nat) \<times> file_system" where
  "sys_open_excl p fs =
     (case syscall fs of (failed, fs1) \<Rightarrow>
        if failed then (Inl other_errno, fs1)
        else if entries fs1 p \<noteq> None then (Inl EEXIST, fs1)
        else (Inr (next_own fs1), (new_file p [] (Own (next_own fs1)) fs1)\<lparr>next_own := Suc (next_own fs1)\<rparr>))"

text \<open>Calls whose only visible effect is that they succeed or not: \<^verbatim>\<open>fdopen\<close>, \<^verbatim>\<open>close\<close>, opening a directory.\<close>

definition sys_plain :: "file_system \<Rightarrow> bool \<times> file_system" where
  "sys_plain fs = (case syscall fs of (failed, fs1) \<Rightarrow> (\<not> failed, fs1))"

text \<open>
  A \<^verbatim>\<open>FILE\<close> is the file of this program it writes to and the bytes still in its buffer. At the end
  of a call the first \<open>drains\<close> bytes of the buffer have reached the file.
\<close>

type_synonym stdio = "nat \<times> bytes"

definition drain :: "nat \<Rightarrow> stdio \<Rightarrow> file_system \<Rightarrow> stdio \<times> file_system" where
  "drain k = (\<lambda>(n, buffer) fs.
     ((n, drop k buffer), fs\<lparr>contents := (contents fs)(Own n := contents fs (Own n) @ take k buffer)\<rparr>))"

text \<open>\<^verbatim>\<open>fwrite(data, 1, size, file)\<close>: the number of bytes accepted.\<close>

definition stdio_fwrite :: "bytes \<Rightarrow> stdio \<Rightarrow> file_system \<Rightarrow> nat \<times> stdio \<times> file_system" where
  "stdio_fwrite data file fs =
     (let t = clock fs in
      case syscall fs of (failed, fs1) \<Rightarrow>
        let k = if failed then min (accepts fs t) (length data - 1) else length data
        in (k, drain (drains fs t) (fst file, snd file @ take k data) fs1))"

text \<open>\<^verbatim>\<open>fflush\<close> and \<^verbatim>\<open>fclose\<close>: whether everything has reached the file.\<close>

definition stdio_fflush :: "stdio \<Rightarrow> file_system \<Rightarrow> bool \<times> stdio \<times> file_system" where
  "stdio_fflush file fs =
     (let t = clock fs in
      case syscall fs of (failed, fs1) \<Rightarrow>
        (\<not> failed, drain (if failed then drains fs t else length (snd file)) file fs1))"

definition stdio_fclose :: "stdio \<Rightarrow> file_system \<Rightarrow> bool \<times> file_system" where
  "stdio_fclose file fs = (case stdio_fflush file fs of (ok, _, fs1) \<Rightarrow> (ok, fs1))"

definition sys_fsync :: "nat \<Rightarrow> file_system \<Rightarrow> bool \<times> file_system" where
  "sys_fsync n fs =
     (case syscall fs of (failed, fs1) \<Rightarrow>
        if failed then (False, fs1) else (True, fs1\<lparr>synced := (synced fs1)(Own n \<mapsto> contents fs1 (Own n))\<rparr>))"

text \<open>\<^verbatim>\<open>std::filesystem::exists\<close> with an error code: \<open>None\<close> when the code is set.\<close>

definition fs_exists :: "path \<Rightarrow> file_system \<Rightarrow> bool option \<times> file_system" where
  "fs_exists p fs =
     (case syscall fs of (failed, fs1) \<Rightarrow> (if failed then None else Some (entries fs1 p \<noteq> None), fs1))"

definition fs_remove :: "path \<Rightarrow> file_system \<Rightarrow> file_system" where
  "fs_remove p fs =
     (case syscall fs of (failed, fs1) \<Rightarrow> if failed then fs1 else fs1\<lparr>entries := (entries fs1)(p := None)\<rparr>)"

text \<open>\<^verbatim>\<open>link(old, new)\<close>: \<open>None\<close> for success.\<close>

definition sys_link :: "path \<Rightarrow> path \<Rightarrow> file_system \<Rightarrow> errno option \<times> file_system" where
  "sys_link old new fs =
     (case syscall fs of (failed, fs1) \<Rightarrow>
        if failed \<or> entries fs1 old = None then (Some other_errno, fs1)
        else if entries fs1 new \<noteq> None then (Some EEXIST, fs1)
        else (None, fs1\<lparr>entries := (entries fs1)(new := entries fs1 old)\<rparr>))"

text \<open>
  \<^verbatim>\<open>std::filesystem::path::parent_path\<close> of a POSIX path: up to the last separators,
  which stay only when they are the root.
\<close>

definition parent_path :: "path \<Rightarrow> path" where
  "parent_path p =
     (let upto = rev (dropWhile (\<lambda>c. c \<noteq> CHR 0x2F) (rev p));
          parent = rev (dropWhile (\<lambda>c. c = CHR 0x2F) (rev upto))
      in if parent = [] then upto else parent)"

definition directory_of :: "path \<Rightarrow> path" where
  "directory_of p = (if parent_path p = [] then ''.'' else parent_path p)"

definition sys_fsync_dir :: "path \<Rightarrow> file_system \<Rightarrow> bool \<times> file_system" where
  "sys_fsync_dir d fs =
     (case syscall fs of (failed, fs1) \<Rightarrow>
        if failed then (False, fs1)
        else (True, fs1\<lparr>durable := (\<lambda>p. if directory_of p = d then entries fs1 p else durable fs1 p)\<rparr>))"

text \<open>\<^verbatim>\<open>std::ifstream\<close>: \<open>None\<close> if it cannot be opened.\<close>

definition ifstream_open :: "path \<Rightarrow> file_system \<Rightarrow> istream option \<times> file_system" where
  "ifstream_open p fs =
     (let t = clock fs in
      case syscall fs of (failed, fs1) \<Rightarrow>
        (case entries fs1 p of
           None \<Rightarrow> (None, fs1)
         | Some n \<Rightarrow>
             if failed then (None, fs1)
             else (case stream_limit fs t of
                     None \<Rightarrow> (Some (istream_of (contents fs1 n)), fs1)
                   | Some k \<Rightarrow> (Some ((istream_of (take k (contents fs1 n)))\<lparr>faulty := True\<rparr>), fs1))))"

section \<open>Lemmas\<close>

text \<open>What other programs can do between two calls.\<close>

definition arrived :: "file_system \<Rightarrow> file_system \<Rightarrow> bool" where
  "arrived fs fs' \<longleftrightarrow>
     (\<forall>p n. entries fs p = Some n \<longrightarrow> entries fs' p = Some n) \<and>
     (\<forall>p n. entries fs' p = Some n \<longrightarrow> entries fs p = Some n \<or>
        (\<exists>k. n = Foreign k \<and> next_foreign fs \<le> k \<and> k < next_foreign fs') \<and> (\<exists>t b. (p, b) \<in> set (others fs t))) \<and>
     (\<forall>n. contents fs' (Own n) = contents fs (Own n) \<and> synced fs' (Own n) = synced fs (Own n)) \<and>
     (\<forall>n < next_foreign fs. contents fs' (Foreign n) = contents fs (Foreign n)) \<and>
     durable fs' = durable fs \<and> next_own fs' = next_own fs \<and> next_foreign fs \<le> next_foreign fs' \<and>
     clock fs \<le> clock fs' \<and> faults fs' = faults fs \<and> others fs' = others fs \<and>
     stream_limit fs' = stream_limit fs"

lemma arrived_refl [simp]: "arrived fs fs"
  by (simp add: arrived_def)

lemma arrived_entry: "arrived fs fs' \<Longrightarrow> entries fs p = Some m \<Longrightarrow> entries fs' p = Some m"
  by (simp add: arrived_def)

lemma arrived_new:
  "arrived fs fs' \<Longrightarrow> entries fs' p = Some n \<Longrightarrow> entries fs p = Some n \<or>
     (\<exists>k. n = Foreign k \<and> next_foreign fs \<le> k \<and> k < next_foreign fs') \<and> (\<exists>t b. (p, b) \<in> set (others fs t))"
  by (simp add: arrived_def)

lemma arrived_own:
  "arrived fs fs' \<Longrightarrow> contents fs' (Own n) = contents fs (Own n)"
  "arrived fs fs' \<Longrightarrow> synced fs' (Own n) = synced fs (Own n)"
  "arrived fs fs' \<Longrightarrow> durable fs' = durable fs" "arrived fs fs' \<Longrightarrow> next_own fs' = next_own fs"
  by (simp_all add: arrived_def)

lemma arrived_rest:
  "arrived fs fs' \<Longrightarrow> k < next_foreign fs \<Longrightarrow> contents fs' (Foreign k) = contents fs (Foreign k)"
  "arrived fs fs' \<Longrightarrow> next_foreign fs \<le> next_foreign fs'" "arrived fs fs' \<Longrightarrow> clock fs \<le> clock fs'"
  "arrived fs fs' \<Longrightarrow> faults fs' = faults fs" "arrived fs fs' \<Longrightarrow> others fs' = others fs"
  "arrived fs fs' \<Longrightarrow> stream_limit fs' = stream_limit fs"
  by (simp_all add: arrived_def)

lemma arrived_trans:
  assumes a: "arrived fs fs'" and b: "arrived fs' fs''"
  shows "arrived fs fs''"
proof -
  have "entries fs p = Some n \<or>
      (\<exists>k. n = Foreign k \<and> next_foreign fs \<le> k \<and> k < next_foreign fs'') \<and> (\<exists>t b. (p, b) \<in> set (others fs t))"
    if "entries fs'' p = Some n" for p n
    using arrived_new [OF b that] arrived_new [OF a, of p n] arrived_rest(2) [OF a] arrived_rest(2) [OF b]
      arrived_rest(5) [OF a] by fastforce
  moreover have "contents fs'' (Foreign k) = contents fs (Foreign k)" if "k < next_foreign fs" for k
    using arrived_rest(1) [OF a that] arrived_rest(1) [OF b, of k] arrived_rest(2) [OF a] that by simp
  ultimately show ?thesis
    using arrived_own [OF a] arrived_own [OF b] arrived_rest(2-) [OF a] arrived_rest(2-) [OF b]
      arrived_entry [OF b arrived_entry [OF a]]
    by (simp add: arrived_def)
qed

lemma arrive_arrived: "\<exists>t. pb \<in> set (others fs t) \<Longrightarrow> arrived fs (arrive pb fs)"
  by (auto simp: arrived_def arrive_def new_file_def split: prod.splits)

lemma arrive_others [simp]: "others (arrive pb fs) = others fs"
  by (auto simp: arrive_def new_file_def split: prod.splits)

lemma fold_arrive_arrived: "\<forall>pb \<in> set pbs. \<exists>t. pb \<in> set (others fs t) \<Longrightarrow> arrived fs (fold arrive pbs fs)"
proof (induction pbs arbitrary: fs)
  case (Cons pb pbs)
  then have "arrived fs (arrive pb fs)" "arrived (arrive pb fs) (fold arrive pbs (arrive pb fs))"
    by (auto intro: arrive_arrived)
  then show ?case using arrived_trans by simp
qed simp

lemma syscall_arrived: "syscall fs = (failed, fs1) \<Longrightarrow> arrived fs fs1 \<and> failed = faults fs (clock fs) \<and> clock fs1 = Suc (clock fs)"
proof -
  have clk: "clock (fold arrive pbs fs) = clock fs" for pbs
    by (induction pbs arbitrary: fs) (auto simp: arrive_def new_file_def split: prod.splits)
  have "arrived fs ((fold arrive (others fs (clock fs)) fs)\<lparr>clock := Suc (clock fs)\<rparr>)"
  proof -
    have "arrived fs (fold arrive (others fs (clock fs)) fs)" by (rule fold_arrive_arrived) auto
    then show ?thesis by (simp add: arrived_def)
  qed
  then show "syscall fs = (failed, fs1) \<Longrightarrow> ?thesis" by (auto simp: syscall_def)
qed

end
