(* ===== verification/File_Format.thy ===== *)
theory File_Format
  imports Randomness Iostream "HOL-Library.Sublist"
begin

text \<open>
  \<^verbatim>\<open>src/file_crypto.cpp\<close>, the byte formats: big-endian integers, the key-based
  (\<^verbatim>\<open>SKF1\<close>) and password-based (\<^verbatim>\<open>SKP1\<close>) file headers, record
  headers, nonces and the data each chunk authenticates.
\<close>

section \<open>Constants (file\_detail.hpp, file\_crypto.cpp)\<close>

definition kChunkSize :: u32 where "kChunkSize = 1024 * 1024"
definition kFileHeaderSize :: nat where "kFileHeaderSize = 4 + 1 + 1 + 4 + 32 + 8"
definition kPasswordHeaderSize :: nat where
  "kPasswordHeaderSize = 4 + 1 + 1 + 1 + 1 + 4 + 32 + 8 + 4 + 4 + 4"
definition kSaltSize :: nat where "kSaltSize = 32"
definition kNoncePrefixSize :: nat where "kNoncePrefixSize = 8"
definition kFileNonceSize :: nat where "kFileNonceSize = 12"
definition kFileTagSize :: nat where "kFileTagSize = 16"
definition kRecordHeaderSize :: nat where "kRecordHeaderSize = 4 + 4 + 1"
definition kNotFinal :: byte where "kNotFinal = 0x00"
definition kFinal :: byte where "kFinal = 0x01"

definition kFileMagic :: bytes where "kFileMagic = [0x53, 0x4b, 0x46, 0x31]"
definition kPasswordMagic :: bytes where "kPasswordMagic = [0x53, 0x4b, 0x50, 0x31]"
definition kFileVersion :: byte where "kFileVersion = 0x01"
definition kAlgorithm :: byte where "kAlgorithm = 0x01"
definition kPasswordCipherAes256Gcm :: byte where "kPasswordCipherAes256Gcm = 0x01"
definition kPasswordKdfScrypt :: byte where "kPasswordKdfScrypt = 0x01"
definition kPasswordFlagsNone :: byte where "kPasswordFlagsNone = 0x00"
definition kScryptN :: u32 where "kScryptN = 32768"
definition kScryptR :: u32 where "kScryptR = 8"
definition kScryptP :: u32 where "kScryptP = 1"
definition kScryptMaxMemory :: nat where "kScryptMaxMemory = 64 * 1024 * 1024"

lemma file_sizes [simp]:
  "kFileHeaderSize = 50" "kPasswordHeaderSize = 64" "kSaltSize = 32" "kNoncePrefixSize = 8"
  "kFileNonceSize = 12" "kFileTagSize = 16" "kRecordHeaderSize = 9"
  by (simp_all add: kFileHeaderSize_def kPasswordHeaderSize_def kSaltSize_def kNoncePrefixSize_def
      kFileNonceSize_def kFileTagSize_def kRecordHeaderSize_def)

lemma unat_kChunkSize [simp]: "unat kChunkSize = 1048576"
  by (simp add: kChunkSize_def)

section \<open>Big-endian integers\<close>

text \<open>Copying into an array at an offset.\<close>

definition copy_at :: "nat \<Rightarrow> bytes \<Rightarrow> bytes \<Rightarrow> bytes" where
  "copy_at offset data output = take offset output @ overwrite (drop offset output) data"

definition store_u32_be :: "nat \<Rightarrow> u32 \<Rightarrow> bytes \<Rightarrow> bytes" where
  "store_u32_be offset value output =
     copy_at offset
       [ucast (drop_bit 24 value AND 0xff), ucast (drop_bit 16 value AND 0xff),
        ucast (drop_bit 8 value AND 0xff), ucast (value AND 0xff)] output"

definition read_u32_be :: "bytes \<Rightarrow> u32" where
  "read_u32_be input =
     push_bit 24 (ucast (input ! 0)) OR push_bit 16 (ucast (input ! 1)) OR
     push_bit 8 (ucast (input ! 2)) OR ucast (input ! 3)"

section \<open>Headers\<close>

record file_header =
  serialized :: bytes
  salt :: bytes
  nonce_prefix :: bytes

record password_file_header = file_header +
  scrypt_n :: u32
  scrypt_r :: u32
  scrypt_p :: u32

definition make_file_header :: "('w, 'c, 'd) openssl \<Rightarrow> (error, 'w, file_header) act" where
  "make_file_header ossl =
     (let s0 = replicate kFileHeaderSize 0;
          s1 = copy_at 0 kFileMagic s0;
          s2 = copy_at 4 [kFileVersion] s1;
          s3 = copy_at 5 [kAlgorithm] s2;
          s4 = store_u32_be 6 kChunkSize s3 in
      bindM (random_bytes ossl kSaltSize) (\<lambda>salt_bytes.
      bindM (random_bytes ossl kNoncePrefixSize) (\<lambda>prefix_bytes.
      let salt_copy = overwrite (replicate kSaltSize 0) salt_bytes;
          prefix_copy = overwrite (replicate kNoncePrefixSize 0) prefix_bytes;
          s5 = copy_at 10 salt_copy s4;
          s6 = copy_at 42 prefix_copy s5 in
      ret \<lparr>serialized = s6, salt = salt_copy, nonce_prefix = prefix_copy\<rparr>)))"

definition parse_file_header :: "bytes \<Rightarrow> file_header result" where
  "parse_file_header data =
     (if take 4 data \<noteq> kFileMagic \<or> data ! 4 \<noteq> kFileVersion \<or> data ! 5 \<noteq> kAlgorithm
      then Inl file_invalid_packet
      else if read_u32_be (take 4 (drop 6 data)) \<noteq> kChunkSize then Inl file_invalid_packet
      else Inr \<lparr>serialized = data, salt = take 32 (drop 10 data), nonce_prefix = drop 42 data\<rparr>)"

definition make_password_header :: "('w, 'c, 'd) openssl \<Rightarrow> (error, 'w, password_file_header) act" where
  "make_password_header ossl =
     (let s0 = replicate kPasswordHeaderSize 0;
          s1 = copy_at 0 kPasswordMagic s0;
          s2 = copy_at 4 [kFileVersion] s1;
          s3 = copy_at 5 [kPasswordCipherAes256Gcm] s2;
          s4 = copy_at 6 [kPasswordKdfScrypt] s3;
          s5 = copy_at 7 [kPasswordFlagsNone] s4;
          s6 = store_u32_be 8 kChunkSize s5 in
      bindM (random_bytes ossl kSaltSize) (\<lambda>salt_bytes.
      bindM (random_bytes ossl kNoncePrefixSize) (\<lambda>prefix_bytes.
      let salt_copy = overwrite (replicate kSaltSize 0) salt_bytes;
          prefix_copy = overwrite (replicate kNoncePrefixSize 0) prefix_bytes;
          s7 = copy_at 12 salt_copy s6;
          s8 = copy_at 44 prefix_copy s7;
          s9 = store_u32_be 52 32768 s8;
          s10 = store_u32_be 56 8 s9;
          s11 = store_u32_be 60 1 s10 in
      ret \<lparr>serialized = s11, salt = salt_copy, nonce_prefix = prefix_copy,
           scrypt_n = 32768, scrypt_r = 8, scrypt_p = 1\<rparr>)))"

definition parse_password_header :: "bytes \<Rightarrow> password_file_header result" where
  "parse_password_header data =
     (if take 4 data \<noteq> kPasswordMagic \<or> data ! 4 \<noteq> kFileVersion \<or> data ! 5 \<noteq> kPasswordCipherAes256Gcm \<or>
         data ! 6 \<noteq> kPasswordKdfScrypt \<or> data ! 7 \<noteq> kPasswordFlagsNone
      then Inl file_invalid_packet
      else if read_u32_be (take 4 (drop 8 data)) \<noteq> kChunkSize then Inl file_invalid_packet
      else
        let n = read_u32_be (take 4 (drop 52 data));
            r = read_u32_be (take 4 (drop 56 data));
            p = read_u32_be (take 4 (drop 60 data)) in
        if n \<noteq> kScryptN \<or> r \<noteq> kScryptR \<or> p \<noteq> kScryptP then Inl file_invalid_packet
        else Inr \<lparr>serialized = data, salt = take 32 (drop 12 data), nonce_prefix = take 8 (drop 44 data),
                  scrypt_n = n, scrypt_r = r, scrypt_p = p\<rparr>)"

section \<open>Nonces, records and chunk AAD\<close>

definition make_nonce :: "bytes \<Rightarrow> u32 \<Rightarrow> bytes" where
  "make_nonce pre chunk_index =
     store_u32_be kNoncePrefixSize chunk_index (copy_at 0 pre (replicate kFileNonceSize 0))"

record record_header =
  record_serialized :: bytes
  index :: u32
  plaintext_size :: u32
  final_flag :: byte

definition make_record_header :: "u32 \<Rightarrow> u32 \<Rightarrow> byte \<Rightarrow> record_header" where
  "make_record_header i n flag =
     \<lparr>record_serialized = copy_at 8 [flag] (store_u32_be 4 n (store_u32_be 0 i (replicate kRecordHeaderSize 0))),
      index = i, plaintext_size = n, final_flag = flag\<rparr>"

definition parse_record_header :: "bytes \<Rightarrow> record_header result" where
  "parse_record_header data =
     (let i = read_u32_be (take 4 data); n = read_u32_be (take 4 (drop 4 data)); flag = data ! 8 in
      if flag \<noteq> kNotFinal \<and> flag \<noteq> kFinal then Inl file_invalid_packet
      else if n > kChunkSize then Inl file_invalid_packet
      else Inr \<lparr>record_serialized = data, index = i, plaintext_size = n, final_flag = flag\<rparr>)"

definition make_chunk_aad :: "bytes \<Rightarrow> record_header \<Rightarrow> bytes \<Rightarrow> bytes" where
  "make_chunk_aad header rec caller_aad = header @ record_serialized rec @ caller_aad"

section \<open>Lemmas: integers\<close>

definition u32_be :: "u32 \<Rightarrow> bytes" where
  "u32_be v = [ucast (drop_bit 24 v AND 0xff), ucast (drop_bit 16 v AND 0xff),
        ucast (drop_bit 8 v AND 0xff), ucast (v AND 0xff)]"

lemma length_u32_be [simp]: "length (u32_be v) = 4"
  by (simp add: u32_be_def)

lemma copy_at_fits:
  "offset + length d \<le> length b \<Longrightarrow> copy_at offset d b = take offset b @ d @ drop (offset + length d) b"
  by (simp add: copy_at_def overwrite_def add.commute)

lemma store_u32_be_fits:
  "offset + 4 \<le> length b \<Longrightarrow> store_u32_be offset v b = take offset b @ u32_be v @ drop (offset + 4) b"
  unfolding store_u32_be_def u32_be_def by (subst copy_at_fits) (simp_all add: numeral_eq_Suc)

lemma unat_ucast_byte: "unat (ucast (x :: u32) :: byte) = unat x mod 256"
  by (simp add: unsigned_ucast_eq take_bit_eq_mod)

lemma unat_u32_bytes:
  "map unat (u32_be v) =
    [unat v div 2 ^ 24 mod 256, unat v div 2 ^ 16 mod 256, unat v div 2 ^ 8 mod 256, unat v mod 256]"
  by (simp add: u32_be_def unat_ucast_byte unat_and_ff unat_shift_right)

lemma unat_read_u32_be:
  fixes a b c d :: byte
  shows "unat (read_u32_be [a, b, c, d]) = unat a * 2 ^ 24 + unat b * 2 ^ 16 + unat c * 2 ^ 8 + unat d"
proof -
  have u: "unat (ucast x :: u32) = unat x" for x :: byte by (rule unat_ucast_u32)
  have lt: "unat a < 256" "unat b < 256" "unat c < 256" "unat d < 256" by simp_all
  have 1: "unat (push_bit 8 (ucast c) OR ucast d :: u32) = unat c * 2 ^ 8 + unat d"
    using lt by (subst unat_push_or_word; simp add: u; linarith)
  have 2: "unat (push_bit 16 (ucast b) OR push_bit 8 (ucast c) OR ucast d :: u32) =
      unat b * 2 ^ 16 + (unat c * 2 ^ 8 + unat d)"
    using lt by (subst unat_push_or_word; simp add: 1 u; linarith)
  have "unat (push_bit 24 (ucast a) OR push_bit 16 (ucast b) OR push_bit 8 (ucast c) OR ucast d :: u32) =
      unat a * 2 ^ 24 + (unat b * 2 ^ 16 + (unat c * 2 ^ 8 + unat d))"
    using lt by (subst unat_push_or_word; simp add: 2 u; linarith)
  then show ?thesis by (simp add: read_u32_be_def)
qed

lemma length_4_cases:
  assumes "length data = 4"
  obtains a b c d where "data = [a, b, c, d]"
  using assms by (auto simp: numeral_eq_Suc length_Suc_conv)

text \<open>Four bytes and the number they spell.\<close>

lemma four_digits:
  fixes n :: nat
  assumes "n < 2 ^ 32"
  shows "n div 2 ^ 24 mod 256 * 2 ^ 24 + n div 2 ^ 16 mod 256 * 2 ^ 16 + n div 2 ^ 8 mod 256 * 2 ^ 8 + n mod 256 = n"
proof -
  have q: "n div 2 ^ 16 = n div 256 div 256" "n div 2 ^ 24 = n div 256 div 256 div 256"
    by (simp_all add: div_mult2_eq [symmetric])
  have "n div 256 div 256 div 256 < 256"
    using assms by (simp add: div_mult2_eq [symmetric] less_mult_imp_div_less)
  then have z: "n div 256 div 256 div 256 mod 256 = n div 256 div 256 div 256" by simp
  define x y where "x = n div 256" and "y = n div 256 div 256"
  have join: "z * 2 ^ 24 + r2 * 2 ^ 16 + r1 * 2 ^ 8 + r0 = m"
    if "z * 256 + r2 = y'" "y' * 256 + r1 = x'" "x' * 256 + r0 = m" for z r2 r1 r0 x' y' m :: nat
    unfolding that [symmetric] by simp
  have "y div 256 * 2 ^ 24 + y mod 256 * 2 ^ 16 + x mod 256 * 2 ^ 8 + n mod 256 = n"
    unfolding x_def y_def by (rule join [OF div_mult_mod_eq div_mult_mod_eq div_mult_mod_eq])
  then show ?thesis unfolding q z by (simp add: x_def y_def)
qed

lemma digits_of_four:
  fixes a b c d :: nat
  assumes "a < 256" "b < 256" "c < 256" "d < 256" and v: "v = a * 2 ^ 24 + b * 2 ^ 16 + c * 2 ^ 8 + d"
  shows "v div 2 ^ 24 mod 256 = a" "v div 2 ^ 16 mod 256 = b" "v div 2 ^ 8 mod 256 = c" "v mod 256 = d"
proof -
  have w: "v = ((a * 256 + b) * 256 + c) * 256 + d" by (simp add: v)
  have s: "(x * 256 + y) div 256 = x" "(x * 256 + y) mod 256 = y" if "y < 256" for x y :: nat
    using that by simp_all
  have q: "v div 2 ^ 8 = v div 256" "v div 2 ^ 16 = v div 256 div 256" "v div 2 ^ 24 = v div 256 div 256 div 256"
    by (simp_all add: div_mult2_eq [symmetric])
  have 8: "v div 256 = (a * 256 + b) * 256 + c" unfolding w by (rule s(1) [OF assms(4)])
  have 16: "v div 256 div 256 = a * 256 + b" unfolding 8 by (rule s(1) [OF assms(3)])
  have 24: "v div 256 div 256 div 256 = a" unfolding 16 by (rule s(1) [OF assms(2)])
  show "v div 2 ^ 24 mod 256 = a" unfolding q 24 using assms(1) by simp
  show "v div 2 ^ 16 mod 256 = b" unfolding q 16 by (rule s(2) [OF assms(2)])
  show "v div 2 ^ 8 mod 256 = c" unfolding q 8 by (rule s(2) [OF assms(3)])
  show "v mod 256 = d" unfolding w by (rule s(2) [OF assms(4)])
qed

lemma read_u32_be_u32_be [simp]: "read_u32_be (u32_be v) = v"
proof -
  obtain a b c d where abcd: "u32_be v = [a, b, c, d]" using length_u32_be by (rule length_4_cases)
  then have m: "unat a = unat v div 2 ^ 24 mod 256" "unat b = unat v div 2 ^ 16 mod 256"
    "unat c = unat v div 2 ^ 8 mod 256" "unat d = unat v mod 256"
    using unat_u32_bytes [of v] by simp_all
  have "unat v < 2 ^ 32" using unsigned_less [of v, where 'a = nat] by simp
  then have "unat (read_u32_be [a, b, c, d]) = unat v"
    unfolding unat_read_u32_be m by (rule four_digits)
  then show ?thesis by (simp add: abcd word_unat_eq_iff)
qed

lemma u32_be_read_u32_be:
  assumes "length data = 4"
  shows "u32_be (read_u32_be data) = data"
proof -
  obtain a b c d where abcd: "data = [a, b, c, d]" using assms by (rule length_4_cases)
  have lt: "unat a < 256" "unat b < 256" "unat c < 256" "unat d < 256" by simp_all
  let ?v = "unat a * 2 ^ 24 + unat b * 2 ^ 16 + unat c * 2 ^ 8 + unat d"
  have "?v div 2 ^ 24 mod 256 = unat a" "?v div 2 ^ 16 mod 256 = unat b"
    "?v div 2 ^ 8 mod 256 = unat c" "?v mod 256 = unat d"
    using digits_of_four [OF lt refl] .
  then have "map unat (u32_be (read_u32_be data)) = map unat data"
    unfolding unat_u32_bytes abcd unat_read_u32_be by simp
  moreover have "inj (unat :: byte \<Rightarrow> nat)" by (simp add: inj_def word_unat_eq_iff)
  ultimately show ?thesis by (metis inj_map_eq_map)
qed

lemma u32_be_inj [simp]: "u32_be v = u32_be w \<longleftrightarrow> v = w"
  by (metis read_u32_be_u32_be)

section \<open>Lemmas: headers\<close>

text \<open>The contract of a header format: what \<open>make\<close> returns, \<open>parse\<close> accepts and reads back.\<close>

locale header_format =
  fixes make :: "(error, 'w, 'h) act"
    and parse :: "bytes \<Rightarrow> 'h result"
    and bytes_of :: "'h \<Rightarrow> bytes"
    and prefix_of :: "'h \<Rightarrow> bytes"
    and header_size :: nat
  assumes make_size: "make w = (Inr h, w') \<Longrightarrow> length (bytes_of h) = header_size"
    and make_parse: "make w = (Inr h, w') \<Longrightarrow> parse (bytes_of h) = Inr h"
    and make_error: "make w = (Inl e, w') \<Longrightarrow> code e = backend_failure"
    and parse_bytes: "parse data = Inr h \<Longrightarrow> bytes_of h = data"
    and parse_prefix: "parse data = Inr h \<Longrightarrow> length data = header_size \<Longrightarrow> length (prefix_of h) = 8"
    and parse_error: "parse data = Inl e \<Longrightarrow> e = file_invalid_packet"
begin

lemma make_prefix: "make w = (Inr h, w') \<Longrightarrow> length (prefix_of h) = 8"
  using make_size make_parse parse_prefix by blast

lemma parse_inj: "parse data = Inr h \<Longrightarrow> parse data' = Inr h \<Longrightarrow> data = data'"
  using parse_bytes by blast

lemma make_header_bytes_inj:
  "make w = (Inr h, w') \<Longrightarrow> make v = (Inr g, v') \<Longrightarrow> bytes_of h = bytes_of g \<Longrightarrow> h = g"
  by (metis make_parse sum.inject(2))

end

text \<open>The bytes the two functions write.\<close>

definition file_header_bytes :: "bytes \<Rightarrow> bytes \<Rightarrow> bytes" where
  "file_header_bytes s n = kFileMagic @ [kFileVersion, kAlgorithm] @ u32_be kChunkSize @ s @ n"

definition password_header_bytes :: "bytes \<Rightarrow> bytes \<Rightarrow> bytes" where
  "password_header_bytes s n =
     kPasswordMagic @ [kFileVersion, kPasswordCipherAes256Gcm, kPasswordKdfScrypt, kPasswordFlagsNone] @
     u32_be kChunkSize @ s @ n @ u32_be kScryptN @ u32_be kScryptR @ u32_be kScryptP"

lemma length_magics [simp]: "length kFileMagic = 4" "length kPasswordMagic = 4"
  by (simp_all add: kFileMagic_def kPasswordMagic_def)

lemma make_file_header_Inr:
  assumes "make_file_header ossl w = (Inr h, w')"
  shows "\<exists>s n. length s = 32 \<and> length n = 8 \<and>
    h = \<lparr>serialized = file_header_bytes s n, salt = s, nonce_prefix = n\<rparr>"
proof -
  obtain s n where sn: "length s = 32" "length n = 8" and
    h: "h = \<lparr>serialized = copy_at 42 n (copy_at 10 s (store_u32_be 6 kChunkSize
          (copy_at 5 [kAlgorithm] (copy_at 4 [kFileVersion] (copy_at 0 kFileMagic (replicate 50 0)))))),
        salt = s, nonce_prefix = n\<rparr>"
    using assms by (auto simp: make_file_header_def Let_def bindM_Inr dest!: random_bytes_length)
  show ?thesis
    using sn by (auto simp: h copy_at_fits store_u32_be_fits file_header_bytes_def)
qed

lemma make_password_header_Inr:
  assumes "make_password_header ossl w = (Inr h, w')"
  shows "\<exists>s n. length s = 32 \<and> length n = 8 \<and>
    h = \<lparr>serialized = password_header_bytes s n, salt = s, nonce_prefix = n,
         scrypt_n = kScryptN, scrypt_r = kScryptR, scrypt_p = kScryptP\<rparr>"
proof -
  obtain s n where sn: "length s = 32" "length n = 8" and
    h: "h = \<lparr>serialized = store_u32_be 60 1 (store_u32_be 56 8 (store_u32_be 52 32768
          (copy_at 44 n (copy_at 12 s (store_u32_be 8 kChunkSize (copy_at 7 [kPasswordFlagsNone]
          (copy_at 6 [kPasswordKdfScrypt] (copy_at 5 [kPasswordCipherAes256Gcm]
          (copy_at 4 [kFileVersion] (copy_at 0 kPasswordMagic (replicate 64 0))))))))))),
        salt = s, nonce_prefix = n, scrypt_n = 32768, scrypt_r = 8, scrypt_p = 1\<rparr>"
    using assms by (auto simp: make_password_header_def Let_def bindM_Inr dest!: random_bytes_length)
  show ?thesis
    using sn by (auto simp: h copy_at_fits store_u32_be_fits password_header_bytes_def kScryptN_def kScryptR_def kScryptP_def)
qed

text \<open>Reading the fields back.\<close>

lemma drop_split: "drop n d = take m (drop n d) @ drop (n + m) d"
  by (metis append_take_drop_id drop_drop add.commute)

lemma drop_nth: "n < length d \<Longrightarrow> drop n d = d ! n # drop (Suc n) d"
  by (simp add: Cons_nth_drop_Suc)

lemma parse_file_header_Inr:
  assumes "length data = kFileHeaderSize"
  shows "parse_file_header data = Inr h \<longleftrightarrow>
    (\<exists>s n. length s = 32 \<and> length n = 8 \<and> data = file_header_bytes s n \<and>
       h = \<lparr>serialized = data, salt = s, nonce_prefix = n\<rparr>)" (is "?l \<longleftrightarrow> ?r")
proof
  assume l: ?l
  then have c: "take 4 data = kFileMagic" "data ! 4 = kFileVersion" "data ! 5 = kAlgorithm"
      "read_u32_be (take 4 (drop 6 data)) = kChunkSize"
    and h: "h = \<lparr>serialized = data, salt = take 32 (drop 10 data), nonce_prefix = drop 42 data\<rparr>"
    by (auto simp: parse_file_header_def split: if_splits)
  have "drop 4 data = [data ! 4, data ! 5] @ drop 6 data"
    using assms drop_nth [of 4 data] drop_nth [of 5 data] by simp
  moreover have "drop 6 data = take 4 (drop 6 data) @ drop 10 data" "drop 10 data = take 32 (drop 10 data) @ drop 42 data"
    using drop_split [of 6 data 4] drop_split [of 10 data 32] by simp_all
  ultimately have "data = take 4 data @ [data ! 4, data ! 5] @ take 4 (drop 6 data) @ take 32 (drop 10 data) @ drop 42 data"
    by (metis append_take_drop_id append_assoc)
  also have "take 4 (drop 6 data) = u32_be kChunkSize"
    using u32_be_read_u32_be [of "take 4 (drop 6 data)"] assms c(4) by simp
  finally have "data = file_header_bytes (take 32 (drop 10 data)) (drop 42 data)"
    unfolding c file_header_bytes_def .
  then show ?r using h assms by (intro exI [of _ "take 32 (drop 10 data)"] exI [of _ "drop 42 data"]) simp
next
  assume ?r
  then show ?l
    by (auto simp: parse_file_header_def file_header_bytes_def nth_append)
qed

lemma parse_password_header_Inr:
  assumes "length data = kPasswordHeaderSize"
  shows "parse_password_header data = Inr h \<longleftrightarrow>
    (\<exists>s n. length s = 32 \<and> length n = 8 \<and> data = password_header_bytes s n \<and>
       h = \<lparr>serialized = data, salt = s, nonce_prefix = n,
            scrypt_n = kScryptN, scrypt_r = kScryptR, scrypt_p = kScryptP\<rparr>)" (is "?l \<longleftrightarrow> ?r")
proof
  assume l: ?l
  then have c: "take 4 data = kPasswordMagic" "data ! 4 = kFileVersion" "data ! 5 = kPasswordCipherAes256Gcm"
      "data ! 6 = kPasswordKdfScrypt" "data ! 7 = kPasswordFlagsNone"
      "read_u32_be (take 4 (drop 8 data)) = kChunkSize" "read_u32_be (take 4 (drop 52 data)) = kScryptN"
      "read_u32_be (take 4 (drop 56 data)) = kScryptR" "read_u32_be (take 4 (drop 60 data)) = kScryptP"
    and h: "h = \<lparr>serialized = data, salt = take 32 (drop 12 data), nonce_prefix = take 8 (drop 44 data),
        scrypt_n = kScryptN, scrypt_r = kScryptR, scrypt_p = kScryptP\<rparr>"
    by (auto simp: parse_password_header_def Let_def split: if_splits)
  have "drop 4 data = [data ! 4, data ! 5, data ! 6, data ! 7] @ drop 8 data"
    using assms drop_nth [of 4 data] drop_nth [of 5 data] drop_nth [of 6 data] drop_nth [of 7 data] by simp
  moreover have "drop 8 data = take 4 (drop 8 data) @ drop 12 data" "drop 12 data = take 32 (drop 12 data) @ drop 44 data"
    "drop 44 data = take 8 (drop 44 data) @ drop 52 data" "drop 52 data = take 4 (drop 52 data) @ drop 56 data"
    "drop 56 data = take 4 (drop 56 data) @ drop 60 data"
    using drop_split [of 8 data 4] drop_split [of 12 data 32] drop_split [of 44 data 8] drop_split [of 52 data 4]
      drop_split [of 56 data 4] by simp_all
  moreover have "drop 60 data = take 4 (drop 60 data)" using assms by simp
  moreover have field: "take 4 (drop i data) = u32_be v" if "read_u32_be (take 4 (drop i data)) = v" "i \<le> 60" for i v
    using u32_be_read_u32_be [of "take 4 (drop i data)"] assms that by simp
  moreover note field [OF c(6)] field [OF c(7)] field [OF c(8)] field [OF c(9)]
  ultimately have "drop 4 data = [data ! 4, data ! 5, data ! 6, data ! 7] @ u32_be kChunkSize @ take 32 (drop 12 data) @
      take 8 (drop 44 data) @ u32_be kScryptN @ u32_be kScryptR @ u32_be kScryptP"
    by simp
  then have "data = password_header_bytes (take 32 (drop 12 data)) (take 8 (drop 44 data))"
    unfolding password_header_bytes_def c(2-5) using c(1) append_take_drop_id [of 4 data] by simp
  then show ?r
    using h assms by (intro exI [of _ "take 32 (drop 12 data)"] exI [of _ "take 8 (drop 44 data)"]) simp
next
  assume ?r
  then show ?l
    by (auto simp: parse_password_header_def password_header_bytes_def nth_append)
qed

lemma parse_file_header_Inl: "parse_file_header data = Inl e \<Longrightarrow> e = file_invalid_packet"
  by (auto simp: parse_file_header_def split: if_splits)

lemma parse_password_header_Inl: "parse_password_header data = Inl e \<Longrightarrow> e = file_invalid_packet"
  by (auto simp: parse_password_header_def Let_def split: if_splits)

lemma length_header_bytes [simp]:
  "length (file_header_bytes s n) = 10 + (length s + length n)"
  "length (password_header_bytes s n) = 24 + (length s + length n)"
  by (simp_all add: file_header_bytes_def password_header_bytes_def)

lemma make_file_header_Inl: "make_file_header ossl w = (Inl e, w') \<Longrightarrow> code e = backend_failure"
  by (auto simp: make_file_header_def Let_def bindM_Inl dest: random_bytes_Inl)

lemma make_password_header_Inl: "make_password_header ossl w = (Inl e, w') \<Longrightarrow> code e = backend_failure"
  by (auto simp: make_password_header_def Let_def bindM_Inl dest: random_bytes_Inl)

interpretation skf1: header_format "make_file_header ossl" parse_file_header serialized nonce_prefix kFileHeaderSize
  for ossl
proof (unfold_locales, goal_cases)
  case (1 w h w') then show ?case by (auto dest: make_file_header_Inr)
next
  case (2 w h w')
  from make_file_header_Inr [OF 2] obtain s n where "length s = 32" "length n = 8"
    "h = \<lparr>serialized = file_header_bytes s n, salt = s, nonce_prefix = n\<rparr>"
    by (elim exE conjE)
  then show ?case by (subst parse_file_header_Inr) (simp, intro exI [of _ s] exI [of _ n], simp)
next
  case (3 w e w') then show ?case by (rule make_file_header_Inl)
next
  case (4 data h) then show ?case by (auto simp: parse_file_header_def split: if_splits)
next
  case (5 data h) then show ?case by (auto simp: parse_file_header_Inr)
next
  case (6 data e) then show ?case by (rule parse_file_header_Inl)
qed

interpretation skp1: header_format "make_password_header ossl" parse_password_header serialized nonce_prefix kPasswordHeaderSize
  for ossl
proof (unfold_locales, goal_cases)
  case (1 w h w') then show ?case by (auto dest: make_password_header_Inr)
next
  case (2 w h w')
  from make_password_header_Inr [OF 2] obtain s n where "length s = 32" "length n = 8"
    "h = \<lparr>serialized = password_header_bytes s n, salt = s, nonce_prefix = n,
         scrypt_n = kScryptN, scrypt_r = kScryptR, scrypt_p = kScryptP\<rparr>"
    by (elim exE conjE)
  then show ?case by (subst parse_password_header_Inr) (simp, intro exI [of _ s] exI [of _ n], simp)
next
  case (3 w e w') then show ?case by (rule make_password_header_Inl)
next
  case (4 data h) then show ?case by (auto simp: parse_password_header_def Let_def split: if_splits)
next
  case (5 data h) then show ?case by (auto simp: parse_password_header_Inr)
next
  case (6 data e) then show ?case by (rule parse_password_header_Inl)
qed

section \<open>Lemmas: nonces and records\<close>

lemma make_nonce_bytes: "length pre = kNoncePrefixSize \<Longrightarrow> make_nonce pre i = pre @ u32_be i"
  by (simp add: make_nonce_def copy_at_fits store_u32_be_fits)

definition record_bytes :: "u32 \<Rightarrow> u32 \<Rightarrow> byte \<Rightarrow> bytes" where
  "record_bytes i n flag = u32_be i @ u32_be n @ [flag]"

lemma length_record_bytes [simp]: "length (record_bytes i n flag) = 9"
  by (simp add: record_bytes_def)

lemma make_record_header_bytes:
  "make_record_header i n flag =
    \<lparr>record_serialized = record_bytes i n flag, index = i, plaintext_size = n, final_flag = flag\<rparr>"
  by (simp add: make_record_header_def record_bytes_def copy_at_fits store_u32_be_fits)

lemma kFinal_kNotFinal [simp]: "kFinal \<noteq> kNotFinal" "kNotFinal \<noteq> kFinal"
  by (simp_all add: kFinal_def kNotFinal_def)

lemma parse_record_header_Inr:
  assumes "length data = kRecordHeaderSize"
  shows "parse_record_header data = Inr r \<longleftrightarrow>
    (\<exists>i n flag. data = record_bytes i n flag \<and> (flag = kNotFinal \<or> flag = kFinal) \<and> n \<le> kChunkSize \<and>
       r = make_record_header i n flag)" (is "?l \<longleftrightarrow> ?r")
proof
  assume l: ?l
  let ?i = "read_u32_be (take 4 data)" and ?n = "read_u32_be (take 4 (drop 4 data))" and ?f = "data ! 8"
  have "drop 4 data = take 4 (drop 4 data) @ drop 8 data" "drop 8 data = [data ! 8]"
    using drop_split [of 4 data 4] drop_nth [of 8 data] assms by simp_all
  moreover have "take 4 data = u32_be ?i" "take 4 (drop 4 data) = u32_be ?n"
    using assms by (simp_all add: u32_be_read_u32_be)
  ultimately have "data = record_bytes ?i ?n ?f"
    unfolding record_bytes_def by (metis append_take_drop_id)
  with l show ?r
    by (intro exI [of _ ?i] exI [of _ ?n] exI [of _ ?f])
      (auto simp: parse_record_header_def Let_def make_record_header_bytes split: if_splits)
next
  assume ?r
  then show ?l
    by (auto simp: parse_record_header_def Let_def make_record_header_bytes record_bytes_def nth_append)
qed

lemma parse_record_header_Inl: "parse_record_header data = Inl e \<Longrightarrow> e = file_invalid_packet"
  by (auto simp: parse_record_header_def Let_def split: if_splits)

lemma record_bytes_inj [simp]:
  "record_bytes i n f = record_bytes j m g \<longleftrightarrow> i = j \<and> n = m \<and> f = g"
  by (auto simp: record_bytes_def)

section \<open>Properties\<close>

text \<open>
  C31: File headers. The 50 bytes of an \<^verbatim>\<open>SKF1\<close> header and the 64 bytes of an
  \<^verbatim>\<open>SKP1\<close> header are accepted exactly when they have the documented layout with
  some salt and nonce prefix, which are what is read back; headers the library makes have
  it. (So every other version, algorithm, KDF, flag, chunk size or scrypt cost is refused.)
\<close>

theorem file_headers_exact:
  "length data = kFileHeaderSize \<Longrightarrow> length pdata = kPasswordHeaderSize \<Longrightarrow>
    (parse_file_header data = Inr h \<longleftrightarrow>
      (\<exists>s n. length s = kSaltSize \<and> length n = kNoncePrefixSize \<and> data = file_header_bytes s n \<and>
         h = \<lparr>serialized = data, salt = s, nonce_prefix = n\<rparr>)) \<and>
    (parse_password_header pdata = Inr ph \<longleftrightarrow>
      (\<exists>s n. length s = kSaltSize \<and> length n = kNoncePrefixSize \<and> pdata = password_header_bytes s n \<and>
         ph = \<lparr>serialized = pdata, salt = s, nonce_prefix = n,
               scrypt_n = kScryptN, scrypt_r = kScryptR, scrypt_p = kScryptP\<rparr>)) \<and>
    (case make_file_header ossl w of
       (Inr g, _) \<Rightarrow> parse_file_header (serialized g) = Inr g | (Inl e, _) \<Rightarrow> code e = backend_failure) \<and>
    (case make_password_header ossl w of
       (Inr g, _) \<Rightarrow> parse_password_header (serialized g) = Inr g | (Inl e, _) \<Rightarrow> code e = backend_failure)"
  by (simp add: parse_file_header_Inr parse_password_header_Inr)
    (auto simp: skf1.make_parse skp1.make_parse make_file_header_Inl make_password_header_Inl split: sum.splits prod.splits)

theorem file_headers_exact_witness:
  "parse_file_header (file_header_bytes (replicate 32 1) (replicate 8 2)) =
    Inr \<lparr>serialized = file_header_bytes (replicate 32 1) (replicate 8 2), salt = replicate 32 1, nonce_prefix = replicate 8 2\<rparr>"
  using file_headers_exact [where data = "file_header_bytes (replicate 32 1) (replicate 8 2)"
    and pdata = "replicate 64 0" and h = "\<lparr>serialized = file_header_bytes (replicate 32 1) (replicate 8 2),
      salt = replicate 32 1, nonce_prefix = replicate 8 2\<rparr>" and ossl = sample_ossl and w = 0]
  by (simp del: replicate.simps)

text \<open>
  C32: Record headers. Nine bytes are accepted exactly when they are the record header the
  library writes for some index, size of at most one chunk and final flag 0 or 1, and they
  read back as those.
\<close>

theorem record_headers_exact:
  "length data = kRecordHeaderSize \<Longrightarrow>
    parse_record_header data =
      (if \<exists>i n flag. data = record_serialized (make_record_header i n flag) \<and>
            (flag = kNotFinal \<or> flag = kFinal) \<and> n \<le> kChunkSize
       then Inr (make_record_header (read_u32_be (take 4 data)) (read_u32_be (take 4 (drop 4 data))) (data ! 8))
       else Inl file_invalid_packet)"
proof -
  assume len: "length data = kRecordHeaderSize"
  show ?thesis
  proof (cases "parse_record_header data")
    case (Inr r)
    then obtain i n flag where "data = record_bytes i n flag" "flag = kNotFinal \<or> flag = kFinal" "n \<le> kChunkSize"
      "r = make_record_header i n flag"
      using parse_record_header_Inr [OF len] by blast
    then show ?thesis using Inr by (auto simp: make_record_header_bytes record_bytes_def nth_append)
  next
    case (Inl e)
    then have "\<not> (\<exists>i n flag. data = record_bytes i n flag \<and> (flag = kNotFinal \<or> flag = kFinal) \<and> n \<le> kChunkSize)"
      using parse_record_header_Inr [OF len] by force
    then show ?thesis
      using Inl parse_record_header_Inl [OF Inl] by (simp add: make_record_header_bytes)
  qed
qed

theorem record_headers_exact_witness:
  "parse_record_header [0, 0, 0, 5, 0, 0, 0, 3, 1] = Inr (make_record_header 5 3 kFinal)"
proof -
  have "[0, 0, 0, 5, 0, 0, 0, 3, 1] = record_serialized (make_record_header 5 3 kFinal)"
    by (simp add: make_record_header_bytes record_bytes_def u32_be_def kFinal_def)
  moreover have "(3 :: u32) \<le> kChunkSize" by (simp add: kChunkSize_def)
  ultimately have "\<exists>i n flag. [0, 0, 0, 5, 0, 0, 0, 3, 1] = record_serialized (make_record_header i n flag) \<and>
      (flag = kNotFinal \<or> flag = kFinal) \<and> n \<le> kChunkSize"
    by blast
  moreover have "read_u32_be [0, 0, 0, 5] = 5" "read_u32_be [0, 0, 0, 3] = 3"
    by (simp_all add: read_u32_be_def)
  ultimately show ?thesis
    using record_headers_exact [of "[0, 0, 0, 5, 0, 0, 0, 3, 1]"] by (simp add: kFinal_def)
qed

text \<open>
  C33: Nonces. For 8-byte prefixes the nonce of a chunk has 12 bytes and determines prefix
  and chunk index: no two chunks of a file share a nonce.
\<close>

theorem nonces_distinct:
  "length p = kNoncePrefixSize \<Longrightarrow> length q = kNoncePrefixSize \<Longrightarrow>
    length (make_nonce p i) = kFileNonceSize \<and> (make_nonce p i = make_nonce q j \<longleftrightarrow> p = q \<and> i = j)"
  by (simp add: make_nonce_bytes)

theorem nonces_distinct_witness: "make_nonce (replicate 8 7) 1 \<noteq> make_nonce (replicate 8 7) 256"
  using nonces_distinct [of "replicate 8 7" "replicate 8 7" 1 256] by (simp del: replicate.simps)

end
