(* ===== verification/File_Crypto.thy ===== *)
theory File_Crypto
  imports File_Format Hashing Packet_Stream
begin

text \<open>
  \<^verbatim>\<open>src/file_crypto.cpp\<close>, the cryptographic operations: key derivation from a
  master key and from a password, and encryption and decryption of one chunk.
\<close>

section \<open>Key derivation\<close>

text \<open>The bytes of a C string, up to its NUL.\<close>

fun bytes_from_literal :: "string \<Rightarrow> bytes" where
  "bytes_from_literal [] = []"
| "bytes_from_literal (c # text) = (if c = CHR 0x00 then [] else of_char c # bytes_from_literal text)"

definition derive_file_key :: "('w, 'c, 'd) openssl \<Rightarrow> key256 \<Rightarrow> file_header \<Rightarrow> (error, 'w, key256) act" where
  "derive_file_key ossl master_key header =
     bindM (hkdf_sha256 ossl master_key (salt header) (bytes_from_literal ''securekit file sealing v1'') 32) (\<lambda>okm.
     ret (overwrite (replicate 32 0) (take 32 okm)))"

definition require_non_empty_password :: "bytes \<Rightarrow> (error, 's, unit) act" where
  "require_non_empty_password password =
     throw_if (password = []) (Error invalid_input ''password must not be empty'')"

definition derive_password_file_key ::
  "('w, 'c, 'd) openssl \<Rightarrow> bytes \<Rightarrow> password_file_header \<Rightarrow> (error, 'w, key256) act" where
  "derive_password_file_key ossl password header =
     thenM (require_non_empty_password password)
    (bindM (call (EVP_PBE_scrypt ossl password (salt header) (unat (scrypt_n header)) (unat (scrypt_r header))
              (unat (scrypt_p header)) kScryptMaxMemory 32)) (\<lambda>(r, out).
     thenM (throw_if (r \<noteq> 1) (file_backend_failure ''OpenSSL scrypt operation failed''))
           (ret (overwrite (replicate 32 0) out))))"

section \<open>One chunk\<close>

definition file_aead_failure :: error where
  "file_aead_failure = file_backend_failure ''OpenSSL AES-256-GCM operation failed''"

definition file_authentication_failed :: error where
  "file_authentication_failed = Error authentication_failed ''File authentication failed''"

definition check_int_size :: "nat \<Rightarrow> string \<Rightarrow> (error, 's, unit) act" where
  "check_int_size n name =
     throw_if (n > int_max) (Error invalid_input (name @ '' exceeds OpenSSL update limit''))"

definition int_size :: "nat \<Rightarrow> string \<Rightarrow> (error, 's, int) act" where
  "int_size n name = thenM (check_int_size n name) (ret (int n))"

definition make_file_context :: "('w, 'c, 'd) openssl \<Rightarrow> (error, 'w, 'c) act" where
  "make_file_context ossl =
     bindM (call (EVP_CIPHER_CTX_new ossl)) (\<lambda>context.
     case context of
       None \<Rightarrow> throw file_aead_failure
     | Some c \<Rightarrow> if \<not> EVP_aes_256_gcm_found ossl then throw file_aead_failure else ret c)"

definition file_update_aad :: "('w, 'c, 'd) openssl \<Rightarrow> bytes \<Rightarrow> (error, 'c, unit) act" where
  "file_update_aad ossl aad =
     bindM (int_size (length aad) ''AAD'') (\<lambda>aad_size.
     if aad_size = 0 then ret ()
     else bindM (call (EVP_CipherUpdate_aad ossl aad)) (\<lambda>r. throw_if (r \<noteq> 1) file_aead_failure))"

text \<open>\<open>a && b\<close>: the second call is made only when the first returned 1.\<close>

definition and_then :: "('s \<Rightarrow> int \<times> 's) \<Rightarrow> (error, 's, bool) act \<Rightarrow> (error, 's, bool) act" where
  "and_then f m = bindM (call f) (\<lambda>r. if r = 1 then m else ret False)"

record encrypted_chunk =
  chunk_ciphertext :: bytes
  chunk_tag :: bytes

text \<open>
  The body on the context. OpenSSL writes its output at the start of the buffer and its
  final output where the update ended, or into a one-byte buffer when there is no data.
\<close>

definition encrypt_chunk_context ::
  "('w, 'c, 'd) openssl \<Rightarrow> bytes \<Rightarrow> int \<Rightarrow> key256 \<Rightarrow> bytes \<Rightarrow> bytes \<Rightarrow> (error, 'c, encrypted_chunk) act" where
  "encrypt_chunk_context ossl plaintext size_in file_key nonce aad =
     bindM (and_then (EVP_EncryptInit_cipher ossl)
           (and_then (EVP_CTRL_GCM_SET_IVLEN ossl (length nonce))
           (and_then (EVP_EncryptInit_key ossl file_key nonce) (ret True)))) (\<lambda>initialized.
     thenM (throw_if (\<not> initialized) file_aead_failure)
    (thenM (file_update_aad ossl aad)
    (bindM (if size_in > 0 then call (EVP_EncryptUpdate ossl plaintext) else ret (1, [], 0))
       (\<lambda>(r, out, ciphertext_size).
     thenM (throw_if (r \<noteq> 1) file_aead_failure)
    (bindM (call (EVP_EncryptFinal_ex ossl)) (\<lambda>(r, final_out, final_size).
     thenM (throw_if (r \<noteq> 1) file_aead_failure)
    (thenM (throw_if (ciphertext_size + final_size \<noteq> size_in) file_aead_failure)
    (bindM (call (EVP_CTRL_GCM_GET_TAG ossl kFileTagSize)) (\<lambda>(r, tag).
     thenM (throw_if (r \<noteq> 1) file_aead_failure)
    (let updated = overwrite (replicate (length plaintext) 0) out in
     ret \<lparr>chunk_ciphertext = copy_at (nat ciphertext_size) final_out updated,
          chunk_tag = overwrite (replicate kFileTagSize 0) tag\<rparr>))))))))))"

definition encrypt_chunk ::
  "('w, 'c, 'd) openssl \<Rightarrow> bytes \<Rightarrow> key256 \<Rightarrow> bytes \<Rightarrow> bytes \<Rightarrow> (error, 'w, encrypted_chunk) act" where
  "encrypt_chunk ossl plaintext file_key nonce aad =
     bindM (int_size (length plaintext) ''plaintext'') (\<lambda>plaintext_size.
     bindM (make_file_context ossl) (\<lambda>context.
     lift_result (fst (encrypt_chunk_context ossl plaintext plaintext_size file_key nonce aad context))))"

definition decrypt_chunk_context ::
  "('w, 'c, 'd) openssl \<Rightarrow> bytes \<Rightarrow> int \<Rightarrow> bytes \<Rightarrow> key256 \<Rightarrow> bytes \<Rightarrow> bytes \<Rightarrow> (error, 'c, bytes) act" where
  "decrypt_chunk_context ossl ciphertext ciphertext_size tag file_key nonce aad =
     bindM (and_then (EVP_DecryptInit_cipher ossl)
           (and_then (EVP_CTRL_GCM_SET_IVLEN ossl (length nonce))
           (and_then (EVP_DecryptInit_key ossl file_key nonce) (ret True)))) (\<lambda>initialized.
     thenM (throw_if (\<not> initialized) file_aead_failure)
    (thenM (file_update_aad ossl aad)
    (bindM (if ciphertext_size > 0 then call (EVP_DecryptUpdate ossl ciphertext) else ret (1, [], 0))
       (\<lambda>(r, out, plaintext_size).
     thenM (throw_if (r \<noteq> 1) file_aead_failure)
    (bindM (call (EVP_CTRL_GCM_SET_TAG ossl (overwrite (replicate kFileTagSize 0) tag))) (\<lambda>r.
     thenM (throw_if (r \<noteq> 1) file_aead_failure)
    (bindM (call (EVP_DecryptFinal_ex ossl)) (\<lambda>(r, final_out, final_size).
     thenM (throw_if (r \<noteq> 1) file_authentication_failed)
    (thenM (throw_if (plaintext_size + final_size \<noteq> ciphertext_size) file_aead_failure)
    (let updated = overwrite (replicate (length ciphertext) 0) out in
     ret (copy_at (nat plaintext_size) final_out updated)))))))))))"

definition decrypt_chunk ::
  "('w, 'c, 'd) openssl \<Rightarrow> bytes \<Rightarrow> bytes \<Rightarrow> key256 \<Rightarrow> bytes \<Rightarrow> bytes \<Rightarrow> (error, 'w, bytes) act" where
  "decrypt_chunk ossl ciphertext tag file_key nonce aad =
     bindM (int_size (length ciphertext) ''ciphertext'') (\<lambda>ciphertext_size.
     bindM (make_file_context ossl) (\<lambda>context.
     lift_result (fst (decrypt_chunk_context ossl ciphertext ciphertext_size tag file_key nonce aad context))))"

section \<open>Lemmas\<close>

lemma wp_and_then: "wp (and_then f m) Q E s \<longleftrightarrow> (\<forall>r t. f s = (r, t) \<longrightarrow> (if r = 1 then wp m Q E t else Q False t))"
  by (simp add: and_then_def wp_simps)

lemma wp_int_size [wp_simps]:
  "wp (int_size n name) Q E s =
     (if n > int_max then E (Error invalid_input (name @ '' exceeds OpenSSL update limit'')) s else Q (int n) s)"
  by (simp add: int_size_def check_int_size_def wp_simps)

definition file_gcm_fault :: "('w, 'c, 'd) openssl \<Rightarrow> ('c \<Rightarrow> gcm_view) \<Rightarrow> gcm_tag \<Rightarrow> error \<Rightarrow> bool" where
  "file_gcm_fault ossl view tg e \<longleftrightarrow> e = file_aead_failure \<and> \<not> gcm_available ossl view tg"

lemma make_file_context_doc:
  assumes "gcm_documented ossl view ks tg"
  shows "wp (make_file_context ossl) (\<lambda>c w'. view c = Fresh) (\<lambda>e _. file_gcm_fault ossl view tg e) w"
  using gcm_documentedD(1) [OF assms] gcm_availableD(1) [of ossl view tg] gcm_available_calls(1) [of ossl view tg]
  by (simp add: make_file_context_def wp_simps file_gcm_fault_def) (metis option.distinct(1))

lemma file_update_aad_doc:
  assumes "gcm_documented ossl view ks tg" and "view c = Running d k iv aad [] t"
  shows "wp (file_update_aad ossl a)
    (\<lambda>_ c'. view c' = Running d k iv (aad @ a) [] t)
    (\<lambda>e _. file_gcm_fault ossl view tg e \<or> size_fault ''AAD'' a e) c"
  using assms(2-) gcm_documentedD(7) [OF assms(1)] gcm_available_calls(7) [of ossl view tg]
  by (simp add: file_update_aad_def wp_simps Let_def) (auto simp: file_gcm_fault_def size_fault_def)

lemma encrypt_chunk_init_doc:
  assumes "gcm_documented ossl view ks tg" and "view c = Fresh" and "length k = 32" and "length nonce = 12"
  shows "wp (and_then (EVP_EncryptInit_cipher ossl)
           (and_then (EVP_CTRL_GCM_SET_IVLEN ossl (length nonce))
           (and_then (EVP_EncryptInit_key ossl k nonce) (ret True))))
    (\<lambda>initialized c'. if initialized then view c' = Running Encrypting k nonce [] [] None
       else \<not> gcm_available ossl view tg) (\<lambda>_ _. False) c"
proof -
  note doc = gcm_documentedD [OF assms(1)]
  note ok = gcm_available_calls [of ossl view tg]
  have 1: "r = 1 \<Longrightarrow> view c1 = Selected Encrypting 12" "r \<noteq> 1 \<Longrightarrow> \<not> gcm_available ossl view tg"
    if "EVP_EncryptInit_cipher ossl c = (r, c1)" for r c1
    using that doc(2) ok(2) assms(2) by blast+
  have 2: "r = 1 \<Longrightarrow> view c2 = Selected Encrypting 12" "r \<noteq> 1 \<Longrightarrow> \<not> gcm_available ossl view tg"
    if "EVP_CTRL_GCM_SET_IVLEN ossl 12 c1 = (r, c2)" "view c1 = Selected Encrypting 12" for r c1 c2
    using doc(4) that ok(4) [OF _ that] by auto
  have 3: "r = 1 \<Longrightarrow> view c3 = Running Encrypting k nonce [] [] None" "r \<noteq> 1 \<Longrightarrow> \<not> gcm_available ossl view tg"
    if "EVP_EncryptInit_key ossl k nonce c2 = (r, c3)" "view c2 = Selected Encrypting 12" for r c2 c3
    using doc(5) [of k nonce c2 c3] ok(5) [of k nonce c2 r c3] that assms(3, 4) by auto
  show ?thesis
    unfolding assms(4) by (simp add: wp_simps wp_and_then) (use 1 2 3 in blast)
qed

lemma decrypt_chunk_init_doc:
  assumes "gcm_documented ossl view ks tg" and "view c = Fresh" and "length k = 32" and "length nonce = 12"
  shows "wp (and_then (EVP_DecryptInit_cipher ossl)
           (and_then (EVP_CTRL_GCM_SET_IVLEN ossl (length nonce))
           (and_then (EVP_DecryptInit_key ossl k nonce) (ret True))))
    (\<lambda>initialized c'. if initialized then view c' = Running Decrypting k nonce [] [] None
       else \<not> gcm_available ossl view tg) (\<lambda>_ _. False) c"
proof -
  note doc = gcm_documentedD [OF assms(1)]
  note ok = gcm_available_calls [of ossl view tg]
  have 1: "r = 1 \<Longrightarrow> view c1 = Selected Decrypting 12" "r \<noteq> 1 \<Longrightarrow> \<not> gcm_available ossl view tg"
    if "EVP_DecryptInit_cipher ossl c = (r, c1)" for r c1
    using that doc(3) ok(3) assms(2) by blast+
  have 2: "r = 1 \<Longrightarrow> view c2 = Selected Decrypting 12" "r \<noteq> 1 \<Longrightarrow> \<not> gcm_available ossl view tg"
    if "EVP_CTRL_GCM_SET_IVLEN ossl 12 c1 = (r, c2)" "view c1 = Selected Decrypting 12" for r c1 c2
    using doc(4) that ok(4) [OF _ that] by auto
  have 3: "r = 1 \<Longrightarrow> view c3 = Running Decrypting k nonce [] [] None" "r \<noteq> 1 \<Longrightarrow> \<not> gcm_available ossl view tg"
    if "EVP_DecryptInit_key ossl k nonce c2 = (r, c3)" "view c2 = Selected Decrypting 12" for r c2 c3
    using doc(6) [of k nonce c2 c3] ok(6) [of k nonce c2 r c3] that assms(3, 4) by auto
  show ?thesis
    unfolding assms(4) by (simp add: wp_simps wp_and_then) (use 1 2 3 in blast)
qed

text \<open>The calls of each body in turn, once the context is keyed and has its additional data.\<close>

lemma wp_step:
  assumes "wp m R (\<lambda>_ _. False) s" and "\<And>a t. R a t \<Longrightarrow> wp (f a) Q E t"
  shows "wp (bindM m f) Q E s"
  unfolding wp_bindM by (rule wp_mono [OF assms(1)]) (use assms(2) in auto)

lemma encrypt_optional_doc:
  assumes "gcm_documented ossl view ks tg" and "view c = Running Encrypting k iv aad [] None"
  shows "wp (if p \<noteq> [] then call (EVP_EncryptUpdate ossl p) else ret (1, [], 0))
    (\<lambda>(r, out, n) c'. if r = 1 then out = crypt (ks k iv) 0 p \<and> n = int (length p) \<and>
         view c' = Running Encrypting k iv aad (crypt (ks k iv) 0 p) None
       else \<not> gcm_available ossl view tg) (\<lambda>_ _. False) c"
  using assms(2)
  by (cases p) (auto simp: wp_simps dest: gcm_documentedD(8) [OF assms(1)] gcm_available_calls(8) [of ossl view tg])

text \<open>A context whose encryption has been finished: only then the manual page promises a tag.\<close>

definition encryption_done ::
  "('w, 'c, 'd) openssl \<Rightarrow> ('c \<Rightarrow> gcm_view) \<Rightarrow> bytes \<Rightarrow> bytes \<Rightarrow> bytes \<Rightarrow> bytes \<Rightarrow> 'c \<Rightarrow> bool" where
  "encryption_done ossl view k iv aad ct c' \<longleftrightarrow>
     (\<exists>c out n. EVP_EncryptFinal_ex ossl c = ((1, out, n), c') \<and> view c = Running Encrypting k iv aad ct None)"

lemma encrypt_final_doc:
  assumes "gcm_documented ossl view ks tg" and "view c = Running Encrypting k iv aad ct None"
  shows "wp (call (EVP_EncryptFinal_ex ossl))
    (\<lambda>(r, out, n) c'. if r = 1 then out = [] \<and> n = 0 \<and> encryption_done ossl view k iv aad ct c'
       else \<not> gcm_available ossl view tg) (\<lambda>_ _. False) c"
  using assms(2)
  by (auto simp: wp_simps encryption_done_def dest: gcm_documentedD(10) [OF assms(1)] gcm_available_calls(9) [of ossl view tg])

lemma encrypt_tag_doc:
  assumes "gcm_documented ossl view ks tg" and "encryption_done ossl view k iv aad ct c"
  shows "wp (call (EVP_CTRL_GCM_GET_TAG ossl 16))
    (\<lambda>(r, t) c'. if r = 1 then t = tg k iv aad ct else \<not> gcm_available ossl view tg) (\<lambda>_ _. False) c"
proof -
  obtain c0 out n where f: "EVP_EncryptFinal_ex ossl c0 = ((1, out, n), c)" "view c0 = Running Encrypting k iv aad ct None"
    using assms(2) unfolding encryption_done_def by blast
  show ?thesis
    by (auto simp: wp_simps dest: gcm_documentedD(11) [OF assms(1) f(1) _ f(2)] gcm_available_calls(10) [of ossl view tg, OF _ f(1) _ f(2)])
qed

lemma encrypt_chunk_context_doc:
  assumes "gcm_documented ossl view ks tg" and "view c = Fresh" and "length k = 32" and "length nonce = 12"
  shows "wp (encrypt_chunk_context ossl p (int (length p)) k nonce aad)
    (\<lambda>out _. out = \<lparr>chunk_ciphertext = crypt (ks k nonce) 0 p, chunk_tag = tg k nonce aad (crypt (ks k nonce) 0 p)\<rparr>)
    (\<lambda>e _. file_gcm_fault ossl view tg e \<or> size_fault ''AAD'' aad e) c"
  unfolding encrypt_chunk_context_def
    apply (rule wp_step [OF encrypt_chunk_init_doc [OF assms]])
    apply (simp add: wp_thenM wp_throw_if file_gcm_fault_def split del: if_split split: if_split_asm)
    apply (rule wp_conseq [OF file_update_aad_doc [OF assms(1)]])
    apply assumption
    apply (simp_all add: file_gcm_fault_def split del: if_split)
    apply (rule wp_step [OF encrypt_optional_doc [OF assms(1)]])
    apply assumption
    apply (clarsimp simp: wp_thenM wp_throw_if split: if_split_asm)
    apply (rule conjI, blast)
    apply (intro impI, simp)
    apply (rule wp_step [OF encrypt_final_doc [OF assms(1)]])
    apply assumption
    apply (clarsimp simp: wp_thenM wp_throw_if split: if_split_asm)
    apply (rule conjI, blast)
    apply (intro impI, simp)
    apply (rule wp_step [OF encrypt_tag_doc [OF assms(1)]])
    apply assumption
    apply (clarsimp simp: wp_thenM wp_throw_if wp_ret split: if_split_asm)
    apply (simp add: gcm_documentedD(14) [OF assms(1)] copy_at_def)
    done

lemma decrypt_optional_doc:
  assumes "gcm_documented ossl view ks tg" and "view c = Running Decrypting k iv aad [] None"
  shows "wp (if p \<noteq> [] then call (EVP_DecryptUpdate ossl p) else ret (1, [], 0))
    (\<lambda>(r, out, n) c'. if r = 1 then out = crypt (ks k iv) 0 p \<and> n = int (length p) \<and>
         view c' = Running Decrypting k iv aad p None
       else \<not> gcm_available ossl view tg) (\<lambda>_ _. False) c"
  using assms(2)
  by (cases p) (auto simp: wp_simps dest: gcm_documentedD(9) [OF assms(1)] gcm_available_calls(11) [of ossl view tg])

lemma decrypt_set_tag_doc:
  assumes "gcm_documented ossl view ks tg" and "view c = Running Decrypting k iv aad ct None" and "length t = 16"
  shows "wp (call (EVP_CTRL_GCM_SET_TAG ossl t))
    (\<lambda>r c'. if r = 1 then view c' = Running Decrypting k iv aad ct (Some t)
       else \<not> gcm_available ossl view tg) (\<lambda>_ _. False) c"
  using assms(2, 3)
  by (auto simp: wp_simps dest: gcm_documentedD(12) [OF assms(1)] gcm_available_calls(12) [of ossl view tg])

lemma decrypt_final_doc:
  assumes "gcm_documented ossl view ks tg" and "view c = Running Decrypting k iv aad ct (Some t)"
  shows "wp (call (EVP_DecryptFinal_ex ossl))
    (\<lambda>(r, out, n) c'. if r = 1 then t = tg k iv aad ct \<and> out = [] \<and> n = 0
       else t \<noteq> tg k iv aad ct \<or> \<not> gcm_available ossl view tg) (\<lambda>_ _. False) c"
proof -
  have "t = tg k iv aad ct \<and> out = [] \<and> n = 0" if "EVP_DecryptFinal_ex ossl c = ((1, out, n), c')" for out n c'
    using gcm_documentedD(13) [OF assms(1) that assms(2)] .
  moreover have "r = 1" if "EVP_DecryptFinal_ex ossl c = ((r, out, n), c')" "t = tg k iv aad ct" "gcm_available ossl view tg" for r out n c'
    using gcm_available_calls(13) [OF that(3,1)] that(2) assms(2) by simp
  ultimately show ?thesis by (simp add: wp_simps) blast
qed

lemma decrypt_chunk_context_doc:
  assumes "gcm_documented ossl view ks tg" and "view c = Fresh" and "length k = 32" and "length nonce = 12"
    and "length tag = kFileTagSize"
  shows "wp (decrypt_chunk_context ossl ct (int (length ct)) tag k nonce aad)
    (\<lambda>p _. p = crypt (ks k nonce) 0 ct \<and> tag = tg k nonce aad ct)
    (\<lambda>e _. file_gcm_fault ossl view tg e \<or> size_fault ''AAD'' aad e \<or>
       e = file_authentication_failed \<and> (tag \<noteq> tg k nonce aad ct \<or> \<not> gcm_available ossl view tg)) c"
proof -
  have tag: "overwrite (replicate 16 0) tag = tag" using assms(5) by simp
  show ?thesis
    unfolding decrypt_chunk_context_def
    apply (rule wp_step [OF decrypt_chunk_init_doc [OF assms(1-4)]])
    apply (simp add: wp_thenM wp_throw_if file_gcm_fault_def tag split del: if_split split: if_split_asm)
    apply (rule wp_conseq [OF file_update_aad_doc [OF assms(1)]])
    apply assumption
    apply (simp_all add: file_gcm_fault_def tag split del: if_split)
    apply (rule wp_step [OF decrypt_optional_doc [OF assms(1)]])
    apply assumption
    apply (clarsimp simp: wp_thenM wp_throw_if split: if_split_asm)
    apply (rule conjI, blast)
    apply (intro impI, simp)
    apply (rule wp_step [OF decrypt_set_tag_doc [OF assms(1)]])
    apply assumption
    apply (simp add: assms(5))
    apply (clarsimp simp: wp_thenM wp_throw_if split: if_split_asm)
    apply (rule wp_step [OF decrypt_final_doc [OF assms(1)]])
    apply assumption
    apply (clarsimp simp: wp_thenM wp_throw_if wp_ret split: if_split_asm)
    apply (simp add: copy_at_def)
    apply blast
    done
qed

text \<open>A whole chunk.\<close>

lemma encrypt_chunk_doc:
  assumes "gcm_documented ossl view ks tg" and "length k = 32" and "length nonce = 12"
  shows "wp (encrypt_chunk ossl p k nonce aad)
    (\<lambda>out _. out = \<lparr>chunk_ciphertext = crypt (ks k nonce) 0 p, chunk_tag = tg k nonce aad (crypt (ks k nonce) 0 p)\<rparr>)
    (\<lambda>e _. file_gcm_fault ossl view tg e \<or> size_fault ''plaintext'' p e \<or> size_fault ''AAD'' aad e) w"
proof -
  have body: "fst (encrypt_chunk_context ossl p (int (length p)) k nonce aad c) = r \<Longrightarrow> view c = Fresh \<Longrightarrow>
      (case r of Inr out \<Rightarrow> out = \<lparr>chunk_ciphertext = crypt (ks k nonce) 0 p, chunk_tag = tg k nonce aad (crypt (ks k nonce) 0 p)\<rparr>
       | Inl e \<Rightarrow> file_gcm_fault ossl view tg e \<or> size_fault ''AAD'' aad e)" for c r
    using encrypt_chunk_context_doc [OF assms(1) _ assms(2, 3), of c p aad]
    by (cases "encrypt_chunk_context ossl p (int (length p)) k nonce aad c"; cases r) (auto simp: wp_def)
  show ?thesis
    unfolding encrypt_chunk_def
    by (simp add: wp_simps size_fault_def)
      (auto intro!: wp_conseq [OF make_file_context_doc [OF assms(1)]] simp: wp_simps size_fault_def dest!: body)
qed

lemma decrypt_chunk_doc:
  assumes "gcm_documented ossl view ks tg" and "length k = 32" and "length nonce = 12" and "length tag = kFileTagSize"
  shows "wp (decrypt_chunk ossl ct tag k nonce aad)
    (\<lambda>p _. p = crypt (ks k nonce) 0 ct \<and> tag = tg k nonce aad ct)
    (\<lambda>e _. file_gcm_fault ossl view tg e \<or> size_fault ''ciphertext'' ct e \<or> size_fault ''AAD'' aad e \<or>
       e = file_authentication_failed \<and> (tag \<noteq> tg k nonce aad ct \<or> \<not> gcm_available ossl view tg)) w"
proof -
  have body: "fst (decrypt_chunk_context ossl ct (int (length ct)) tag k nonce aad c) = r \<Longrightarrow> view c = Fresh \<Longrightarrow>
      (case r of Inr p \<Rightarrow> p = crypt (ks k nonce) 0 ct \<and> tag = tg k nonce aad ct
       | Inl e \<Rightarrow> file_gcm_fault ossl view tg e \<or> size_fault ''AAD'' aad e \<or>
           e = file_authentication_failed \<and> (tag \<noteq> tg k nonce aad ct \<or> \<not> gcm_available ossl view tg))" for c r
    using decrypt_chunk_context_doc [OF assms(1) _ assms(2-4), of c ct aad]
    by (cases "decrypt_chunk_context ossl ct (int (length ct)) tag k nonce aad c"; cases r) (auto simp: wp_def)
  show ?thesis
    unfolding decrypt_chunk_def
    by (simp add: wp_simps size_fault_def)
      (auto intro!: wp_conseq [OF make_file_context_doc [OF assms(1)]] simp: wp_simps size_fault_def dest!: body)
qed

section \<open>Key derivation\<close>

text \<open>
  \<^verbatim>\<open>EVP_KDF(3)\<close>, \<^verbatim>\<open>EVP_PBE_scrypt(3)\<close>: the output of a derivation that succeeds is
  determined by its inputs and has the size asked for.
\<close>

definition kdf_documented ::
  "('w, 'c, 'd) openssl \<Rightarrow> (nat \<Rightarrow> ossl_param list \<Rightarrow> bytes) \<Rightarrow> (bytes \<Rightarrow> bytes \<Rightarrow> nat \<Rightarrow> nat \<Rightarrow> nat \<Rightarrow> nat \<Rightarrow> bytes) \<Rightarrow> bool"
where
  "kdf_documented ossl kdf scrypt \<longleftrightarrow>
     (\<forall>n ps w out w'. EVP_KDF_derive ossl n ps w = ((1, out), w') \<longrightarrow> out = kdf n ps) \<and>
     (\<forall>pw s N r p m n w out w'. EVP_PBE_scrypt ossl pw s N r p m n w = ((1, out), w') \<longrightarrow> out = scrypt pw s N r p n) \<and>
     (\<forall>n ps. length (kdf n ps) = n) \<and> (\<forall>pw s N r p n. length (scrypt pw s N r p n) = n)"

text \<open>
  When a derivation of a file key succeeds. \<^verbatim>\<open>EVP_PBE_scrypt\<close> rejects bad parameters; the
  headers the code makes or accepts have the documented ones only, and \<open>N\<close>, \<open>r\<close> and \<open>p\<close> are left open
  here just because the derivation is stated for every header.
\<close>

definition kdf_available :: "('w, 'c, 'd) openssl \<Rightarrow> bool" where
  "kdf_available ossl \<longleftrightarrow>
     (\<forall>w. fst (EVP_KDF_fetch ossl ''HKDF'' w)) \<and> (\<forall>w. fst (EVP_KDF_CTX_new ossl w)) \<and>
     (\<forall>ps w. fst (fst (EVP_KDF_derive ossl 32 ps w)) = 1) \<and>
     (\<forall>pw s N r p w. fst (fst (EVP_PBE_scrypt ossl pw s N r p kScryptMaxMemory 32 w)) = 1)"

definition sample_kdf :: "nat \<Rightarrow> ossl_param list \<Rightarrow> bytes" where
  "sample_kdf n ps = replicate n (sum_list (octets_param ''key'' ps) + sum_list (octets_param ''salt'' ps) + sum_list (octets_param ''info'' ps))"

definition sample_scrypt :: "bytes \<Rightarrow> bytes \<Rightarrow> nat \<Rightarrow> nat \<Rightarrow> nat \<Rightarrow> nat \<Rightarrow> bytes" where
  "sample_scrypt pw s N r p n = replicate n (sum_list pw + sum_list s)"

lemma sample_kdf_documented: "kdf_documented sample_ossl sample_kdf sample_scrypt"
  by (simp add: kdf_documented_def sample_ossl_def sample_kdf_def sample_scrypt_def)

lemma sample_kdf_available: "kdf_available sample_ossl"
  by (simp add: kdf_available_def sample_ossl_def)

text \<open>The key a header determines.\<close>

definition file_key_of :: "(nat \<Rightarrow> ossl_param list \<Rightarrow> bytes) \<Rightarrow> key256 \<Rightarrow> bytes \<Rightarrow> key256" where
  "file_key_of kdf master_key s =
     kdf 32 (hkdf_params master_key s (bytes_from_literal ''securekit file sealing v1''))"

definition password_key_of ::
  "(bytes \<Rightarrow> bytes \<Rightarrow> nat \<Rightarrow> nat \<Rightarrow> nat \<Rightarrow> nat \<Rightarrow> bytes) \<Rightarrow> bytes \<Rightarrow> password_file_header \<Rightarrow> key256" where
  "password_key_of scrypt password h =
     scrypt password (salt h) (unat (scrypt_n h)) (unat (scrypt_r h)) (unat (scrypt_p h)) 32"

lemma derive_file_key_length: "derive_file_key ossl k h w = (Inr fk, w') \<Longrightarrow> length fk = 32"
  by (auto simp: derive_file_key_def bindM_Inr)

lemma derive_password_file_key_length: "derive_password_file_key ossl pw h w = (Inr fk, w') \<Longrightarrow> length fk = 32"
  by (auto simp: derive_password_file_key_def bindM_Inr thenM_Inr)

lemma kdf_documentedD:
  assumes "kdf_documented ossl kdf scrypt"
  shows "EVP_KDF_derive ossl n ps w = ((1, out), w') \<Longrightarrow> out = kdf n ps"
    and "EVP_PBE_scrypt ossl pw s N r p m n w = ((1, out), w') \<Longrightarrow> out = scrypt pw s N r p n"
    and "length (kdf n ps) = n" and "length (scrypt pw s N r p n) = n"
  using assms unfolding kdf_documented_def by - (elim conjE, metis)+

lemma kdf_availableD:
  assumes "kdf_available ossl"
  shows "EVP_KDF_fetch ossl ''HKDF'' w = (x, w') \<Longrightarrow> x" and "EVP_KDF_CTX_new ossl w = (x, w') \<Longrightarrow> x"
    and "EVP_KDF_derive ossl 32 ps w = ((i, out), w') \<Longrightarrow> i = 1"
    and "EVP_PBE_scrypt ossl pw s N r p kScryptMaxMemory 32 w = ((i, out), w') \<Longrightarrow> i = 1"
  using assms unfolding kdf_available_def by - (elim conjE, metis fst_conv)+

lemma derive_file_key_doc:
  assumes "kdf_documented ossl kdf scrypt"
  shows "wp (derive_file_key ossl k h) (\<lambda>fk _. fk = file_key_of kdf k (salt h))
    (\<lambda>e _. code e = backend_failure \<and> \<not> kdf_available ossl) w"
  by (simp add: derive_file_key_def hkdf_sha256_def throw_hkdf_backend_failure_def wp_simps file_key_of_def)
    (auto dest: kdf_availableD kdf_documentedD(1) [OF assms] simp: kdf_documentedD(3) [OF assms])

lemma derive_password_file_key_doc:
  assumes "kdf_documented ossl kdf scrypt"
  shows "wp (derive_password_file_key ossl pw h) (\<lambda>fk _. fk = password_key_of scrypt pw h)
    (\<lambda>e _. pw = [] \<and> code e = invalid_input \<or> code e = backend_failure \<and> \<not> kdf_available ossl) w"
  by (simp add: derive_password_file_key_def require_non_empty_password_def wp_simps password_key_of_def
      file_backend_failure_def)
    (auto dest: kdf_availableD kdf_documentedD(2) [OF assms] simp: kdf_documentedD(4) [OF assms])

end
