(* ===== verification/File_Payload.thy ===== *)
theory File_Payload
  imports File_Crypto
begin

text \<open>
  \<^verbatim>\<open>src/file.cpp\<close>, the two templates that seal and open the records of a file.
  The state is the input stream, the output and the library's state; the template
  parameter \<^verbatim>\<open>Output\<close> is the parameter \<open>write_all\<close>, whose contract is the
  locale \<open>sink\<close>.
\<close>

section \<open>Sealing\<close>

type_synonym ('o, 'w) file_state = "istream \<times> 'o \<times> 'w"

definition on_input :: "(error, istream, 'a) act \<Rightarrow> (error, ('o, 'w) file_state, 'a) act" where
  "on_input m = on_fst m"

definition on_output :: "(error, 'o, 'a) act \<Rightarrow> (error, ('o, 'w) file_state, 'a) act" where
  "on_output m = on_snd (on_fst m)"

definition on_library :: "(error, 'w, 'a) act \<Rightarrow> (error, ('o, 'w) file_state, 'a) act" where
  "on_library m = on_snd (on_snd m)"

text \<open>
  The first half of an iteration, up to \<^verbatim>\<open>is_final\<close>: the bytes now in the buffer,
  their number as the code casts it, and whether they are the last ones.
\<close>

definition seal_read :: "(error, istream, bytes \<times> u32 \<times> bool) act" where
  "seal_read =
     bindM (call (istream_read (unat kChunkSize))) (\<lambda>buffer.
     bindM (gets gcount) (\<lambda>count.
     let read_count = int count in
     thenM (throw_if (read_count < 0) (file_backend_failure ''File read failed''))
    (bindM (gets (\<lambda>in_stream. \<not> eofbit in_stream \<and> stream_fail in_stream)) (\<lambda>failed.
     thenM (throw_if failed (file_backend_failure ''File read failed''))
    (let chunk_size = word_of_int read_count :: u32 in
     if chunk_size < kChunkSize then ret (buffer, chunk_size, True)
     else
       bindM (call istream_peek_eof) (\<lambda>at_end.
       if \<not> at_end then ret (buffer, chunk_size, False)
       else
         bindM (gets badbit) (\<lambda>bad.
         thenM (throw_if bad (file_backend_failure ''File read failed''))
               (ret (buffer, chunk_size, True)))))))))"

text \<open>One iteration; the result is \<^verbatim>\<open>wrote_final\<close>.\<close>

definition seal_step ::
  "('w, 'c, 'd) openssl \<Rightarrow> (bytes \<Rightarrow> (error, 'o, unit) act) \<Rightarrow> bytes \<Rightarrow> bytes \<Rightarrow> key256 \<Rightarrow> bytes \<Rightarrow> u32 \<Rightarrow>
   (error, ('o, 'w) file_state, bool) act" where
  "seal_step ossl write_all header prefix_bytes file_key aad chunk_index =
     bindM (on_input seal_read) (\<lambda>(buffer, chunk_size, is_final).
     let rec = make_record_header chunk_index chunk_size (if is_final then kFinal else kNotFinal);
         nonce = make_nonce prefix_bytes chunk_index;
         chunk_aad = make_chunk_aad header rec aad in
     bindM (on_library (encrypt_chunk ossl (take (unat chunk_size) buffer) file_key nonce chunk_aad)) (\<lambda>encrypted.
     thenM (on_output (write_all (record_serialized rec)))
    (thenM (on_output (write_all (chunk_ciphertext encrypted)))
    (thenM (on_output (write_all (chunk_tag encrypted)))
           (ret is_final)))))"

lemma unat_Suc_u32: "i \<noteq> - 1 \<Longrightarrow> unat (i + 1 :: u32) = Suc (unat i)"
  by (metis add.commute add_eq_0_iff unatSuc)

lemma loop_index_decreases: "i \<noteq> - 1 \<Longrightarrow> 2 ^ 32 - unat (i + 1 :: u32) < 2 ^ 32 - unat i"
  using unsigned_less [of i, where 'a = nat] by (simp add: unat_Suc_u32)

function seal_loop ::
  "('w, 'c, 'd) openssl \<Rightarrow> (bytes \<Rightarrow> (error, 'o, unit) act) \<Rightarrow> bytes \<Rightarrow> bytes \<Rightarrow> key256 \<Rightarrow> bytes \<Rightarrow> u32 \<Rightarrow>
   (error, ('o, 'w) file_state, unit) act" where
  "seal_loop ossl write_all header prefix_bytes file_key aad chunk_index s =
     (case seal_step ossl write_all header prefix_bytes file_key aad chunk_index s of
        (Inl e, s') \<Rightarrow> (Inl e, s')
      | (Inr wrote_final, s') \<Rightarrow>
          if chunk_index = - 1 \<and> \<not> wrote_final then (Inl (Error invalid_input ''file is too large to seal''), s')
          else if wrote_final then (Inr (), s')
          else seal_loop ossl write_all header prefix_bytes file_key aad (chunk_index + 1) s')"
  by pat_completeness auto
termination
  by (relation "measure (\<lambda>(_, _, _, _, _, _, i, _). 2 ^ 32 - unat i)")
    (auto intro!: loop_index_decreases [simplified])

declare seal_loop.simps [simp del]

lemma wp_seal_loop:
  "wp (seal_loop ossl put header pre k aad idx) Q E s =
     wp (seal_step ossl put header pre k aad idx)
       (\<lambda>fin t. if idx = - 1 \<and> \<not> fin then E (Error invalid_input ''file is too large to seal'') t
          else if fin then Q () t else wp (seal_loop ossl put header pre k aad (idx + 1)) Q E t) E s"
  unfolding wp_def [of "seal_loop ossl put header pre k aad idx"] wp_def [of "seal_step ossl put header pre k aad idx"]
  by (subst seal_loop.simps) (auto simp: wp_def split: prod.split sum.split)

definition seal_stream_payload ::
  "('w, 'c, 'd) openssl \<Rightarrow> (bytes \<Rightarrow> (error, 'o, unit) act) \<Rightarrow> bytes \<Rightarrow> bytes \<Rightarrow> key256 \<Rightarrow> bytes \<Rightarrow>
   (error, ('o, 'w) file_state, unit) act" where
  "seal_stream_payload ossl write_all header prefix_bytes file_key aad =
     thenM (on_output (write_all header)) (seal_loop ossl write_all header prefix_bytes file_key aad 0)"

section \<open>Opening\<close>

text \<open>\<^verbatim>\<open>if (!read_exact(...)) throw_invalid_packet();\<close>\<close>

definition read_or_reject :: "nat \<Rightarrow> (error, istream, bytes) act" where
  "read_or_reject n =
     bindM (read_exact n) (\<lambda>r. case r of None \<Rightarrow> throw file_invalid_packet | Some data \<Rightarrow> ret data)"

text \<open>One iteration; the result is \<^verbatim>\<open>saw_final\<close>.\<close>

definition open_step ::
  "('w, 'c, 'd) openssl \<Rightarrow> (bytes \<Rightarrow> (error, 'o, unit) act) \<Rightarrow> bytes \<Rightarrow> bytes \<Rightarrow> key256 \<Rightarrow> bytes \<Rightarrow> u32 \<Rightarrow>
   (error, ('o, 'w) file_state, bool) act" where
  "open_step ossl write_all header prefix_bytes file_key aad expected_index =
     bindM (on_input (read_or_reject kRecordHeaderSize)) (\<lambda>header_data.
     bindM (lift_result (parse_record_header header_data)) (\<lambda>rec.
     thenM (throw_if (index rec \<noteq> expected_index) file_invalid_packet)
    (thenM (throw_if (final_flag rec = kNotFinal \<and> plaintext_size rec \<noteq> kChunkSize) file_invalid_packet)
    (bindM (on_input (read_or_reject (unat (plaintext_size rec)))) (\<lambda>ciphertext.
     bindM (on_input (read_or_reject kFileTagSize)) (\<lambda>tag.
     thenM (if final_flag rec = kFinal then on_input reject_trailing_data else ret ())
    (let nonce = make_nonce prefix_bytes (index rec);
         chunk_aad = make_chunk_aad header rec aad in
     bindM (on_library (decrypt_chunk ossl ciphertext tag file_key nonce chunk_aad)) (\<lambda>plaintext.
     thenM (on_output (write_all plaintext))
           (ret (final_flag rec = kFinal))))))))))"

function open_loop ::
  "('w, 'c, 'd) openssl \<Rightarrow> (bytes \<Rightarrow> (error, 'o, unit) act) \<Rightarrow> bytes \<Rightarrow> bytes \<Rightarrow> key256 \<Rightarrow> bytes \<Rightarrow> u32 \<Rightarrow>
   (error, ('o, 'w) file_state, unit) act" where
  "open_loop ossl write_all header prefix_bytes file_key aad expected_index s =
     (case open_step ossl write_all header prefix_bytes file_key aad expected_index s of
        (Inl e, s') \<Rightarrow> (Inl e, s')
      | (Inr saw_final, s') \<Rightarrow>
          if expected_index = - 1 \<and> \<not> saw_final then (Inl file_invalid_packet, s')
          else if saw_final then (Inr (), s')
          else open_loop ossl write_all header prefix_bytes file_key aad (expected_index + 1) s')"
  by pat_completeness auto
termination
  by (relation "measure (\<lambda>(_, _, _, _, _, _, i, _). 2 ^ 32 - unat i)")
    (auto intro!: loop_index_decreases [simplified])

declare open_loop.simps [simp del]

lemma wp_open_loop:
  "wp (open_loop ossl put header pre k aad idx) Q E s =
     wp (open_step ossl put header pre k aad idx)
       (\<lambda>fin t. if idx = - 1 \<and> \<not> fin then E file_invalid_packet t
          else if fin then Q () t else wp (open_loop ossl put header pre k aad (idx + 1)) Q E t) E s"
  unfolding wp_def [of "open_loop ossl put header pre k aad idx"] wp_def [of "open_step ossl put header pre k aad idx"]
  by (subst open_loop.simps) (auto simp: wp_def split: prod.split sum.split)

definition open_file_payload ::
  "('w, 'c, 'd) openssl \<Rightarrow> (bytes \<Rightarrow> (error, 'o, unit) act) \<Rightarrow> bytes \<Rightarrow> bytes \<Rightarrow> key256 \<Rightarrow> bytes \<Rightarrow>
   (error, ('o, 'w) file_state, unit) act" where
  "open_file_payload ossl write_all header prefix_bytes file_key aad =
     open_loop ossl write_all header prefix_bytes file_key aad 0"

section \<open>The format of the records\<close>

text \<open>
  The plaintext cut into chunks: full chunks, then a last one that holds the rest, full or
  not, and is empty only for an empty file.
\<close>

function split_chunks :: "nat \<Rightarrow> 'a list \<Rightarrow> 'a list list" where
  "split_chunks n xs = (if n = 0 \<or> length xs \<le> n then [xs] else take n xs # split_chunks n (drop n xs))"
  by pat_completeness auto
termination by (relation "measure (\<lambda>(_, xs). length xs)") auto

declare split_chunks.simps [simp del]

lemma split_chunks_last: "length xs \<le> n \<Longrightarrow> split_chunks n xs = [xs]"
  by (subst split_chunks.simps) simp

lemma split_chunks_more:
  "n \<noteq> 0 \<Longrightarrow> n < length xs \<Longrightarrow> split_chunks n xs = take n xs # split_chunks n (drop n xs)"
  by (subst split_chunks.simps) simp

lemma split_chunks_not_Nil [simp]: "split_chunks n xs \<noteq> []"
  by (subst split_chunks.simps) simp

lemma concat_split_chunks [simp]: "concat (split_chunks n xs) = xs"
  by (induction n xs rule: split_chunks.induct) (subst split_chunks.simps, auto)

lemma length_split_chunks_drop:
  "n \<noteq> 0 \<Longrightarrow> n < length xs \<Longrightarrow> length (split_chunks n xs) = Suc (length (split_chunks n (drop n xs)))"
  by (simp add: split_chunks_more)

type_synonym seal_fun = "u32 \<Rightarrow> bool \<Rightarrow> bytes \<Rightarrow> bytes"

text \<open>One record: header, ciphertext, tag; the tag covers file header, record header and caller AAD.\<close>

definition sealed_record ::
  "key_stream \<Rightarrow> gcm_tag \<Rightarrow> bytes \<Rightarrow> bytes \<Rightarrow> key256 \<Rightarrow> bytes \<Rightarrow> seal_fun" where
  "sealed_record ks tg header pre file_key aad i final chunk =
     (let rb = record_bytes i (of_nat (length chunk)) (if final then kFinal else kNotFinal);
          nonce = make_nonce pre i;
          ciphertext = crypt (ks file_key nonce) 0 chunk
      in rb @ ciphertext @ tg file_key nonce (header @ rb @ aad) ciphertext)"

fun payload :: "seal_fun \<Rightarrow> u32 \<Rightarrow> bytes list \<Rightarrow> bytes" where
  "payload f i [] = []"
| "payload f i [chunk] = f i True chunk"
| "payload f i (chunk # chunks) = f i False chunk @ payload f (i + 1) chunks"

lemma payload_Cons: "chunks \<noteq> [] \<Longrightarrow> payload f i (chunk # chunks) = f i False chunk @ payload f (i + 1) chunks"
  by (cases chunks) simp_all

text \<open>
  The sequences of chunks that opening accepts: all but the last are full. (Sealing never
  writes an empty last chunk after a full one, but a record like that is accepted.)
\<close>

fun valid_chunks :: "bytes list \<Rightarrow> bool" where
  "valid_chunks [] = False"
| "valid_chunks [c] = (length c \<le> unat kChunkSize)"
| "valid_chunks (c # cs) = (length c = unat kChunkSize \<and> valid_chunks cs)"

lemma valid_chunks_Cons: "cs \<noteq> [] \<Longrightarrow> valid_chunks (c # cs) \<longleftrightarrow> length c = 1048576 \<and> valid_chunks cs"
  by (cases cs) simp_all

lemma valid_chunks_not_Nil: "valid_chunks cs \<Longrightarrow> cs \<noteq> []"
  by (cases cs) simp_all

lemma valid_split_chunks: "valid_chunks (split_chunks 1048576 xs)"
proof (induction "1048576 :: nat" xs rule: split_chunks.induct)
  case (1 xs)
  then show ?case
    by (cases "length xs \<le> 1048576") (simp_all add: split_chunks_last split_chunks_more valid_chunks_Cons)
qed

text \<open>Chunks with the same content differ at most by an empty last one.\<close>

lemma valid_chunks_unique:
  "valid_chunks cs \<Longrightarrow> cs = split_chunks 1048576 (concat cs) \<or> cs = split_chunks 1048576 (concat cs) @ [[]]"
proof (induction cs rule: valid_chunks.induct)
  case (2 c)
  then show ?case by (simp add: split_chunks_last)
next
  case (3 c d cs)
  then have c: "length c = 1048576" and v: "valid_chunks (d # cs)" by simp_all
  show ?case
  proof (cases "concat (d # cs) = []")
    case True
    then have "d = []" "cs = []" using v by (cases cs; simp)+
    then show ?thesis using c by (simp add: split_chunks_last)
  next
    case False
    then have "split_chunks 1048576 (c @ concat (d # cs)) = c # split_chunks 1048576 (concat (d # cs))"
      using c by (subst split_chunks_more) (simp_all del: concat.simps)
    then show ?thesis using 3 v by simp
  qed
qed simp

section \<open>The contract of an output\<close>

text \<open>
  \<open>accepted\<close> is what the output holds: a write that returns has appended its data, a
  write that throws has appended a part of it.
\<close>

locale sink =
  fixes put :: "bytes \<Rightarrow> (error, 'o, unit) act"
    and accepted :: "'o \<Rightarrow> bytes"
  assumes put_ok: "put data o1 = (Inr (), o2) \<Longrightarrow> accepted o2 = accepted o1 @ data"
    and put_failed: "put data o1 = (Inl e, o2) \<Longrightarrow>
          code e = backend_failure \<and> (\<exists>part. prefix part data \<and> accepted o2 = accepted o1 @ part)"

text \<open>An output with room for everything: no write fails.\<close>

locale roomy_sink = sink +
  fixes roomy :: "'o \<Rightarrow> bool"
  assumes roomy_put: "roomy o1 \<Longrightarrow> \<exists>o2. put data o1 = (Inr (), o2) \<and> roomy o2"

definition ostream_roomy :: "ostream \<Rightarrow> bool" where
  "ostream_roomy s \<longleftrightarrow> room s = None \<and> \<not> ofail s"

interpretation stream_sink: roomy_sink write_all_stream written ostream_roomy
proof (unfold_locales, goal_cases)
  case (1 data o1 o2)
  then show ?case
    by (auto simp: write_all_stream_def act_simps ostream_write_def split: if_splits option.splits)
next
  case (2 data o1 e o2)
  then show ?case
    by (auto simp: write_all_stream_def act_simps ostream_write_def file_backend_failure_def take_is_prefix
        split: if_splits option.splits)
next
  case (3 o1 data)
  then show ?case
    by (simp add: write_all_stream_def act_simps ostream_write_def ostream_roomy_def)
qed

section \<open>Lemmas: sealing\<close>

abbreviation chunk :: nat where "chunk \<equiv> unat kChunkSize"

lemma wp_on_input [wp_simps]:
  "wp (on_input m) Q E (i, o1, w) = wp m (\<lambda>a i'. Q a (i', o1, w)) (\<lambda>e i'. E e (i', o1, w)) i"
  by (simp add: on_input_def wp_simps)

lemma wp_on_output [wp_simps]:
  "wp (on_output m) Q E (i, o1, w) = wp m (\<lambda>a o2. Q a (i, o2, w)) (\<lambda>e o2. E e (i, o2, w)) o1"
  by (simp add: on_output_def wp_simps)

lemma wp_on_library [wp_simps]:
  "wp (on_library m) Q E (i, o1, w) = wp m (\<lambda>a w'. Q a (i, o1, w')) (\<lambda>e w'. E e (i, o1, w')) w"
  by (simp add: on_library_def wp_simps)

lemma word_of_int_nat_small: "m \<le> 1048576 \<Longrightarrow> unat (word_of_int (int m) :: u32) = m"
  by (simp add: unsigned_of_nat take_bit_nat_eq_self)

text \<open>What a read returns: the last bytes, or a full chunk with more to come.\<close>

lemma seal_read_wp:
  assumes "good i"
  shows "wp seal_read
    (\<lambda>(buffer, size_in, is_final) i'. size_in = of_nat (length buffer) \<and> length buffer \<le> chunk \<and>
       (if is_final then buffer = remaining i \<and> \<not> faulty i
        else chunk < length (remaining i) \<and> buffer = take chunk (remaining i) \<and>
          good i' \<and> faulty i' = faulty i \<and> remaining i' = drop chunk (remaining i)))
    (\<lambda>e _. e = file_backend_failure ''File read failed'' \<and> faulty i) i"
proof (cases "length (remaining i) < 1048576")
  case True
  then have "word_of_int (int (length (remaining i))) < kChunkSize"
    by (simp add: word_less_nat_alt unsigned_of_nat take_bit_nat_eq_self)
  with True assms show ?thesis
    by (auto simp: seal_read_def wp_simps Let_def istream_read_def stream_fail_def good_def)
next
  case False
  have size: "\<not> (word_of_int 1048576 :: u32) < kChunkSize" by (simp add: kChunkSize_def)
  show ?thesis
    using False assms size
    by (auto simp: seal_read_def wp_simps Let_def istream_read_full stream_fail_def good_def
        istream_peek_eof_def kChunkSize_def)
qed

text \<open>
  The failures of sealing and their causes: a read fault, a backend call that fails, additional
  data above the OpenSSL limit, an output without room.
\<close>

definition payload_fault ::
  "('w, 'c, 'd) openssl \<Rightarrow> ('c \<Rightarrow> gcm_view) \<Rightarrow> gcm_tag \<Rightarrow> bytes \<Rightarrow> bytes \<Rightarrow> bool \<Rightarrow> bool \<Rightarrow> error \<Rightarrow> bool" where
  "payload_fault ossl view tg header aad read_fault has_room e \<longleftrightarrow>
     e = file_backend_failure ''File read failed'' \<and> read_fault \<or>
     file_gcm_fault ossl view tg e \<or>
     int_max < length header + 9 + length aad \<and> code e = invalid_input \<or>
     code e = backend_failure \<and> \<not> has_room"

context roomy_sink begin

lemma put_wp:
  "wp (put data) (\<lambda>_ o2. accepted o2 = accepted o1 @ data \<and> (roomy o1 \<longrightarrow> roomy o2))
     (\<lambda>e o2. code e = backend_failure \<and> \<not> roomy o1 \<and> (\<exists>part. prefix part data \<and> accepted o2 = accepted o1 @ part)) o1"
  using put_ok [of data o1] put_failed [of data o1] roomy_put [of o1 data]
  by (auto intro!: wpI)

lemma put3_wp:
  assumes "\<And>o2. accepted o2 = accepted o1 @ a @ b @ c \<Longrightarrow> (roomy o1 \<longrightarrow> roomy o2) \<Longrightarrow> Q x (i, o2, w)"
    and "\<And>e o2. code e = backend_failure \<Longrightarrow> \<not> roomy o1 \<Longrightarrow> E e (i, o2, w)"
  shows "wp (thenM (on_output (put a)) (thenM (on_output (put b)) (thenM (on_output (put c)) (ret x)))) Q E (i, o1, w)"
  apply (simp add: wp_simps)
  apply (rule wp_conseq [OF put_wp])
   apply (rule wp_conseq [OF put_wp])
    apply (rule wp_conseq [OF put_wp])
  using assms by auto

lemma seal_step_wp:
  assumes "gcm_documented ossl view ks tg" and "length k = 32" and "length pre = 8" and "good i"
  shows "wp (seal_step ossl put header pre k aad idx)
    (\<lambda>fin (i', o2, w'). (roomy o1 \<longrightarrow> roomy o2) \<and>
       (if fin then length (remaining i) \<le> chunk \<and> \<not> faulty i \<and>
          accepted o2 = accepted o1 @ sealed_record ks tg header pre k aad idx True (remaining i)
        else chunk < length (remaining i) \<and>
          accepted o2 = accepted o1 @ sealed_record ks tg header pre k aad idx False (take chunk (remaining i)) \<and>
          good i' \<and> faulty i' = faulty i \<and> remaining i' = drop chunk (remaining i)))
    (\<lambda>e _. payload_fault ossl view tg header aad (faulty i) (roomy o1) e) (i, o1, w)"
  unfolding seal_step_def wp_bindM wp_on_input
proof (rule wp_conseq [OF seal_read_wp [OF assms(4)]], goal_cases)
  case (1 r i')
  obtain buffer size_in is_final where r: "r = (buffer, size_in, is_final)" by (metis prod_cases3)
  have len: "length buffer \<le> 1048576" and s: "size_in = of_nat (length buffer)"
    using 1(2) by (simp_all add: r)
  have t: "take (unat size_in) buffer = buffer"
    using len by (simp add: s unsigned_of_nat take_bit_nat_eq_self)
  have nonce: "length (make_nonce pre idx) = 12" using assms(3) by (simp add: make_nonce_bytes)
  have small: "\<not> int_max < length buffer" using len by (simp add: int_max_def)
  show ?case
    unfolding r prod.case Let_def t wp_bindM wp_on_library
    apply (rule wp_conseq [OF encrypt_chunk_doc [OF assms(1, 2) nonce]])
     apply (rule put3_wp)
    using 1(2)
      apply (auto simp: r s sealed_record_def Let_def make_chunk_aad_def make_record_header_bytes
        payload_fault_def small size_fault_def)
    done
next
  case (2 e i')
  then show ?case by (simp add: payload_fault_def)
qed

lemma seal_loop_wp:
  assumes "gcm_documented ossl view ks tg" and "length k = 32" and "length pre = 8"
  shows "good i \<Longrightarrow> wp (seal_loop ossl put header pre k aad idx)
    (\<lambda>_ (i', o2, w'). (roomy o1 \<longrightarrow> roomy o2) \<and> \<not> faulty i \<and>
       unat idx + length (split_chunks chunk (remaining i)) \<le> 2 ^ 32 \<and>
       accepted o2 = accepted o1 @ payload (sealed_record ks tg header pre k aad) idx (split_chunks chunk (remaining i)))
    (\<lambda>e _. payload_fault ossl view tg header aad (faulty i) (roomy o1) e \<or>
       e = Error invalid_input ''file is too large to seal'' \<and>
       2 ^ 32 < unat idx + length (split_chunks chunk (remaining i))) (i, o1, w)"
    (is "_ \<Longrightarrow> wp _ (?Q idx i o1) (?E idx i o1) _")
proof (induction "2 ^ 32 - unat idx" arbitrary: idx i o1 w rule: less_induct)
  case less
  let ?f = "sealed_record ks tg header pre k aad"
  have idx: "unat idx < 2 ^ 32" using unsigned_less [of idx, where 'a = nat] by simp
  show ?case
  proof (subst wp_seal_loop, rule wp_conseq [OF seal_step_wp [OF assms less.prems]], goal_cases)
    case (2 e s)
    then show ?case by (auto split: prod.splits)
  next
    case (1 fin s)
    obtain i' o2 w' where s: "s = (i', o2, w')" by (metis prod_cases3)
    show ?case
    proof (cases fin)
      case True
      then show ?thesis using 1 idx by (simp add: s split_chunks_last)
    next
      case False
      then have post: "accepted o2 = accepted o1 @ ?f idx False (take 1048576 (remaining i))" "good i'" "faulty i' = faulty i"
        "remaining i' = drop 1048576 (remaining i)" "roomy o1 \<longrightarrow> roomy o2" "1048576 < length (remaining i)"
        using 1 by (auto simp: s)
      have more: "split_chunks 1048576 (remaining i) = take 1048576 (remaining i) # split_chunks 1048576 (remaining i')"
        using post(6) by (simp add: post(4) split_chunks_more)
      show ?thesis
      proof (cases "idx = - 1")
        case True
        then have "unat idx = 2 ^ 32 - 1" by (simp add: unsigned_minus_1_eq_mask mask_eq_exp_minus_1)
        moreover have "0 < length (split_chunks 1048576 (remaining i'))" by simp
        ultimately show ?thesis using True False by (simp add: s more)
      next
        case ne: False
        have "wp (seal_loop ossl put header pre k aad (idx + 1)) (?Q idx i o1) (?E idx i o1) (i', o2, w')"
        proof (rule wp_mono [OF less.hyps [OF loop_index_decreases [OF ne] post(2), of o2 w']], goal_cases)
          case (1 u s)
          then show ?case
            using post(1, 5) by (cases s) (simp add: more payload_Cons unat_Suc_u32 [OF ne] post(3))
        next
          case (2 e s)
          then show ?case
            using post(5) by (cases s) (auto simp: more unat_Suc_u32 [OF ne] post(3) payload_fault_def)
        qed
        then show ?thesis using False ne by (simp add: s)
      qed
    qed
  qed
qed

lemma seal_stream_payload_wp:
  assumes "gcm_documented ossl view ks tg" and "length k = 32" and "length pre = 8" and "good i"
  shows "wp (seal_stream_payload ossl put header pre k aad)
    (\<lambda>_ (i', o2, w'). (roomy o1 \<longrightarrow> roomy o2) \<and> \<not> faulty i \<and> length (split_chunks chunk (remaining i)) \<le> 2 ^ 32 \<and>
       accepted o2 = accepted o1 @ header @
         payload (sealed_record ks tg header pre k aad) 0 (split_chunks chunk (remaining i)))
    (\<lambda>e _. payload_fault ossl view tg header aad (faulty i) (roomy o1) e \<or>
       e = Error invalid_input ''file is too large to seal'' \<and>
       2 ^ 32 < length (split_chunks chunk (remaining i))) (i, o1, w)"
  unfolding seal_stream_payload_def wp_thenM wp_on_output
  apply (rule wp_conseq [OF put_wp])
   apply (rule wp_conseq [OF seal_loop_wp [OF assms]])
  by (auto simp: payload_fault_def)

end

section \<open>Lemmas: opening\<close>

lemma read_or_reject_wp:
  assumes "good i"
  shows "wp (read_or_reject n)
    (\<lambda>data i'. remaining i = data @ remaining i' \<and> length data = n \<and> good i' \<and> faulty i' = faulty i)
    (\<lambda>e _. e = file_invalid_packet \<or> e = file_backend_failure ''File read failed'' \<and> faulty i) i"
proof -
  have "wp (read_exact n)
      (\<lambda>r i'. case r of None \<Rightarrow> True | Some data \<Rightarrow>
         remaining i = data @ remaining i' \<and> length data = n \<and> good i' \<and> faulty i' = faulty i)
      (\<lambda>e _. e = file_backend_failure ''File read failed'' \<and> faulty i) i"
    using read_exact_Some [of n i] read_exact_Inl [of n i] assms
    by (intro wpI) (auto split: option.splits)
  then show ?thesis
    unfolding read_or_reject_def wp_bindM by (rule wp_conseq) (auto simp: wp_simps)
qed

lemma read_or_reject_ok:
  assumes "good i" and "remaining i = data @ rest"
  shows "read_or_reject (length data) i = (Inr data, i\<lparr>remaining := rest, gcount := length data\<rparr>)"
  using assms by (simp add: read_or_reject_def bindM_apply read_exact_ok)

lemma reject_trailing_wp:
  assumes "good i"
  shows "wp reject_trailing_data (\<lambda>_ _. remaining i = [] \<and> \<not> faulty i)
    (\<lambda>e _. e = file_invalid_packet \<or> e = file_backend_failure ''File read failed'' \<and> faulty i) i"
  using reject_trailing_data_Inr [of i] reject_trailing_data_Inl [of i] assms by (intro wpI) auto

text \<open>A record of the format at the front of the input, and what follows it.\<close>

definition record_at :: "seal_fun \<Rightarrow> u32 \<Rightarrow> bytes \<Rightarrow> bool \<Rightarrow> bytes \<Rightarrow> bytes \<Rightarrow> bool" where
  "record_at f i data final p rest \<longleftrightarrow>
     data = f i final p @ rest \<and> (if final then rest = [] \<and> length p \<le> chunk else length p = chunk)"

text \<open>
  Plaintext an input vouches for: the chunks of authentic records from its front, in
  order, up to a part of the last of them.
\<close>

inductive released :: "seal_fun \<Rightarrow> u32 \<Rightarrow> bytes \<Rightarrow> bytes \<Rightarrow> bool" for f where
  nothing: "released f i data []"
| part: "record_at f i data final p rest \<Longrightarrow> prefix out p \<Longrightarrow> released f i data out"
| chunk: "record_at f i data False p rest \<Longrightarrow> released f (i + 1) rest out \<Longrightarrow> released f i data (p @ out)"

text \<open>The failures of opening.\<close>

definition open_fault ::
  "('w, 'c, 'd) openssl \<Rightarrow> ('c \<Rightarrow> gcm_view) \<Rightarrow> gcm_tag \<Rightarrow> bytes \<Rightarrow> bytes \<Rightarrow> bool \<Rightarrow> bool \<Rightarrow> error \<Rightarrow> bool" where
  "open_fault ossl view tg header aad read_fault has_room e \<longleftrightarrow>
     e = file_invalid_packet \<or> e = file_authentication_failed \<or> payload_fault ossl view tg header aad read_fault has_room e"

context roomy_sink begin

text \<open>The last part of a step: one chunk is decrypted and written.\<close>

lemma open_chunk_wp:
  fixes ks tg header pre k aad
  defines "f \<equiv> sealed_record ks tg header pre k aad"
  assumes "gcm_documented ossl view ks tg" and "length k = 32" and "length pre = 8" and n: "n \<le> kChunkSize"
    and flag: "flag = kNotFinal \<or> flag = kFinal" "flag = kNotFinal \<Longrightarrow> n = kChunkSize" "flag = kFinal \<Longrightarrow> rest = []"
    and data: "data = record_bytes idx n flag @ ct @ tag @ rest" "length ct = unat n" "length tag = 16"
  shows "wp (decrypt_chunk ossl ct tag k (make_nonce pre idx) (header @ record_bytes idx n flag @ aad))
    (\<lambda>p w'. wp (put p)
       (\<lambda>_ o2. (roomy o1 \<longrightarrow> roomy o2) \<and> record_at f idx data (flag = kFinal) p rest \<and> accepted o2 = accepted o1 @ p)
       (\<lambda>e o2. open_fault ossl view tg header aad read_fault (roomy o1) e \<and>
          (\<exists>p part. record_at f idx data (flag = kFinal) p rest \<and> prefix part p \<and> accepted o2 = accepted o1 @ part)) o1)
    (\<lambda>e w'. open_fault ossl view tg header aad read_fault (roomy o1) e) w"
proof -
  have n': "unat n \<le> 1048576" using n by (simp add: word_le_nat_alt)
  have nonce: "length (make_nonce pre idx) = 12" using assms(4) by (simp add: make_nonce_bytes)
  have rec_at: "record_at f idx data (flag = kFinal) (crypt (ks k (make_nonce pre idx)) 0 ct) rest"
    if "tag = tg k (make_nonce pre idx) (header @ record_bytes idx n flag @ aad) ct"
    using that flag data n' by (auto simp: record_at_def f_def sealed_record_def Let_def)
  show ?thesis
  proof (rule wp_conseq [OF decrypt_chunk_doc [OF assms(2, 3) nonce]], goal_cases)
    case (2 p w')
    show ?case
      by (rule wp_conseq [OF put_wp]) (use rec_at 2 in \<open>auto simp: open_fault_def payload_fault_def\<close>)
  qed (use n' data in \<open>auto simp: open_fault_def payload_fault_def size_fault_def int_max_def\<close>)
qed

lemma open_step_wp:
  fixes ks tg header pre k aad
  defines "f \<equiv> sealed_record ks tg header pre k aad"
  assumes "gcm_documented ossl view ks tg" and "length k = 32" and "length pre = 8" and "good i"
  shows "wp (open_step ossl put header pre k aad idx)
    (\<lambda>fin (i', o2, w'). (roomy o1 \<longrightarrow> roomy o2) \<and> (fin \<longrightarrow> \<not> faulty i) \<and>
       (\<exists>p rest. record_at f idx (remaining i) fin p rest \<and> accepted o2 = accepted o1 @ p \<and>
          (\<not> fin \<longrightarrow> good i' \<and> faulty i' = faulty i \<and> remaining i' = rest)))
    (\<lambda>e (i', o2, w'). open_fault ossl view tg header aad (faulty i) (roomy o1) e \<and>
       (\<exists>part. accepted o2 = accepted o1 @ part \<and>
          (part = [] \<or> (\<exists>fin p rest. record_at f idx (remaining i) fin p rest \<and> prefix part p)))) (i, o1, w)"
  unfolding open_step_def wp_bindM wp_on_input
proof (rule wp_conseq [OF read_or_reject_wp [OF assms(5)]], goal_cases)
  case (2 e i')
  then show ?case by (auto simp: open_fault_def payload_fault_def)
next
  case (1 d i1)
  show ?case
  proof (cases "parse_record_header d")
    case (Inl e)
    then show ?thesis by (auto simp: wp_simps open_fault_def dest: parse_record_header_Inl)
  next
    case (Inr rec)
    then obtain ri n flag where d: "d = record_bytes ri n flag" "flag = kNotFinal \<or> flag = kFinal" "n \<le> kChunkSize"
      and rec: "rec = make_record_header ri n flag"
      using 1(2) parse_record_header_Inr [of d rec] by auto
    let ?E = "\<lambda>e (i', o2, w'). open_fault ossl view tg header aad (faulty i) (roomy o1) e \<and>
       (\<exists>part. accepted o2 = accepted o1 @ part \<and>
          (part = [] \<or> (\<exists>fin p rest. record_at f idx (remaining i) fin p rest \<and> prefix part p)))"
    have early: "?E e (i', o1, w')" if "e = file_invalid_packet \<or> e = file_backend_failure ''File read failed'' \<and> faulty i"
      for e i' w' using that by (auto simp: open_fault_def payload_fault_def)
    show ?thesis
    proof (cases "ri = idx \<and> (flag = kNotFinal \<longrightarrow> n = kChunkSize)")
      case False
      then show ?thesis
        unfolding Inr using early [of file_invalid_packet i1 w]
        by (auto simp: wp_simps rec make_record_header_bytes)
    next
      case True
      then have ri: "ri = idx" and full: "flag = kNotFinal \<Longrightarrow> n = kChunkSize" by simp_all
      have tail: "wp (decrypt_chunk ossl ct tag k (make_nonce pre idx) (header @ record_bytes idx n flag @ aad))
          (\<lambda>p w'. wp (put p)
             (\<lambda>_ o2. (roomy o1 \<longrightarrow> roomy o2) \<and> record_at f idx (remaining i) (flag = kFinal) p rest \<and> accepted o2 = accepted o1 @ p)
             (\<lambda>e o2. ?E e (i', o2, w')) o1)
          (\<lambda>e w'. ?E e (i', o1, w')) w"
        if "remaining i1 = ct @ tag @ rest" "length ct = unat n" "length tag = 16" "flag = kFinal \<Longrightarrow> rest = []"
        for ct tag rest i'
      proof -
        have "remaining i = record_bytes idx n flag @ ct @ tag @ rest" using 1(2) that(1) d(1) ri by simp
        note chunk = open_chunk_wp [OF assms(2-4) d(3, 2) full that(4) this that(2, 3), where header = header and aad = aad
            and ?o1.0 = o1 and w = w and read_fault = "faulty i", folded f_def]
        show ?thesis
          by (rule wp_conseq [OF chunk]; (erule wp_mono)?) auto
      qed
      show ?thesis
      proof (cases "flag = kFinal")
        case True
        show ?thesis
          unfolding Inr
          apply (simp add: wp_simps rec make_record_header_bytes ri True make_chunk_aad_def del: split_paired_All)
          apply (rule wp_conseq [OF read_or_reject_wp])
            apply (simp add: 1(2))
           apply (rule wp_conseq [OF read_or_reject_wp], simp)
            apply (rule wp_conseq [OF reject_trailing_wp], simp)
             apply (rule wp_conseq)
               apply (rule tail [unfolded True]; simp)
              apply (erule wp_mono)
               apply (use 1(2) in auto)[2]
             apply simp
          using 1(2) by (auto simp: open_fault_def payload_fault_def)
      next
        case False
        with d(2) have not_final: "flag = kNotFinal" by simp
        then have nk: "n = kChunkSize" by (rule full)
        show ?thesis
          unfolding Inr
          apply (simp add: wp_simps rec make_record_header_bytes ri not_final nk make_chunk_aad_def del: split_paired_All)
          apply (rule wp_conseq [OF read_or_reject_wp])
            apply (simp add: 1(2))
           apply (rule wp_conseq [OF read_or_reject_wp], simp)
            apply (rule wp_conseq)
              apply (rule tail [unfolded not_final nk]; simp)
             apply (erule wp_mono)
              apply (use 1(2) in auto)[2]
            apply simp
          using 1(2) by (auto simp: open_fault_def payload_fault_def)
      qed
    qed
  qed
qed

lemma open_loop_wp:
  fixes ks tg header pre k aad
  defines "f \<equiv> sealed_record ks tg header pre k aad"
  assumes "gcm_documented ossl view ks tg" and "length k = 32" and "length pre = 8"
  shows "good i \<Longrightarrow> wp (open_loop ossl put header pre k aad idx)
    (\<lambda>_ (i', o2, w'). (roomy o1 \<longrightarrow> roomy o2) \<and> \<not> faulty i \<and>
       (\<exists>chunks. valid_chunks chunks \<and> remaining i = payload f idx chunks \<and> accepted o2 = accepted o1 @ concat chunks \<and>
          unat idx + length chunks \<le> 2 ^ 32))
    (\<lambda>e (i', o2, w'). open_fault ossl view tg header aad (faulty i) (roomy o1) e \<and>
       (\<exists>out. accepted o2 = accepted o1 @ out \<and> released f idx (remaining i) out)) (i, o1, w)"
    (is "_ \<Longrightarrow> wp _ (?Q idx i o1) (?E idx i o1) _")
proof (induction "2 ^ 32 - unat idx" arbitrary: idx i o1 w rule: less_induct)
  case less
  have idx: "unat idx < 2 ^ 32" using unsigned_less [of idx, where 'a = nat] by simp
  show ?case
  proof (subst wp_open_loop, rule wp_conseq [OF open_step_wp [OF assms(2-4) less.prems, folded f_def]], goal_cases)
    case (2 e s)
    then show ?case by (auto simp: f_def intro: released.intros)
  next
    case (1 fin s)
    obtain i' o2 w' where s: "s = (i', o2, w')" by (metis prod_cases3)
    from 1 obtain p rest where post: "roomy o1 \<longrightarrow> roomy o2" "fin \<longrightarrow> \<not> faulty i" "record_at f idx (remaining i) fin p rest"
        "accepted o2 = accepted o1 @ p" "\<not> fin \<longrightarrow> good i' \<and> faulty i' = faulty i \<and> remaining i' = rest"
      by (force simp: s f_def)
    show ?case
    proof (cases fin)
      case True
      then show ?thesis
        using post idx by (auto simp: s record_at_def intro!: exI [of _ "[p]"])
    next
      case False
      with post have p: "remaining i = f idx False p @ rest" "length p = 1048576" and rel: "record_at f idx (remaining i) False p rest"
        by (simp_all add: record_at_def)
      show ?thesis
      proof (cases "idx = - 1")
        case True
        then show ?thesis
          using False post(4) released.part [OF rel prefix_order.refl] by (auto simp: s open_fault_def)
      next
        case ne: False
        have i': "good i'" "faulty i' = faulty i" "remaining i' = rest" using post(5) False by simp_all
        have "wp (open_loop ossl put header pre k aad (idx + 1)) (?Q idx i o1) (?E idx i o1) (i', o2, w')"
        proof (rule wp_mono [OF less.hyps [OF loop_index_decreases [OF ne] i'(1), of o2 w']], goal_cases)
          case (1 u s)
          then obtain chunks where c: "valid_chunks chunks" "rest = payload f (idx + 1) chunks"
              "accepted (fst (snd s)) = accepted o2 @ concat chunks" "unat (idx + 1) + length chunks \<le> 2 ^ 32"
            using i'(3) by auto
          have "valid_chunks (p # chunks)" "remaining i = payload f idx (p # chunks)"
            using c(1, 2) p valid_chunks_not_Nil [OF c(1)] by (simp_all add: valid_chunks_Cons payload_Cons)
          then show ?case
            using 1 c post(1, 4) i'(2) by (auto simp: unat_Suc_u32 [OF ne] intro!: exI [of _ "p # chunks"])
        next
          case (2 e s)
          then obtain out where "accepted (fst (snd s)) = accepted o2 @ out" "released f (idx + 1) rest out"
            using i'(3) by auto
          with 2 show ?case
            using post(1, 4) i'(2) released.chunk [OF rel] by (auto simp: open_fault_def payload_fault_def)
        qed
        then show ?thesis using False ne by (simp add: s)
      qed
    qed
  qed
qed

lemma put_roomy:
  assumes "roomy o1"
  obtains o2 where "put data o1 = (Inr (), o2)" "roomy o2" "accepted o2 = accepted o1 @ data"
  using assms roomy_put put_ok by blast

lemma open_step_complete:
  fixes ks tg header pre k aad
  defines "f \<equiv> sealed_record ks tg header pre k aad"
  assumes "gcm_documented ossl view ks tg" and "gcm_available ossl view tg" and "length k = 32" and "length pre = 8"
    and i: "good i" "fin \<longrightarrow> \<not> faulty i" and rec: "record_at f idx (remaining i) fin p rest"
    and "roomy o1" and aad: "length header + 9 + length aad \<le> int_max"
  shows "\<exists>i' o2 w'. open_step ossl put header pre k aad idx (i, o1, w) = (Inr fin, (i', o2, w')) \<and>
    roomy o2 \<and> accepted o2 = accepted o1 @ p \<and> (\<not> fin \<longrightarrow> good i' \<and> faulty i' = faulty i \<and> remaining i' = rest)"
proof -
  let ?flag = "if fin then kFinal else kNotFinal" and ?nonce = "make_nonce pre idx"
  let ?rb = "record_bytes idx (of_nat (length p)) ?flag" and ?c = "crypt (ks k (make_nonce pre idx)) 0 p"
  let ?t = "tg k ?nonce (header @ ?rb @ aad) ?c"
  have len: "length p \<le> 1048576" and full: "\<not> fin \<Longrightarrow> length p = 1048576" and last: "fin \<Longrightarrow> rest = []"
    using rec by (auto simp: record_at_def split: if_splits)
  have t: "length ?t = 16" by (rule gcm_documentedD(14) [OF assms(2)])
  have rem: "remaining i = ?rb @ ?c @ ?t @ rest"
    using rec by (simp add: record_at_def f_def sealed_record_def Let_def)
  have n: "unat (of_nat (length p) :: u32) = length p"
    using len by (simp add: unsigned_of_nat take_bit_nat_eq_self)
  obtain i1 where 1: "read_or_reject 9 i = (Inr ?rb, i1)" "good i1" "faulty i1 = faulty i" "remaining i1 = ?c @ ?t @ rest"
    using read_or_reject_ok [OF i(1) rem] i(1) by simp
  obtain i2 where 2: "read_or_reject (length p) i1 = (Inr ?c, i2)" "good i2" "faulty i2 = faulty i" "remaining i2 = ?t @ rest"
    using read_or_reject_ok [OF 1(2,4)] 1(2,3) by simp
  obtain i3 where 3: "read_or_reject 16 i2 = (Inr ?t, i3)" "good i3" "faulty i3 = faulty i" "remaining i3 = rest"
    using read_or_reject_ok [OF 2(2,4)] 2(2,3) t by simp
  obtain i4 where 4: "fin \<Longrightarrow> reject_trailing_data i3 = (Inr (), i4)"
    using reject_trailing_data_ok [OF _ _ 3(2)] 3 last i(2) by blast
  have parse: "parse_record_header ?rb = Inr (make_record_header idx (of_nat (length p)) ?flag)"
    using len n by (subst parse_record_header_Inr) (auto simp: word_le_nat_alt)
  have nonce: "length ?nonce = 12" using assms(5) by (simp add: make_nonce_bytes)
  have "wp (decrypt_chunk ossl ?c ?t k ?nonce (header @ ?rb @ aad)) (\<lambda>q _. q = p) (\<lambda>_ _. False) w"
    by (rule wp_conseq [OF decrypt_chunk_doc [OF assms(2, 4) nonce]])
      (use t assms(3) len aad in \<open>auto simp: file_gcm_fault_def size_fault_def int_max_def\<close>)
  then obtain w' where 5: "decrypt_chunk ossl ?c ?t k ?nonce (header @ ?rb @ aad) w = (Inr p, w')"
    by (cases "decrypt_chunk ossl ?c ?t k ?nonce (header @ ?rb @ aad) w";
        cases "fst (decrypt_chunk ossl ?c ?t k ?nonce (header @ ?rb @ aad) w)") (auto simp: wp_def)
  obtain o2 where 6: "put p o1 = (Inr (), o2)" "roomy o2" "accepted o2 = accepted o1 @ p"
    using put_roomy [OF assms(9)] .
  have full_flag: "\<not> fin \<Longrightarrow> (of_nat (length p) :: u32) = kChunkSize" using full by (simp add: kChunkSize_def)
  show ?thesis
    using 1(1) 2(1) 3 4 parse 5 6 n full_flag
    by (cases fin)
      (simp_all add: open_step_def act_simps on_input_def on_output_def on_library_def
        make_record_header_bytes make_chunk_aad_def)
qed

lemma open_loop_complete:
  fixes ks tg header pre k aad
  defines "f \<equiv> sealed_record ks tg header pre k aad"
  assumes "gcm_documented ossl view ks tg" and "gcm_available ossl view tg" and "length k = 32" and "length pre = 8"
    and "length header + 9 + length aad \<le> int_max"
  shows "valid_chunks chunks \<Longrightarrow> good i \<Longrightarrow> \<not> faulty i \<Longrightarrow> remaining i = payload f idx chunks \<Longrightarrow> roomy o1 \<Longrightarrow>
    unat idx + length chunks \<le> 2 ^ 32 \<Longrightarrow>
    \<exists>i' o2 w'. open_loop ossl put header pre k aad idx (i, o1, w) = (Inr (), (i', o2, w')) \<and>
      roomy o2 \<and> accepted o2 = accepted o1 @ concat chunks"
proof (induction chunks arbitrary: idx i o1 w rule: valid_chunks.induct)
  case (2 c)
  then have "record_at f idx (remaining i) True c []" by (simp add: record_at_def)
  from open_step_complete [OF assms(2-5), of i True header aad idx c "[]" o1 w, folded f_def, OF "2.prems"(2) _ this "2.prems"(5) assms(6)]
  obtain i' o2 w' where "open_step ossl put header pre k aad idx (i, o1, w) = (Inr True, (i', o2, w'))"
    "roomy o2" "accepted o2 = accepted o1 @ c" using "2.prems"(3) by auto
  then show ?case by (subst open_loop.simps) simp
next
  case (3 c d cs)
  have rec: "record_at f idx (remaining i) False c (payload f (idx + 1) (d # cs))"
    using "3.prems"(1, 4) by (simp add: record_at_def)
  from open_step_complete [OF assms(2-5), of i False header aad idx c _ o1 w, folded f_def, OF "3.prems"(2) _ rec "3.prems"(5) assms(6)]
  obtain i' o2 w' where step: "open_step ossl put header pre k aad idx (i, o1, w) = (Inr False, (i', o2, w'))"
    and post: "roomy o2" "accepted o2 = accepted o1 @ c" "good i'" "faulty i' = faulty i" "remaining i' = payload f (idx + 1) (d # cs)"
    by auto
  have ne: "idx \<noteq> - 1"
    using "3.prems"(6) by (auto simp: unsigned_minus_1_eq_mask mask_eq_exp_minus_1)
  have "unat (idx + 1) + length (d # cs) \<le> 2 ^ 32" using "3.prems"(6) unat_Suc_u32 [OF ne] by simp
  from "3.IH" [OF _ post(3) _ post(5,1) this, of w'] "3.prems"(1, 3) post(4)
  obtain j o3 w'' where "open_loop ossl put header pre k aad (idx + 1) (i', o2, w') = (Inr (), (j, o3, w''))"
    "roomy o3" "accepted o3 = accepted o2 @ concat (d # cs)" by auto
  then show ?case using step ne post(2) by (subst open_loop.simps) simp
qed simp

end

section \<open>Lemmas: what every write keeps, sealing and opening keep\<close>

lemma preserves_on_input [preserves_intros]: "preserves (\<lambda>(i, o1, w). I o1) (on_input m)"
  by (auto simp: preserves_iff on_input_def on_fst_def split: prod.splits)

lemma preserves_on_library [preserves_intros]: "preserves (\<lambda>(i, o1, w). I o1) (on_library m)"
  by (auto simp: preserves_iff on_library_def on_snd_def split: prod.splits)

lemma preserves_on_output [preserves_intros]: "preserves I m \<Longrightarrow> preserves (\<lambda>(i, o1, w). I o1) (on_output m)"
  by (auto simp: preserves_iff on_output_def on_fst_def on_snd_def split: prod.splits)

lemma preserves_lift_result [preserves_intros]: "preserves I (lift_result r)"
  by (simp add: preserves_iff)

lemma preserves_if [preserves_intros]: "preserves I m \<Longrightarrow> preserves I n \<Longrightarrow> preserves I (if b then m else n)"
  by simp

lemma preserves_case_prod [preserves_intros]: "(\<And>a b. preserves I (f a b)) \<Longrightarrow> preserves I (case p of (a, b) \<Rightarrow> f a b)"
  by (simp split: prod.splits)

lemma preserves_Let [preserves_intros]: "(\<And>a. preserves I (f a)) \<Longrightarrow> preserves I (let a = x in f a)"
  by simp

lemma preserves_loop:
  assumes step: "\<And>i. preserves I (step i)"
    and loop: "\<And>i s. loop i s = (case step i s of
        (Inl e, s') \<Rightarrow> (Inl e, s')
      | (Inr fin, s') \<Rightarrow> if i = - 1 \<and> \<not> fin then (Inl err, s') else if fin then (Inr (), s') else loop (i + 1 :: u32) s')"
  shows "preserves I (loop i)"
proof -
  have "I s \<Longrightarrow> I (snd (loop i s))" for s
  proof (induction "2 ^ 32 - unat i" arbitrary: i s rule: less_induct)
    case less
    obtain r s' where st: "step i s = (r, s')" by fastforce
    have s': "I s'" using preservesD [OF step less.prems st] .
    then show ?case
      using st less.hyps [OF loop_index_decreases]
      by (subst loop) (cases r; auto)
  qed
  then show ?thesis by (simp add: preserves_iff)
qed

lemma preserves_seal_stream_payload:
  assumes "\<And>data. preserves I (put data)"
  shows "preserves (\<lambda>(i, o1, w). I o1) (seal_stream_payload ossl put header pre k aad)"
proof -
  have "preserves (\<lambda>(i, o1, w). I o1) (seal_step ossl put header pre k aad idx)" for idx
    unfolding seal_step_def by (intro preserves_intros assms)
  then have "preserves (\<lambda>(i, o1, w). I o1) (seal_loop ossl put header pre k aad idx)" for idx
    by (rule preserves_loop) (subst seal_loop.simps, rule refl)
  then show ?thesis
    unfolding seal_stream_payload_def by (intro preserves_intros assms)
qed

lemma preserves_open_file_payload:
  assumes "\<And>data. preserves I (put data)"
  shows "preserves (\<lambda>(i, o1, w). I o1) (open_file_payload ossl put header pre k aad)"
proof -
  have "preserves (\<lambda>(i, o1, w). I o1) (open_step ossl put header pre k aad idx)" for idx
    unfolding open_step_def by (intro preserves_intros assms)
  then show ?thesis
    unfolding open_file_payload_def by (rule preserves_loop) (subst open_loop.simps, rule refl)
qed

end
