(* ===== verification/File_Streams.thy ===== *)
theory File_Streams
  imports File_Payload
begin

text \<open>
  \<^verbatim>\<open>src/file.cpp\<close>, the functions on caller-provided streams: sealing and opening with
  a key (\<^verbatim>\<open>SKF1\<close>) and with a password (\<^verbatim>\<open>SKP1\<close>).
\<close>

section \<open>The code\<close>

definition seal_file_stream ::
  "('w, 'c, 'd) openssl \<Rightarrow> key256 \<Rightarrow> bytes \<Rightarrow> (error, (ostream, 'w) file_state, unit) act" where
  "seal_file_stream ossl key aad =
     bindM (on_library (make_file_header ossl)) (\<lambda>header.
     bindM (on_library (derive_file_key ossl key header)) (\<lambda>file_key.
     seal_stream_payload ossl write_all_stream (serialized header) (nonce_prefix header) file_key aad))"

definition open_file_stream ::
  "('w, 'c, 'd) openssl \<Rightarrow> key256 \<Rightarrow> bytes \<Rightarrow> (error, (ostream, 'w) file_state, unit) act" where
  "open_file_stream ossl key aad =
     bindM (on_input (read_or_reject kFileHeaderSize)) (\<lambda>header_data.
     bindM (lift_result (parse_file_header header_data)) (\<lambda>header.
     bindM (on_library (derive_file_key ossl key header)) (\<lambda>file_key.
     open_file_payload ossl write_all_stream (serialized header) (nonce_prefix header) file_key aad)))"

definition seal_password_stream ::
  "('w, 'c, 'd) openssl \<Rightarrow> bytes \<Rightarrow> bytes \<Rightarrow> (error, (ostream, 'w) file_state, unit) act" where
  "seal_password_stream ossl password aad =
     thenM (require_non_empty_password password)
    (bindM (on_library (make_password_header ossl)) (\<lambda>header.
     bindM (on_library (derive_password_file_key ossl password header)) (\<lambda>file_key.
     seal_stream_payload ossl write_all_stream (serialized header) (nonce_prefix header) file_key aad)))"

definition open_password_stream ::
  "('w, 'c, 'd) openssl \<Rightarrow> bytes \<Rightarrow> bytes \<Rightarrow> (error, (ostream, 'w) file_state, unit) act" where
  "open_password_stream ossl password aad =
     thenM (require_non_empty_password password)
    (bindM (on_input (read_or_reject kPasswordHeaderSize)) (\<lambda>header_data.
     bindM (lift_result (parse_password_header header_data)) (\<lambda>header.
     bindM (on_library (derive_password_file_key ossl password header)) (\<lambda>file_key.
     open_file_payload ossl write_all_stream (serialized header) (nonce_prefix header) file_key aad))))"

section \<open>The common shape\<close>

text \<open>Both formats open in the same way; \<open>parse\<close> and \<open>derive\<close> tell them apart.\<close>

definition open_with ::
  "('w, 'c, 'd) openssl \<Rightarrow> (bytes \<Rightarrow> (error, 'o, unit) act) \<Rightarrow> nat \<Rightarrow> (bytes \<Rightarrow> 'x file_header_scheme result) \<Rightarrow>
   ('x file_header_scheme \<Rightarrow> (error, 'w, key256) act) \<Rightarrow> bytes \<Rightarrow> (error, ('o, 'w) file_state, unit) act" where
  "open_with ossl put n parse derive aad =
     bindM (on_input (read_or_reject n)) (\<lambda>header_data.
     bindM (lift_result (parse header_data)) (\<lambda>header.
     bindM (on_library (derive header)) (\<lambda>file_key.
     open_file_payload ossl put (serialized header) (nonce_prefix header) file_key aad)))"

definition seal_with ::
  "('w, 'c, 'd) openssl \<Rightarrow> (bytes \<Rightarrow> (error, 'o, unit) act) \<Rightarrow> (error, 'w, 'x file_header_scheme) act \<Rightarrow>
   ('x file_header_scheme \<Rightarrow> (error, 'w, key256) act) \<Rightarrow> bytes \<Rightarrow> (error, ('o, 'w) file_state, unit) act" where
  "seal_with ossl put mk derive aad =
     bindM (on_library mk) (\<lambda>header.
     bindM (on_library (derive header)) (\<lambda>file_key.
     seal_stream_payload ossl put (serialized header) (nonce_prefix header) file_key aad))"

text \<open>The bytes of a sealed file whose header is \<open>h\<close>.\<close>

definition sealed_file ::
  "key_stream \<Rightarrow> gcm_tag \<Rightarrow> 'x file_header_scheme \<Rightarrow> key256 \<Rightarrow> bytes \<Rightarrow> bytes list \<Rightarrow> bytes" where
  "sealed_file ks tg h file_key aad chunks =
     serialized h @ payload (sealed_record ks tg (serialized h) (nonce_prefix h) file_key aad) 0 chunks"

text \<open>\<open>data\<close> is a file of the format whose chunks are \<open>chunks\<close>, authentic under the key its header selects.\<close>

definition is_sealed ::
  "key_stream \<Rightarrow> gcm_tag \<Rightarrow> nat \<Rightarrow> (bytes \<Rightarrow> 'x file_header_scheme result) \<Rightarrow> ('x file_header_scheme \<Rightarrow> key256) \<Rightarrow> bytes \<Rightarrow>
   bytes \<Rightarrow> bytes list \<Rightarrow> bool" where
  "is_sealed ks tg n parse key_of aad data chunks \<longleftrightarrow>
     valid_chunks chunks \<and> length chunks \<le> 2 ^ 32 \<and>
     (\<exists>h. length (serialized h) = n \<and> parse (serialized h) = Inr h \<and>
        data = sealed_file ks tg h (key_of h) aad chunks)"

text \<open>\<open>out\<close> is plaintext the records at the front of the file vouch for.\<close>

definition released_from ::
  "key_stream \<Rightarrow> gcm_tag \<Rightarrow> nat \<Rightarrow> (bytes \<Rightarrow> 'x file_header_scheme result) \<Rightarrow> ('x file_header_scheme \<Rightarrow> key256) \<Rightarrow> bytes \<Rightarrow>
   bytes \<Rightarrow> bytes \<Rightarrow> bool" where
  "released_from ks tg n parse key_of aad data out \<longleftrightarrow>
     out = [] \<or> (\<exists>h rest. length (serialized h) = n \<and> parse (serialized h) = Inr h \<and> data = serialized h @ rest \<and>
       released (sealed_record ks tg (serialized h) (nonce_prefix h) (key_of h) aad) 0 rest out)"

text \<open>The failures of the two operations; \<open>n\<close> is the size of the file header.\<close>

definition seal_fault ::
  "('w, 'c, 'd) openssl \<Rightarrow> ('c \<Rightarrow> gcm_view) \<Rightarrow> gcm_tag \<Rightarrow> nat \<Rightarrow> bytes \<Rightarrow> istream \<Rightarrow> bool \<Rightarrow> error \<Rightarrow> bool" where
  "seal_fault ossl view tg n aad i has_room e \<longleftrightarrow>
     code e = backend_failure \<and> \<not> (rand_available ossl \<and> kdf_available ossl) \<or>
     payload_fault ossl view tg (replicate n 0) aad (faulty i) has_room e \<or>
     e = Error invalid_input ''file is too large to seal'' \<and> 2 ^ 32 < length (split_chunks 1048576 (remaining i))"

definition open_file_fault ::
  "('w, 'c, 'd) openssl \<Rightarrow> ('c \<Rightarrow> gcm_view) \<Rightarrow> gcm_tag \<Rightarrow> nat \<Rightarrow> bytes \<Rightarrow> istream \<Rightarrow> bool \<Rightarrow> error \<Rightarrow> bool" where
  "open_file_fault ossl view tg n aad i has_room e \<longleftrightarrow>
     code e = backend_failure \<and> \<not> kdf_available ossl \<or> open_fault ossl view tg (replicate n 0) aad (faulty i) has_room e"

lemma payload_fault_length:
  "length h = n \<Longrightarrow> payload_fault ossl view tg h aad rf hr e = payload_fault ossl view tg (replicate n 0) aad rf hr e"
  by (simp add: payload_fault_def)

lemma open_fault_length:
  "length h = n \<Longrightarrow> open_fault ossl view tg h aad rf hr e = open_fault ossl view tg (replicate n 0) aad rf hr e"
  by (simp add: open_fault_def payload_fault_def)

context roomy_sink begin

lemma seal_header_wp:
  assumes gcm: "gcm_documented ossl view ks tg" and "good i"
    and h: "length (serialized h) = n" "length (nonce_prefix h) = 8" "parse (serialized h) = Inr h" and key: "length (key_of h) = 32"
  shows "wp (seal_stream_payload ossl put (serialized h) (nonce_prefix h) (key_of h) aad)
    (\<lambda>_ (i', o2, w'). (roomy o1 \<longrightarrow> roomy o2) \<and> \<not> faulty i \<and>
       (\<exists>out. accepted o2 = accepted o1 @ out \<and>
          is_sealed ks tg n parse key_of aad out (split_chunks 1048576 (remaining i))))
    (\<lambda>e _. seal_fault ossl view tg n aad i (roomy o1) e) (i, o1, w)"
  by (intro wp_conseq [OF seal_stream_payload_wp [OF gcm key h(2) assms(2)]])
    (use h in \<open>auto simp: is_sealed_def sealed_file_def valid_split_chunks seal_fault_def
       payload_fault_length [of "serialized h" n]\<close>)

lemma seal_with_wp:
  assumes gcm: "gcm_documented ossl view ks tg" and "good i"
    and mk: "\<And>v. wp mk (\<lambda>h _. length (serialized h) = n \<and> length (nonce_prefix h) = 8 \<and> parse (serialized h) = Inr h)
        (\<lambda>e _. code e = backend_failure \<and> \<not> rand_available ossl) v"
    and derive: "\<And>h v. wp (derive h) (\<lambda>fk _. fk = key_of h) (\<lambda>e _. code e = backend_failure \<and> \<not> kdf_available ossl) v"
    and key: "\<And>h. length (key_of h) = 32"
  shows "wp (seal_with ossl put mk derive aad)
    (\<lambda>_ (i', o2, w'). (roomy o1 \<longrightarrow> roomy o2) \<and> \<not> faulty i \<and>
       (\<exists>out. accepted o2 = accepted o1 @ out \<and>
          is_sealed ks tg n parse key_of aad out (split_chunks 1048576 (remaining i))))
    (\<lambda>e _. seal_fault ossl view tg n aad i (roomy o1) e) (i, o1, w)"
  unfolding seal_with_def wp_bindM wp_on_library
proof (rule wp_conseq [OF mk], goal_cases)
  case (1 h w1)
  then have h: "length (nonce_prefix h) = 8" "length (serialized h) = n" "parse (serialized h) = Inr h" by simp_all
  show ?case
  proof (rule wp_conseq [OF derive], goal_cases)
    case (1 fk w2)
    then show ?case using seal_header_wp [where parse = parse and key_of = key_of, OF gcm assms(2) h(2,1,3) key [of h]] by simp
  qed (simp add: seal_fault_def)
qed (simp add: seal_fault_def)

lemma open_with_wp:
  assumes gcm: "gcm_documented ossl view ks tg" and "good i"
    and parse: "\<And>d h. length d = n \<Longrightarrow> parse d = Inr h \<Longrightarrow> serialized h = d \<and> length (nonce_prefix h) = 8"
    and parse_error: "\<And>d e. parse d = Inl e \<Longrightarrow> e = file_invalid_packet"
    and derive: "\<And>h v. wp (derive h) (\<lambda>fk _. fk = key_of h) (\<lambda>e _. code e = backend_failure \<and> \<not> kdf_available ossl) v"
    and key: "\<And>h. length (key_of h) = 32"
  shows "wp (open_with ossl put n parse derive aad)
    (\<lambda>_ (i', o2, w'). (roomy o1 \<longrightarrow> roomy o2) \<and> \<not> faulty i \<and>
       (\<exists>chunks. is_sealed ks tg n parse key_of aad (remaining i) chunks \<and> accepted o2 = accepted o1 @ concat chunks))
    (\<lambda>e (i', o2, w'). open_file_fault ossl view tg n aad i (roomy o1) e \<and>
       (\<exists>out. accepted o2 = accepted o1 @ out \<and> released_from ks tg n parse key_of aad (remaining i) out)) (i, o1, w)"
  unfolding open_with_def wp_bindM wp_on_input
proof (rule wp_conseq [OF read_or_reject_wp [OF assms(2)]], goal_cases)
  case (2 e i')
  then show ?case
    by (auto simp: open_file_fault_def open_fault_def payload_fault_def released_from_def)
next
  case (1 d i1)
  show ?case
  proof (cases "parse d")
    case (Inl e)
    then show ?thesis
      using parse_error by (auto simp: wp_simps open_file_fault_def open_fault_def released_from_def)
  next
    case (Inr h)
    have h: "serialized h = d" "length (nonce_prefix h) = 8" "length d = n"
      and i1: "remaining i = d @ remaining i1" "good i1" "faulty i1 = faulty i"
      using parse [of d h] Inr 1(2) by auto
    show ?thesis
      unfolding Inr wp_lift_result
    proof (simp add: wp_simps, rule wp_conseq [OF derive], goal_cases)
      case (1 fk w2)
      have "length fk = 32" using 1 key by simp
      then show ?case
        unfolding open_file_payload_def
        by (intro wp_conseq [OF open_loop_wp [OF gcm _ h(2) i1(2)]])
          (use 1 h i1 Inr in \<open>auto simp: is_sealed_def sealed_file_def released_from_def open_file_fault_def
             open_fault_length [of d n]\<close>)
    next
      case (2 e w2)
      then show ?case by (auto simp: released_from_def open_file_fault_def)
    qed
  qed
qed

lemma open_with_complete:
  assumes gcm: "gcm_documented ossl view ks tg" "gcm_available ossl view tg" and "good i" "\<not> faulty i" and "roomy o1"
    and parse: "\<And>d h. length d = n \<Longrightarrow> parse d = Inr h \<Longrightarrow> serialized h = d \<and> length (nonce_prefix h) = 8"
    and derive: "\<And>h v. wp (derive h) (\<lambda>fk _. fk = key_of h) (\<lambda>_ _. False) v" and key: "\<And>h. length (key_of h) = 32"
    and sealed: "is_sealed ks tg n parse key_of aad (remaining i) chunks"
    and "n + 9 + length aad \<le> int_max"
  shows "\<exists>i' o2 w'. open_with ossl put n parse derive aad (i, o1, w) = (Inr (), (i', o2, w')) \<and>
    roomy o2 \<and> accepted o2 = accepted o1 @ concat chunks"
proof -
  from sealed obtain h where h: "length (serialized h) = n" "parse (serialized h) = Inr h"
    and rem: "remaining i = serialized h @ payload (sealed_record ks tg (serialized h) (nonce_prefix h) (key_of h) aad) 0 chunks"
    and chunks: "valid_chunks chunks" "length chunks \<le> 2 ^ 32"
    by (auto simp: is_sealed_def sealed_file_def)
  obtain i1 where 1: "read_or_reject n i = (Inr (serialized h), i1)" "good i1" "\<not> faulty i1"
    "remaining i1 = payload (sealed_record ks tg (serialized h) (nonce_prefix h) (key_of h) aad) 0 chunks"
    using read_or_reject_ok [OF assms(3) rem] assms(3, 4) h(1) by simp
  obtain r w1 where 2: "derive h w = (r, w1)" by fastforce
  with derive [of h w] have r: "r = Inr (key_of h)" by (cases r) (auto simp: wp_def)
  from open_loop_complete [OF gcm key _ _ chunks(1) 1(2-4) assms(5)] parse [OF h] chunks(2) h(1) assms(10)
  obtain i' o2 w' where
    "open_loop ossl put (serialized h) (nonce_prefix h) (key_of h) aad 0 (i1, o1, w1) = (Inr (), (i', o2, w'))"
    "roomy o2" "accepted o2 = accepted o1 @ concat chunks"
    by (metis add_0 unsigned_0)
  with 1(1) 2 r h(2) show ?thesis
    by (simp add: open_with_def act_simps on_input_def on_library_def open_file_payload_def)
qed

end

section \<open>The two formats\<close>

text \<open>
  \<open>data\<close> is an \<^verbatim>\<open>SKF1\<close> file sealed under \<open>key\<close>, or an
  \<^verbatim>\<open>SKP1\<close> file sealed under \<open>password\<close>, of the plaintext
  \<open>concat chunks\<close>; and the plaintext that a damaged file still vouches for.
\<close>

definition skf1_file where
  "skf1_file ks tg kdf key = is_sealed ks tg kFileHeaderSize parse_file_header (\<lambda>h. file_key_of kdf key (salt h))"

definition skp1_file where
  "skp1_file ks tg scrypt password = is_sealed ks tg kPasswordHeaderSize parse_password_header (password_key_of scrypt password)"

definition skf1_released where
  "skf1_released ks tg kdf key =
     released_from ks tg kFileHeaderSize parse_file_header (\<lambda>h. file_key_of kdf key (salt h))"

definition skp1_released where
  "skp1_released ks tg scrypt password =
     released_from ks tg kPasswordHeaderSize parse_password_header (password_key_of scrypt password)"

lemma make_file_header_wp:
  "wp (make_file_header ossl)
     (\<lambda>h _. length (serialized h) = kFileHeaderSize \<and> length (nonce_prefix h) = 8 \<and> parse_file_header (serialized h) = Inr h)
     (\<lambda>e _. code e = backend_failure \<and> \<not> rand_available ossl) w"
proof (rule wpI)
  fix h w' assume "make_file_header ossl w = (Inr h, w')"
  then show "length (serialized h) = kFileHeaderSize \<and> length (nonce_prefix h) = 8 \<and> parse_file_header (serialized h) = Inr h"
    by (simp add: skf1.make_size skf1.make_parse skf1.make_prefix)
next
  fix e w' assume "make_file_header ossl w = (Inl e, w')"
  then show "code e = backend_failure \<and> \<not> rand_available ossl"
    by (auto simp: make_file_header_def Let_def bindM_Inl dest: random_bytes_fault)
qed

lemma make_password_header_wp:
  "wp (make_password_header ossl)
     (\<lambda>h _. length (serialized h) = kPasswordHeaderSize \<and> length (nonce_prefix h) = 8 \<and> parse_password_header (serialized h) = Inr h)
     (\<lambda>e _. code e = backend_failure \<and> \<not> rand_available ossl) w"
proof (rule wpI)
  fix h w' assume "make_password_header ossl w = (Inr h, w')"
  then show "length (serialized h) = kPasswordHeaderSize \<and> length (nonce_prefix h) = 8 \<and> parse_password_header (serialized h) = Inr h"
    by (simp add: skp1.make_size skp1.make_parse skp1.make_prefix)
next
  fix e w' assume "make_password_header ossl w = (Inl e, w')"
  then show "code e = backend_failure \<and> \<not> rand_available ossl"
    by (auto simp: make_password_header_def Let_def bindM_Inl dest: random_bytes_fault)
qed

lemma parse_file_header_exact:
  "length d = kFileHeaderSize \<Longrightarrow> parse_file_header d = Inr h \<Longrightarrow> serialized h = d \<and> length (nonce_prefix h) = 8"
  using parse_file_header_Inr [of d h] by auto

lemma parse_password_header_exact:
  "length d = kPasswordHeaderSize \<Longrightarrow> parse_password_header d = Inr h \<Longrightarrow> serialized h = d \<and> length (nonce_prefix h) = 8"
  using parse_password_header_Inr [of d h] by auto

lemma key_lengths:
  assumes "kdf_documented ossl kdf scrypt"
  shows "length (file_key_of kdf key s) = 32" and "length (password_key_of scrypt pw h) = 32"
  using kdf_documentedD(3,4) [OF assms] by (simp_all add: file_key_of_def password_key_of_def)

lemma derive_password_file_key_doc':
  assumes "kdf_documented ossl kdf scrypt" and "pw \<noteq> []"
  shows "wp (derive_password_file_key ossl pw h) (\<lambda>fk _. fk = password_key_of scrypt pw h)
    (\<lambda>e _. code e = backend_failure \<and> \<not> kdf_available ossl) w"
  by (rule wp_conseq [OF derive_password_file_key_doc [OF assms(1)]]) (use assms(2) in auto)

context roomy_sink begin

lemma seal_file_wp:
  assumes "gcm_documented ossl view ks tg" and "kdf_documented ossl kdf scrypt" and "good i"
  shows "wp (seal_with ossl put (make_file_header ossl) (derive_file_key ossl key) aad)
    (\<lambda>_ (i', o2, w'). (roomy o1 \<longrightarrow> roomy o2) \<and> \<not> faulty i \<and> (\<exists>out. accepted o2 = accepted o1 @ out \<and>
       skf1_file ks tg kdf key aad out (split_chunks 1048576 (remaining i))))
    (\<lambda>e _. seal_fault ossl view tg kFileHeaderSize aad i (roomy o1) e) (i, o1, w)"
  unfolding skf1_file_def
  by (rule seal_with_wp [OF assms(1, 3) make_file_header_wp derive_file_key_doc [OF assms(2)] key_lengths(1) [OF assms(2)]])

lemma seal_password_wp:
  assumes "gcm_documented ossl view ks tg" and "kdf_documented ossl kdf scrypt" and "good i" and "pw \<noteq> []"
  shows "wp (seal_with ossl put (make_password_header ossl) (derive_password_file_key ossl pw) aad)
    (\<lambda>_ (i', o2, w'). (roomy o1 \<longrightarrow> roomy o2) \<and> \<not> faulty i \<and> (\<exists>out. accepted o2 = accepted o1 @ out \<and>
       skp1_file ks tg scrypt pw aad out (split_chunks 1048576 (remaining i))))
    (\<lambda>e _. seal_fault ossl view tg kPasswordHeaderSize aad i (roomy o1) e) (i, o1, w)"
  unfolding skp1_file_def
  by (rule seal_with_wp [OF assms(1, 3) make_password_header_wp derive_password_file_key_doc' [OF assms(2, 4)]
        key_lengths(2) [OF assms(2)]])

lemma open_file_wp:
  assumes "gcm_documented ossl view ks tg" and "kdf_documented ossl kdf scrypt" and "good i"
  shows "wp (open_with ossl put kFileHeaderSize parse_file_header (derive_file_key ossl key) aad)
    (\<lambda>_ (i', o2, w'). (roomy o1 \<longrightarrow> roomy o2) \<and> \<not> faulty i \<and>
       (\<exists>chunks. skf1_file ks tg kdf key aad (remaining i) chunks \<and> accepted o2 = accepted o1 @ concat chunks))
    (\<lambda>e (i', o2, w'). open_file_fault ossl view tg kFileHeaderSize aad i (roomy o1) e \<and>
       (\<exists>out. accepted o2 = accepted o1 @ out \<and> skf1_released ks tg kdf key aad (remaining i) out)) (i, o1, w)"
  unfolding skf1_file_def skf1_released_def
  by (rule open_with_wp [OF assms(1, 3) parse_file_header_exact parse_file_header_Inl
        derive_file_key_doc [OF assms(2)] key_lengths(1) [OF assms(2)]])

lemma open_password_wp:
  assumes "gcm_documented ossl view ks tg" and "kdf_documented ossl kdf scrypt" and "good i" and "pw \<noteq> []"
  shows "wp (open_with ossl put kPasswordHeaderSize parse_password_header (derive_password_file_key ossl pw) aad)
    (\<lambda>_ (i', o2, w'). (roomy o1 \<longrightarrow> roomy o2) \<and> \<not> faulty i \<and>
       (\<exists>chunks. skp1_file ks tg scrypt pw aad (remaining i) chunks \<and> accepted o2 = accepted o1 @ concat chunks))
    (\<lambda>e (i', o2, w'). open_file_fault ossl view tg kPasswordHeaderSize aad i (roomy o1) e \<and>
       (\<exists>out. accepted o2 = accepted o1 @ out \<and> skp1_released ks tg scrypt pw aad (remaining i) out)) (i, o1, w)"
  unfolding skp1_file_def skp1_released_def
  by (rule open_with_wp [OF assms(1, 3) parse_password_header_exact parse_password_header_Inl
        derive_password_file_key_doc' [OF assms(2, 4)] key_lengths(2) [OF assms(2)]])

end

section \<open>A file has one content\<close>

lemma crypt_inject [simp]: "crypt k i xs = crypt k i ys \<longleftrightarrow> xs = ys"
  by (metis crypt_crypt)

lemma append_same_length: "xs @ us = ys @ vs \<Longrightarrow> length xs = length ys \<Longrightarrow> xs = ys \<and> us = vs"
  by simp

lemma sealed_record_inject:
  assumes tags: "\<And>k iv a c. length (tg k iv a c) = 16"
    and eq: "sealed_record ks tg h pre key aad i fin c @ rest = sealed_record ks tg h pre key aad i fin' c' @ rest'"
    and len: "length c \<le> 1048576" "length c' \<le> 1048576"
  shows "fin = fin' \<and> c = c' \<and> rest = rest'"
proof -
  let ?rb = "\<lambda>fin c. record_bytes i (of_nat (length c)) (if fin then kFinal else kNotFinal)"
  let ?ct = "crypt (ks key (make_nonce pre i)) 0"
  let ?tg = "\<lambda>fin c. tg key (make_nonce pre i) (h @ ?rb fin c @ aad) (?ct c)"
  from eq have e: "?rb fin c @ (?ct c @ ?tg fin c @ rest) = ?rb fin' c' @ (?ct c' @ ?tg fin' c' @ rest')"
    unfolding sealed_record_def Let_def append_assoc .
  have "length (?rb fin c) = length (?rb fin' c')" by simp
  note s1 = append_same_length [OF e this]
  have rb: "?rb fin c = ?rb fin' c'" by (rule s1 [THEN conjunct1])
  have e': "?ct c @ (?tg fin c @ rest) = ?ct c' @ (?tg fin' c' @ rest')" by (rule s1 [THEN conjunct2])
  from rb have fin: "fin = fin'" and "(of_nat (length c) :: u32) = of_nat (length c')"
    by (auto split: if_splits)
  then have "unat (of_nat (length c) :: u32) = unat (of_nat (length c') :: u32)" by simp
  then have "length (?ct c) = length (?ct c')"
    using len by (simp add: unsigned_of_nat take_bit_nat_eq_self)
  note s2 = append_same_length [OF e' this]
  have "c = c'" using s2 [THEN conjunct1] by simp
  have e'': "?tg fin c @ rest = ?tg fin' c' @ rest'" by (rule s2 [THEN conjunct2])
  have "length (?tg fin c) = length (?tg fin' c')" by (simp only: tags)
  from append_same_length [OF e'' this] \<open>c = c'\<close> fin show ?thesis by simp
qed

lemma valid_chunks_hd: "valid_chunks (c # cs) \<Longrightarrow> length c \<le> 1048576"
  by (cases cs) auto

lemma payload_inject:
  assumes tags: "\<And>k iv a c. length (tg k iv a c) = 16"
  shows "valid_chunks cs \<Longrightarrow> valid_chunks cs' \<Longrightarrow>
    payload (sealed_record ks tg h pre key aad) i cs = payload (sealed_record ks tg h pre key aad) i cs' \<Longrightarrow> cs = cs'"
proof (induction cs arbitrary: i cs')
  case (Cons c cs)
  let ?f = "sealed_record ks tg h pre key aad"
  have split: "payload ?f i (d # ds) = ?f i (ds = []) d @ (if ds = [] then [] else payload ?f (i + 1) ds)" for d ds
    by (cases ds) simp_all
  from Cons.prems(2) obtain c' ds where cs': "cs' = c' # ds" by (cases cs') auto
  from Cons.prems(3) have "?f i (cs = []) c @ (if cs = [] then [] else payload ?f (i + 1) cs) =
      ?f i (ds = []) c' @ (if ds = [] then [] else payload ?f (i + 1) ds)"
    by (simp only: cs' split)
  from sealed_record_inject [OF tags this] have e: "(cs = []) = (ds = [])" "c = c'"
    "(if cs = [] then [] else payload ?f (i + 1) cs) = (if ds = [] then [] else payload ?f (i + 1) ds)"
    using valid_chunks_hd Cons.prems(1, 2) cs' by blast+
  show ?case
  proof (cases "cs = []")
    case False
    then have "valid_chunks cs" "valid_chunks ds" using Cons.prems(1, 2) e(1) cs' by (simp_all add: valid_chunks_Cons)
    with Cons.IH [of ds "i + 1"] e False show ?thesis by (simp add: cs')
  qed (use e cs' in simp)
qed simp

text \<open>The chunks of a file are determined by its bytes.\<close>

lemma is_sealed_inject:
  assumes "gcm_documented ossl view ks tg" and "is_sealed ks tg n parse key_of aad d cs" and "is_sealed ks tg n parse key_of aad d cs'"
  shows "cs = cs'"
proof -
  from assms(2, 3) obtain h h' where h: "length (serialized h) = n" "parse (serialized h) = Inr h" "d = sealed_file ks tg h (key_of h) aad cs"
    and h': "length (serialized h') = n" "parse (serialized h') = Inr h'" "d = sealed_file ks tg h' (key_of h') aad cs'"
    and v: "valid_chunks cs" "valid_chunks cs'"
    unfolding is_sealed_def by blast
  have "length (serialized h) = length (serialized h')" using h(1) h'(1) by (rule trans [OF _ sym])
  from append_same_length [OF trans [OF h(3) [symmetric] h'(3), unfolded sealed_file_def] this]
  have same: "serialized h = serialized h'"
    and body: "payload (sealed_record ks tg (serialized h) (nonce_prefix h) (key_of h) aad) 0 cs =
      payload (sealed_record ks tg (serialized h') (nonce_prefix h') (key_of h') aad) 0 cs'"
    by (rule conjunct1, rule conjunct2)
  have "h = h'" using trans [OF h(2) [symmetric, unfolded same] h'(2)] by (rule sum.inject(2) [THEN iffD1])
  from payload_inject [OF gcm_documentedD(14) [OF assms(1)] v body [folded this]] show ?thesis .
qed

section \<open>The functions of the library\<close>

lemma stream_functions:
  "seal_file_stream ossl key aad = seal_with ossl write_all_stream (make_file_header ossl) (derive_file_key ossl key) aad"
  "open_file_stream ossl key aad =
     open_with ossl write_all_stream kFileHeaderSize parse_file_header (derive_file_key ossl key) aad"
  "seal_password_stream ossl pw aad = thenM (require_non_empty_password pw)
     (seal_with ossl write_all_stream (make_password_header ossl) (derive_password_file_key ossl pw) aad)"
  "open_password_stream ossl pw aad = thenM (require_non_empty_password pw)
     (open_with ossl write_all_stream kPasswordHeaderSize parse_password_header (derive_password_file_key ossl pw) aad)"
  by (simp_all add: seal_file_stream_def open_file_stream_def seal_password_stream_def open_password_stream_def
      seal_with_def open_with_def)

lemma require_password_apply:
  "thenM (require_non_empty_password pw) m s =
     (if pw = [] then (Inl (Error invalid_input ''password must not be empty''), s) else m s)"
  by (simp add: require_non_empty_password_def act_simps)

lemma derive_wps:
  assumes "kdf_documented ossl kdf scrypt" and "kdf_available ossl"
  shows "wp (derive_file_key ossl k h) (\<lambda>fk _. fk = file_key_of kdf k (salt h)) (\<lambda>_ _. False) w"
    and "pw \<noteq> [] \<Longrightarrow> wp (derive_password_file_key ossl pw h') (\<lambda>fk _. fk = password_key_of scrypt pw h') (\<lambda>_ _. False) w"
   apply (rule wp_conseq [OF derive_file_key_doc [OF assms(1)]]; use assms(2) in simp)
  apply (rule wp_conseq [OF derive_password_file_key_doc' [OF assms(1)]])
  using assms(2) by simp_all

lemma open_file_complete:
  assumes "gcm_documented ossl view ks tg" and "gcm_available ossl view tg" and "kdf_documented ossl kdf scrypt"
    and "kdf_available ossl" and "good i" and "\<not> faulty i" and "ostream_roomy o1"
    and "kFileHeaderSize + 9 + length aad \<le> int_max" and "skf1_file ks tg kdf key aad (remaining i) chunks"
  shows "\<exists>i' o2 w'. open_file_stream ossl key aad (i, o1, w) = (Inr (), (i', o2, w')) \<and>
    written o2 = written o1 @ concat chunks"
  unfolding stream_functions
  using stream_sink.open_with_complete [OF assms(1,2,5,6,7) parse_file_header_exact derive_wps(1) [OF assms(3,4)]
      key_lengths(1) [OF assms(3)] assms(9) [unfolded skf1_file_def] assms(8)]
  by blast

lemma open_password_complete:
  assumes "gcm_documented ossl view ks tg" and "gcm_available ossl view tg" and "kdf_documented ossl kdf scrypt"
    and "kdf_available ossl" and "good i" and "\<not> faulty i" and "ostream_roomy o1"
    and "kPasswordHeaderSize + 9 + length aad \<le> int_max" and "skp1_file ks tg scrypt pw aad (remaining i) chunks"
    and "pw \<noteq> []"
  shows "\<exists>i' o2 w'. open_password_stream ossl pw aad (i, o1, w) = (Inr (), (i', o2, w')) \<and>
    written o2 = written o1 @ concat chunks"
  unfolding stream_functions require_password_apply
  using stream_sink.open_with_complete [OF assms(1,2,5,6,7) parse_password_header_exact derive_wps(2) [OF assms(3,4,10)]
      key_lengths(2) [OF assms(3)] assms(9) [unfolded skp1_file_def] assms(8)] assms(10)
  by (simp del: file_sizes) blast

lemma no_seal_fault:
  assumes "gcm_available ossl view tg" and "rand_available ossl" and "kdf_available ossl" and "\<not> faulty i"
    and "n + 9 + length aad \<le> int_max" and "length (split_chunks 1048576 (remaining i)) \<le> 2 ^ 32"
  shows "\<not> seal_fault ossl view tg n aad i True e"
  using assms by (auto simp: seal_fault_def payload_fault_def file_gcm_fault_def)

text \<open>Concrete files of both formats, for the witnesses.\<close>

lemma sample_files:
  "\<exists>d. skf1_file sample_ks sample_tag sample_kdf (replicate 32 1) [5] d [[1, 2, 3]]"
  "\<exists>d. skp1_file sample_ks sample_tag sample_scrypt [9] [5] d [[1, 2, 3]]"
proof -
  have "parse_file_header (file_header_bytes (replicate 32 1) (replicate 8 2)) =
      Inr \<lparr>serialized = file_header_bytes (replicate 32 1) (replicate 8 2), salt = replicate 32 1, nonce_prefix = replicate 8 2\<rparr>"
    by (subst parse_file_header_Inr) (auto simp del: replicate.simps)
  then show "\<exists>d. skf1_file sample_ks sample_tag sample_kdf (replicate 32 1) [5] d [[1, 2, 3]]"
    by (auto simp: skf1_file_def is_sealed_def simp del: replicate.simps
        intro!: exI [of _ "\<lparr>serialized = file_header_bytes (replicate 32 1) (replicate 8 2), salt = replicate 32 1, nonce_prefix = replicate 8 2\<rparr>"])
  have "parse_password_header (password_header_bytes (replicate 32 1) (replicate 8 2)) =
      Inr \<lparr>serialized = password_header_bytes (replicate 32 1) (replicate 8 2), salt = replicate 32 1, nonce_prefix = replicate 8 2,
        scrypt_n = kScryptN, scrypt_r = kScryptR, scrypt_p = kScryptP\<rparr>"
    by (subst parse_password_header_Inr) (auto simp del: replicate.simps)
  then show "\<exists>d. skp1_file sample_ks sample_tag sample_scrypt [9] [5] d [[1, 2, 3]]"
    by (auto simp: skp1_file_def is_sealed_def simp del: replicate.simps
        intro!: exI [of _ "\<lparr>serialized = password_header_bytes (replicate 32 1) (replicate 8 2), salt = replicate 32 1, nonce_prefix = replicate 8 2,
          scrypt_n = kScryptN, scrypt_r = kScryptR, scrypt_p = kScryptP\<rparr>"])
qed

lemma sample_no_seal_fault:
  "\<not> seal_fault sample_ossl (\<lambda>c. c) sample_tag kFileHeaderSize [5] (istream_of [1, 2, 3]) (ostream_roomy ostream_empty) e"
  "\<not> seal_fault sample_ossl (\<lambda>c. c) sample_tag kPasswordHeaderSize [5] (istream_of [1, 2, 3]) (ostream_roomy ostream_empty) e"
  using no_seal_fault [OF sample_available sample_rand_available sample_kdf_available, of "istream_of [1, 2, 3]" _ "[5]" e]
  by (simp_all add: split_chunks_last int_max_def ostream_roomy_def ostream_empty_def)

lemma ostream_empty_written: "written ostream_empty = []"
  by (simp add: ostream_empty_def)

section \<open>Properties\<close>

text \<open>
  C11: What sealing a stream writes. When \<^verbatim>\<open>seal_file\<close> on streams returns, it has
  written one \<^verbatim>\<open>SKF1\<close> file whose plaintext is everything the input had left, cut
  into full chunks and a last one; it throws only for a backend that fails, a read fault, an
  output without room, additional data OpenSSL cannot take, or more than \<open>2^32\<close> chunks.
\<close>

theorem seal_stream_output:
  "gcm_documented ossl view ks tg \<Longrightarrow> kdf_documented ossl kdf scrypt \<Longrightarrow> good i \<Longrightarrow>
   (case seal_file_stream ossl key aad (i, o1, w) of
      (Inr _, (_, o2, _)) \<Rightarrow>
        \<exists>out. written o2 = written o1 @ out \<and> skf1_file ks tg kdf key aad out (split_chunks 1048576 (remaining i))
    | (Inl e, _) \<Rightarrow> seal_fault ossl view tg kFileHeaderSize aad i (ostream_roomy o1) e)"
  using stream_sink.seal_file_wp [of ossl view ks tg kdf scrypt i key aad o1 w]
  by (auto simp: stream_functions wp_def split: prod.splits sum.splits)

theorem seal_stream_output_witness:
  "\<exists>i' o2 w'. seal_file_stream sample_ossl (replicate 32 1) [5] (istream_of [1, 2, 3], ostream_empty, 0) = (Inr (), (i', o2, w')) \<and>
     skf1_file sample_ks sample_tag sample_kdf (replicate 32 1) [5] (written o2) [[1, 2, 3]]"
  using seal_stream_output [OF sample_documented sample_kdf_documented,
      where key = "replicate 32 1" and aad = "[5]" and i = "istream_of [1, 2, 3]" and ?o1.0 = ostream_empty and w = 0]
  by (auto simp: split_chunks_last sample_no_seal_fault [unfolded file_sizes] ostream_empty_written
      simp del: replicate.simps split: prod.splits sum.splits)

text \<open>
  C29: Sealing a stream under a password: an empty password is refused before anything is read or
  written; otherwise the same holds for the \<^verbatim>\<open>SKP1\<close> format.
\<close>

theorem seal_password_stream_output:
  "gcm_documented ossl view ks tg \<Longrightarrow> kdf_documented ossl kdf scrypt \<Longrightarrow> good i \<Longrightarrow>
   (case seal_password_stream ossl pw aad (i, o1, w) of
      (Inr _, (_, o2, _)) \<Rightarrow> pw \<noteq> [] \<and>
        (\<exists>out. written o2 = written o1 @ out \<and> skp1_file ks tg scrypt pw aad out (split_chunks 1048576 (remaining i)))
    | (Inl e, s) \<Rightarrow>
        if pw = [] then code e = invalid_input \<and> s = (i, o1, w)
        else seal_fault ossl view tg kPasswordHeaderSize aad i (ostream_roomy o1) e)"
  using stream_sink.seal_password_wp [of ossl view ks tg kdf scrypt i pw aad o1 w]
  by (auto simp: stream_functions require_password_apply wp_def split: prod.splits sum.splits)

theorem seal_password_stream_output_witness:
  "\<exists>i' o2 w'. seal_password_stream sample_ossl [9] [5] (istream_of [1, 2, 3], ostream_empty, 0) = (Inr (), (i', o2, w')) \<and>
     skp1_file sample_ks sample_tag sample_scrypt [9] [5] (written o2) [[1, 2, 3]]"
  using seal_password_stream_output [OF sample_documented sample_kdf_documented,
      where pw = "[9]" and aad = "[5]" and i = "istream_of [1, 2, 3]" and ?o1.0 = ostream_empty and w = 0]
  by (auto simp: split_chunks_last sample_no_seal_fault [unfolded file_sizes] ostream_empty_written
      split: prod.splits sum.splits)

text \<open>
  C1: Opening a stream is authenticated, also when it fails. If \<^verbatim>\<open>open_file\<close> on streams
  returns, the whole remaining input was one sealed file under this key and this additional
  data, nothing truncated, reordered or appended, and its plaintext has been written. If it
  throws, what it has written is plaintext that authentic records at the front of the input
  vouch for, in their order.
\<close>

theorem open_stream_authentic:
  "gcm_documented ossl view ks tg \<Longrightarrow> kdf_documented ossl kdf scrypt \<Longrightarrow> good i \<Longrightarrow>
   (case open_file_stream ossl key aad (i, o1, w) of
      (Inr _, (_, o2, _)) \<Rightarrow>
        \<exists>chunks. skf1_file ks tg kdf key aad (remaining i) chunks \<and> written o2 = written o1 @ concat chunks
    | (Inl e, (_, o2, _)) \<Rightarrow>
        open_file_fault ossl view tg kFileHeaderSize aad i (ostream_roomy o1) e \<and>
        (\<exists>out. written o2 = written o1 @ out \<and> skf1_released ks tg kdf key aad (remaining i) out))"
  using stream_sink.open_file_wp [of ossl view ks tg kdf scrypt i key aad o1 w]
  by (auto simp: stream_functions wp_def split: prod.splits sum.splits)

theorem open_stream_authentic_witness:
  "\<exists>d i' o2 w' chunks. open_file_stream sample_ossl (replicate 32 1) [5] (istream_of d, ostream_empty, 0) = (Inr (), (i', o2, w')) \<and>
     skf1_file sample_ks sample_tag sample_kdf (replicate 32 1) [5] d chunks \<and> written o2 = concat chunks"
proof -
  obtain d where d: "skf1_file sample_ks sample_tag sample_kdf (replicate 32 1) [5] d [[1, 2, 3]]"
    using sample_files(1) by blast
  obtain i' o2 w' where "open_file_stream sample_ossl (replicate 32 1) [5] (istream_of d, ostream_empty, 0) = (Inr (), (i', o2, w'))"
    using open_file_complete [OF sample_documented sample_available sample_kdf_documented sample_kdf_available istream_of_good,
        of d ostream_empty "[5]" "replicate 32 1" "[[1, 2, 3]]" 0] d
    by (auto simp: ostream_roomy_def ostream_empty_def int_max_def simp del: replicate.simps)
  with open_stream_authentic [OF sample_documented sample_kdf_documented,
      where key = "replicate 32 1" and aad = "[5]" and i = "istream_of d" and ?o1.0 = ostream_empty and w = 0]
  show ?thesis by (auto simp: ostream_empty_def simp del: replicate.simps)
qed

text \<open>C28: The same for opening under a password; an empty one is refused before anything is read.\<close>

theorem open_password_stream_authentic:
  "gcm_documented ossl view ks tg \<Longrightarrow> kdf_documented ossl kdf scrypt \<Longrightarrow> good i \<Longrightarrow>
   (case open_password_stream ossl pw aad (i, o1, w) of
      (Inr _, (_, o2, _)) \<Rightarrow> pw \<noteq> [] \<and>
        (\<exists>chunks. skp1_file ks tg scrypt pw aad (remaining i) chunks \<and> written o2 = written o1 @ concat chunks)
    | (Inl e, (j, o2, v)) \<Rightarrow>
        if pw = [] then code e = invalid_input \<and> (j, o2, v) = (i, o1, w)
        else open_file_fault ossl view tg kPasswordHeaderSize aad i (ostream_roomy o1) e \<and>
          (\<exists>out. written o2 = written o1 @ out \<and> skp1_released ks tg scrypt pw aad (remaining i) out))"
  using stream_sink.open_password_wp [of ossl view ks tg kdf scrypt i pw aad o1 w]
  by (auto simp: stream_functions require_password_apply wp_def split: prod.splits sum.splits)

theorem open_password_stream_authentic_witness:
  "\<exists>d i' o2 w' chunks. open_password_stream sample_ossl [9] [5] (istream_of d, ostream_empty, 0) = (Inr (), (i', o2, w')) \<and>
     skp1_file sample_ks sample_tag sample_scrypt [9] [5] d chunks \<and> written o2 = concat chunks"
proof -
  obtain d where d: "skp1_file sample_ks sample_tag sample_scrypt [9] [5] d [[1, 2, 3]]"
    using sample_files(2) by blast
  obtain i' o2 w' where "open_password_stream sample_ossl [9] [5] (istream_of d, ostream_empty, 0) = (Inr (), (i', o2, w'))"
    using open_password_complete [OF sample_documented sample_available sample_kdf_documented sample_kdf_available istream_of_good,
        of d ostream_empty "[5]" "[9]" "[[1, 2, 3]]" 0] d
    by (auto simp: ostream_roomy_def ostream_empty_def int_max_def)
  with open_password_stream_authentic [OF sample_documented sample_kdf_documented,
      where pw = "[9]" and aad = "[5]" and i = "istream_of d" and ?o1.0 = ostream_empty and w = 0]
  show ?thesis by (auto simp: ostream_empty_def)
qed

text \<open>
  C8: Opening accepts exactly the sealed files: with a working backend, an output with room and
  no read fault, it returns if and only if the input is one.
\<close>

theorem open_stream_exact:
  "gcm_documented ossl view ks tg \<Longrightarrow> gcm_available ossl view tg \<Longrightarrow>
   kdf_documented ossl kdf scrypt \<Longrightarrow> kdf_available ossl \<Longrightarrow> good i \<Longrightarrow> \<not> faulty i \<Longrightarrow> ostream_roomy o1 \<Longrightarrow>
   kFileHeaderSize + 9 + length aad \<le> int_max \<Longrightarrow>
   (\<exists>s. open_file_stream ossl key aad (i, o1, w) = (Inr (), s)) \<longleftrightarrow>
   (\<exists>chunks. skf1_file ks tg kdf key aad (remaining i) chunks)"
proof
  assume a: "gcm_documented ossl view ks tg" "kdf_documented ossl kdf scrypt" "good i"
  assume "\<exists>s. open_file_stream ossl key aad (i, o1, w) = (Inr (), s)"
  then obtain s where s: "open_file_stream ossl key aad (i, o1, w) = (Inr (), s)" ..
  then show "\<exists>chunks. skf1_file ks tg kdf key aad (remaining i) chunks"
    using wp_InrD [OF stream_sink.open_file_wp [OF a] s [unfolded stream_functions]] by (cases s) fast
next
  assume a: "gcm_documented ossl view ks tg" "gcm_available ossl view tg" "kdf_documented ossl kdf scrypt"
    "kdf_available ossl" "good i" "\<not> faulty i" "ostream_roomy o1" "kFileHeaderSize + 9 + length aad \<le> int_max"
  assume "\<exists>chunks. skf1_file ks tg kdf key aad (remaining i) chunks"
  then show "\<exists>s. open_file_stream ossl key aad (i, o1, w) = (Inr (), s)"
    using open_file_complete [OF a] by blast
qed

theorem open_stream_exact_witness:
  "\<exists>d s. open_file_stream sample_ossl (replicate 32 1) [5] (istream_of d, ostream_empty, 0) = (Inr (), s)"
proof -
  obtain d where "skf1_file sample_ks sample_tag sample_kdf (replicate 32 1) [5] d [[1, 2, 3]]"
    using sample_files(1) by blast
  then show ?thesis
    using open_stream_exact [OF sample_documented sample_available sample_kdf_documented sample_kdf_available istream_of_good,
        of d ostream_empty "[5]" "replicate 32 1" 0]
    by (auto simp: ostream_roomy_def ostream_empty_def int_max_def simp del: replicate.simps)
qed

text \<open>C12: Opening inverts sealing: the file sealed from a stream opens, under the same key and data, to its content.\<close>

theorem open_seal_stream:
  "gcm_documented ossl view ks tg \<Longrightarrow> gcm_available ossl view tg \<Longrightarrow>
   kdf_documented ossl kdf scrypt \<Longrightarrow> kdf_available ossl \<Longrightarrow> good i \<Longrightarrow> kFileHeaderSize + 9 + length aad \<le> int_max \<Longrightarrow>
   seal_file_stream ossl key aad (i, ostream_empty, w) = (Inr (), (i', o2, w')) \<Longrightarrow>
   \<exists>j o3 v'. open_file_stream ossl key aad (istream_of (written o2), ostream_empty, v) = (Inr (), (j, o3, v')) \<and>
     written o3 = remaining i"
proof (goal_cases)
  case 1
  from stream_sink.seal_file_wp [OF 1(1, 3, 5), of key aad ostream_empty w] 1(7)
  have "skf1_file ks tg kdf key aad (written o2) (split_chunks 1048576 (remaining i))"
    by (auto simp: stream_functions wp_def ostream_empty_def)
  with open_file_complete [OF 1(1, 2, 3, 4) _ _ _ 1(6), of "istream_of (written o2)" ostream_empty key
        "split_chunks 1048576 (remaining i)" v]
  show ?case by (simp add: ostream_empty_def ostream_roomy_def)
qed

theorem open_seal_stream_witness:
  "\<exists>i' o2 w' j o3 v'.
     seal_file_stream sample_ossl (replicate 32 1) [5] (istream_of [1, 2, 3], ostream_empty, 0) = (Inr (), (i', o2, w')) \<and>
     open_file_stream sample_ossl (replicate 32 1) [5] (istream_of (written o2), ostream_empty, w') = (Inr (), (j, o3, v')) \<and>
     written o3 = [1, 2, 3]"
proof -
  have "wp (seal_file_stream sample_ossl (replicate 32 1) [5]) (\<lambda>_ _. True) (\<lambda>_ _. False) (istream_of [1, 2, 3], ostream_empty, 0)"
    unfolding stream_functions
    by (rule wp_conseq [OF stream_sink.seal_file_wp [OF sample_documented sample_kdf_documented istream_of_good]])
      (use sample_no_seal_fault in auto)
  then obtain i' o2 w' where
    s: "seal_file_stream sample_ossl (replicate 32 1) [5] (istream_of [1, 2, 3], ostream_empty, 0) = (Inr (), (i', o2, w'))"
    by (auto simp: wp_def simp del: replicate.simps split: prod.splits sum.splits)
  from open_seal_stream [OF sample_documented sample_available sample_kdf_documented sample_kdf_available istream_of_good _ s, of w'] s
  show ?thesis by (auto simp: int_max_def simp del: replicate.simps)
qed

text \<open>C30: The same for a password.\<close>

theorem open_seal_password_stream:
  "gcm_documented ossl view ks tg \<Longrightarrow> gcm_available ossl view tg \<Longrightarrow>
   kdf_documented ossl kdf scrypt \<Longrightarrow> kdf_available ossl \<Longrightarrow> good i \<Longrightarrow> kPasswordHeaderSize + 9 + length aad \<le> int_max \<Longrightarrow>
   seal_password_stream ossl pw aad (i, ostream_empty, w) = (Inr (), (i', o2, w')) \<Longrightarrow>
   \<exists>j o3 v'. open_password_stream ossl pw aad (istream_of (written o2), ostream_empty, v) = (Inr (), (j, o3, v')) \<and>
     written o3 = remaining i"
proof (goal_cases)
  case 1
  then have pw: "pw \<noteq> []" by (auto simp: stream_functions require_password_apply)
  from stream_sink.seal_password_wp [OF 1(1, 3, 5) pw, of aad ostream_empty w] 1(7) pw
  have "skp1_file ks tg scrypt pw aad (written o2) (split_chunks 1048576 (remaining i))"
    by (auto simp: stream_functions require_password_apply wp_def ostream_empty_def)
  with open_password_complete [OF 1(1, 2, 3, 4) _ _ _ 1(6) _ pw, of "istream_of (written o2)" ostream_empty
        "split_chunks 1048576 (remaining i)" v]
  show ?case by (simp add: ostream_empty_def ostream_roomy_def)
qed

theorem open_seal_password_stream_witness:
  "\<exists>i' o2 w' j o3 v'.
     seal_password_stream sample_ossl [9] [5] (istream_of [1, 2, 3], ostream_empty, 0) = (Inr (), (i', o2, w')) \<and>
     open_password_stream sample_ossl [9] [5] (istream_of (written o2), ostream_empty, w') = (Inr (), (j, o3, v')) \<and>
     written o3 = [1, 2, 3]"
proof -
  have "wp (seal_with sample_ossl write_all_stream (make_password_header sample_ossl) (derive_password_file_key sample_ossl [9]) [5])
      (\<lambda>_ _. True) (\<lambda>_ _. False) (istream_of [1, 2, 3], ostream_empty, 0)"
    by (rule wp_conseq [OF stream_sink.seal_password_wp [OF sample_documented sample_kdf_documented istream_of_good]])
      (use sample_no_seal_fault in auto)
  then obtain i' o2 w' where
    s: "seal_password_stream sample_ossl [9] [5] (istream_of [1, 2, 3], ostream_empty, 0) = (Inr (), (i', o2, w'))"
    by (auto simp: stream_functions require_password_apply wp_def split: prod.splits sum.splits)
  from open_seal_password_stream [OF sample_documented sample_available sample_kdf_documented sample_kdf_available istream_of_good _ s, of w'] s
  show ?thesis by (auto simp: int_max_def)
qed

end
