(* ===== verification/File_Io.thy ===== *)
theory File_Io
  imports File_System File_Streams
begin

text \<open>
  \<^verbatim>\<open>src/file_io.cpp\<close>, POSIX branches: the output file object, exclusive creation of
  a temporary file beside the output, the commit by hard link and the synchronization of the
  parent directory.
\<close>

section \<open>OutputFile\<close>

text \<open>The path, and the \<^verbatim>\<open>FILE\<close> while it is open (\<^verbatim>\<open>file_\<close> is null otherwise).\<close>

record output_file =
  opath :: path
  ofile :: "stdio option"

definition output_default :: output_file where
  "output_default = \<lparr>opath = [], ofile = None\<rparr>"

definition output_open :: "path \<Rightarrow> stdio \<Rightarrow> output_file" where
  "output_open p file = \<lparr>opath = p, ofile = Some file\<rparr>"

text \<open>\<^verbatim>\<open>close_quietly\<close>, \<^verbatim>\<open>discard\<close> and the destructor.\<close>

definition close_quietly :: "output_file \<times> file_system \<Rightarrow> output_file \<times> file_system" where
  "close_quietly = (\<lambda>(out, fs).
     case ofile out of
       None \<Rightarrow> (out, fs)
     | Some file \<Rightarrow> (out\<lparr>ofile := None\<rparr>, snd (stdio_fclose file fs)))"

definition output_discard :: "output_file \<times> file_system \<Rightarrow> output_file \<times> file_system" where
  "output_discard = close_quietly"

definition output_destroy :: "output_file \<times> file_system \<Rightarrow> file_system" where
  "output_destroy s = snd (close_quietly s)"

text \<open>Move assignment; the moved-from object is empty.\<close>

definition output_assign :: "output_file \<Rightarrow> output_file \<times> file_system \<Rightarrow> output_file \<times> file_system" where
  "output_assign other s =
     (case close_quietly s of (out, fs) \<Rightarrow> (out\<lparr>opath := opath other, ofile := ofile other\<rparr>, fs))"

text \<open>
  Writing through a null \<^verbatim>\<open>FILE\<close> is undefined in C; here it throws. The callers
  never do it.
\<close>

definition output_write :: "bytes \<Rightarrow> (error, output_file \<times> file_system, unit) act" where
  "output_write data =
     (if data = [] then ret ()
      else (\<lambda>(out, fs).
        case ofile out of
          None \<Rightarrow> (Inl (file_backend_failure ''File write failed''), (out, fs))
        | Some file \<Rightarrow>
            (case stdio_fwrite data file fs of (n, file', fs') \<Rightarrow>
               (if n \<noteq> length data then Inl (file_backend_failure ''File write failed'') else Inr (),
                (out\<lparr>ofile := Some file'\<rparr>, fs')))))"

definition output_close :: "(error, output_file \<times> file_system, unit) act" where
  "output_close = (\<lambda>(out, fs).
     case ofile out of
       None \<Rightarrow> (Inr (), (out, fs))
     | Some file \<Rightarrow>
         (case stdio_fclose file fs of (closed, fs') \<Rightarrow>
            (if \<not> closed then Inl (file_backend_failure ''File write failed'') else Inr (),
             (out\<lparr>ofile := None\<rparr>, fs'))))"

definition output_flush :: "(error, output_file \<times> file_system, unit) act" where
  "output_flush = (\<lambda>(out, fs).
     case ofile out of
       None \<Rightarrow> (Inr (), (out, fs))
     | Some file \<Rightarrow>
         (case stdio_fflush file fs of (flushed, file', fs') \<Rightarrow>
            if \<not> flushed
            then (Inl (file_backend_failure ''File write failed''), (out\<lparr>ofile := Some file'\<rparr>, fs'))
            else
              (case sys_fsync (fst file') fs' of (done_sync, fs'') \<Rightarrow>
                 (if \<not> done_sync then Inl (file_backend_failure ''File write failed'') else Inr (),
                  (out\<lparr>ofile := Some file'\<rparr>, fs'')))))"

text \<open>\<^verbatim>\<open>write_all(OutputFile &, ...)\<close>\<close>

definition write_all_file :: "bytes \<Rightarrow> (error, output_file \<times> file_system, unit) act" where
  "write_all_file data = output_write data"

section \<open>Opening and committing\<close>

definition open_input :: "path \<Rightarrow> (error, file_system, istream) act" where
  "open_input p =
     bindM (call (ifstream_open p)) (\<lambda>r.
     case r of None \<Rightarrow> throw (file_backend_failure ''File open failed'') | Some in_stream \<Rightarrow> ret in_stream)"

datatype ExclusiveOpenResult = opened | already_exists | open_failed

definition try_open_output_exclusive :: "path \<Rightarrow> output_file \<times> file_system \<Rightarrow> ExclusiveOpenResult \<times> output_file \<times> file_system" where
  "try_open_output_exclusive p = (\<lambda>(output, fs).
     case sys_open_excl p fs of
       (Inl err, fs1) \<Rightarrow> (if err = EEXIST then already_exists else open_failed, output, fs1)
     | (Inr fd, fs1) \<Rightarrow>
         (case sys_plain fs1 of (ok, fs2) \<Rightarrow>
            if \<not> ok then (open_failed, output, snd (sys_plain fs2))
            else (opened, output_assign (output_open p (fd, [])) (output, fs2))))"

text \<open>The 16 digits, low nibble second, as in \<^verbatim>\<open>hex_digits[...]\<close>.\<close>

definition hex_digits :: string where
  "hex_digits = ''0123456789abcdef''"

definition temp_suffix :: "bytes \<Rightarrow> string" where
  "temp_suffix token =
     ''.securekit.'' @
     concat (map (\<lambda>v. [hex_digits ! unat (drop_bit 4 v AND 0x0f), hex_digits ! unat (v AND 0x0f)]) token) @
     ''.tmp''"

definition make_unique_temp_path :: "('w, 'c, 'd) openssl \<Rightarrow> path \<Rightarrow> (error, 'w, path) act" where
  "make_unique_temp_path ossl output =
     bindM (random_bytes ossl 16) (\<lambda>token. ret (output @ temp_suffix token))"

definition flush_parent_directory :: "path \<Rightarrow> (error, file_system, unit) act" where
  "flush_parent_directory p =
     bindM (call sys_plain) (\<lambda>is_open.
     thenM (throw_if (\<not> is_open) (file_backend_failure ''Directory open failed''))
    (bindM (call (sys_fsync_dir (directory_of p))) (\<lambda>is_synced.
     if \<not> is_synced
     then bindM (call sys_plain) (\<lambda>_. throw (file_backend_failure ''Directory sync failed''))
     else bindM (call sys_plain) (\<lambda>closed.
       throw_if (\<not> closed) (file_backend_failure ''Directory sync failed'')))))"

definition ensure_output_does_not_exist :: "path \<Rightarrow> (error, file_system, unit) act" where
  "ensure_output_does_not_exist output =
     bindM (call (fs_exists output)) (\<lambda>r.
     case r of
       None \<Rightarrow> throw (file_backend_failure ''File status check failed'')
     | Some exists \<Rightarrow> throw_if exists (Error invalid_input ''Output file already exists''))"

text \<open>
  One attempt per recursion; the object of a failed attempt is destroyed at the end of the
  iteration.
\<close>

primrec open_temp_attempts ::
  "('w, 'c, 'd) openssl \<Rightarrow> nat \<Rightarrow> path \<Rightarrow> (error, file_system \<times> 'w, output_file) act" where
  "open_temp_attempts ossl 0 output = throw (file_backend_failure ''Temporary file creation failed'')"
| "open_temp_attempts ossl (Suc n) output =
     bindM (on_snd (make_unique_temp_path ossl output)) (\<lambda>temp_path.
     bindM (on_fst (call (\<lambda>fs. case try_open_output_exclusive temp_path (output_default, fs) of
                                 (result, temp, fs') \<Rightarrow> ((result, temp), fs')))) (\<lambda>(result, temp).
     if result = opened then ret temp
     else thenM (on_fst (modify (\<lambda>fs. output_destroy (temp, fs))))
         (if result = open_failed then throw (file_backend_failure ''File open failed'')
          else open_temp_attempts ossl n output)))"

definition open_unique_temp_output ::
  "('w, 'c, 'd) openssl \<Rightarrow> path \<Rightarrow> (error, file_system \<times> 'w, output_file) act" where
  "open_unique_temp_output ossl output = open_temp_attempts ossl 32 output"

definition remove_quietly :: "path \<Rightarrow> file_system \<Rightarrow> file_system" where
  "remove_quietly p fs = fs_remove p fs"

definition commit_temp_file :: "path \<Rightarrow> path \<Rightarrow> (error, file_system, unit) act" where
  "commit_temp_file temp_path output =
     bindM (call (sys_link temp_path output)) (\<lambda>r.
     case r of
       None \<Rightarrow>
         thenM (modify (remove_quietly temp_path)) (flush_parent_directory output)
     | Some err \<Rightarrow>
         thenM (throw_if (err = EEXIST) (Error invalid_input ''Output file already exists''))
               (throw (file_backend_failure ''File rename failed'')))"

section \<open>The output file as a sink\<close>

text \<open>What has been written: the content of the file and the buffer.\<close>

definition accepted_file :: "output_file \<times> file_system \<Rightarrow> bytes" where
  "accepted_file = (\<lambda>(out, fs). case ofile out of None \<Rightarrow> [] | Some (n, buffer) \<Rightarrow> contents fs (Own n) @ buffer)"

text \<open>No fault from now on.\<close>

definition quiet :: "file_system \<Rightarrow> bool" where
  "quiet fs \<longleftrightarrow> (\<forall>t. clock fs \<le> t \<longrightarrow> \<not> faults fs t)"

definition file_roomy :: "output_file \<times> file_system \<Rightarrow> bool" where
  "file_roomy = (\<lambda>(out, fs). ofile out \<noteq> None \<and> quiet fs)"

lemma quiet_call: "arrived fs fs' \<Longrightarrow> quiet fs \<Longrightarrow> quiet fs'"
  unfolding quiet_def arrived_def by (elim conjE, metis order_trans)

lemma quiet_now [simp]: "quiet fs \<Longrightarrow> \<not> faults fs (clock fs)"
  by (simp add: quiet_def)

lemma stdio_fwrite_effect:
  assumes "stdio_fwrite data (n, buf) fs = (k, file', fs')"
  shows "\<exists>fs1 j. syscall fs = (faults fs (clock fs), fs1) \<and> arrived fs fs1 \<and>
    fs' = fs1\<lparr>contents := (contents fs1)(Own n := contents fs (Own n) @ take j (buf @ take k data))\<rparr> \<and>
    file' = (n, drop j (buf @ take k data)) \<and> k \<le> length data \<and>
    (\<not> faults fs (clock fs) \<longrightarrow> k = length data)"
proof -
  obtain failed fs1 where c: "syscall fs = (failed, fs1)" by fastforce
  with syscall_arrived [OF c] have a: "arrived fs fs1" "failed = faults fs (clock fs)"
    "contents fs1 (Own n) = contents fs (Own n)" by (simp_all add: arrived_def)
  show ?thesis
    using assms c a by (auto simp: stdio_fwrite_def Let_def drain_def split: if_splits)
qed

lemma stdio_fflush_effect:
  assumes "stdio_fflush (n, buf) fs = (flushed, file', fs')"
  shows "\<exists>fs1 j. syscall fs = (\<not> flushed, fs1) \<and> arrived fs fs1 \<and>
    fs' = fs1\<lparr>contents := (contents fs1)(Own n := contents fs (Own n) @ take j buf)\<rparr> \<and>
    file' = (n, drop j buf) \<and> (flushed \<longrightarrow> length buf \<le> j) \<and> flushed = (\<not> faults fs (clock fs))"
proof -
  obtain failed fs1 where c: "syscall fs = (failed, fs1)" by fastforce
  with syscall_arrived [OF c] have "arrived fs fs1" "failed = faults fs (clock fs)"
    "contents fs1 (Own n) = contents fs (Own n)" by (simp_all add: arrived_def)
  then show ?thesis
    using assms c
    by (cases "faults fs (clock fs)")
      (auto simp: stdio_fflush_def Let_def drain_def intro!: exI [of _ "if flushed then length buf else drains fs (clock fs)"])
qed

interpretation file_sink: roomy_sink write_all_file accepted_file file_roomy
proof (unfold_locales, goal_cases)
  case (1 data o1 o2)
  obtain out fs where o1: "o1 = (out, fs)" by fastforce
  show ?case
  proof (cases "data = []")
    case False
    then obtain n buf where fl: "ofile out = Some (n, buf)"
      using 1 by (auto simp: o1 write_all_file_def output_write_def split: option.splits)
    obtain k file' fs' where w: "stdio_fwrite data (n, buf) fs = (k, file', fs')" by (metis prod_cases3)
    from stdio_fwrite_effect [OF w] 1 False fl w show ?thesis
      by (auto simp: o1 write_all_file_def output_write_def accepted_file_def simp del: take_append drop_append split: if_splits)
  qed (use 1 o1 in \<open>simp add: write_all_file_def output_write_def\<close>)
next
  case (2 data o1 e o2)
  obtain out fs where o1: "o1 = (out, fs)" by fastforce
  have ne: "data \<noteq> []" using 2 by (auto simp: write_all_file_def output_write_def)
  show ?case
  proof (cases "ofile out")
    case None
    with 2 ne o1 show ?thesis
      by (auto simp: write_all_file_def output_write_def accepted_file_def file_backend_failure_def)
  next
    case (Some a)
    obtain n buf where fl: "a = (n, buf)" by fastforce
    obtain k file' fs' where w: "stdio_fwrite data (n, buf) fs = (k, file', fs')" by (metis prod_cases3)
    from stdio_fwrite_effect [OF w] 2 ne Some fl w show ?thesis
      by (auto simp: o1 write_all_file_def output_write_def accepted_file_def file_backend_failure_def
          take_is_prefix simp del: take_append drop_append split: if_splits)
  qed
next
  case (3 o1 data)
  obtain out fs where o1: "o1 = (out, fs)" by fastforce
  with 3 obtain n buf where fl: "ofile out = Some (n, buf)" and q: "quiet fs" by (auto simp: file_roomy_def)
  obtain k file' fs' where w: "stdio_fwrite data (n, buf) fs = (k, file', fs')" by (metis prod_cases3)
  from stdio_fwrite_effect [OF w] q obtain fs1 j where e: "arrived fs fs1" "k = length data"
    "fs' = fs1\<lparr>contents := (contents fs1)(Own n := contents fs (Own n) @ take j (buf @ take k data))\<rparr>"
    unfolding quiet_def by blast
  from quiet_call [OF e(1) q] have "quiet fs'" by (simp add: e(3) quiet_def)
  with w e(2) fl q show ?case
    by (cases "data = []") (simp_all add: o1 write_all_file_def output_write_def file_roomy_def)
qed

section \<open>What changed since a state\<close>

text \<open>
  \<open>extends fs0 A fs\<close>: everything that existed in \<open>fs0\<close> still does, with its content,
  and of the entries for files of this program only those of \<open>A\<close> are new; any other new one
  is one that another program creates.
\<close>

definition known :: "file_system \<Rightarrow> file_id \<Rightarrow> bool" where
  "known fs m = (case m of Own k \<Rightarrow> k < next_own fs | Foreign k \<Rightarrow> k < next_foreign fs)"

definition extends :: "file_system \<Rightarrow> (path \<times> nat) set \<Rightarrow> file_system \<Rightarrow> bool" where
  "extends fs0 A fs \<longleftrightarrow>
     (\<forall>p m. entries fs0 p = Some m \<longrightarrow> entries fs p = Some m) \<and>
     (\<forall>m. known fs0 m \<longrightarrow> contents fs m = contents fs0 m) \<and>
     (\<forall>p k. entries fs p = Some (Own k) \<longrightarrow> entries fs0 p = Some (Own k) \<or> (p, k) \<in> A) \<and>
     (\<forall>p k. entries fs p = Some (Foreign k) \<longrightarrow> entries fs0 p = Some (Foreign k) \<or> (\<exists>t b. (p, b) \<in> set (others fs0 t))) \<and>
     next_own fs0 \<le> next_own fs \<and> next_foreign fs0 \<le> next_foreign fs \<and> clock fs0 \<le> clock fs \<and>
     faults fs = faults fs0 \<and> others fs = others fs0 \<and> stream_limit fs = stream_limit fs0"

lemma extends_refl [simp]: "extends fs A fs"
  by (simp add: extends_def)

lemma extends_mono: "extends fs0 A fs \<Longrightarrow> A \<subseteq> B \<Longrightarrow> extends fs0 B fs"
  unfolding extends_def by blast

lemma extends_quiet: "extends fs0 A fs \<Longrightarrow> quiet fs0 \<Longrightarrow> quiet fs"
  unfolding extends_def quiet_def by (elim conjE, metis order_trans)

lemma extends_arrived:
  assumes "extends fs0 A fs" and "arrived fs fs'"
  shows "extends fs0 A fs'"
proof -
  note e = assms(1) [unfolded extends_def] and a = assms(2) [unfolded arrived_def]
  have "contents fs' m = contents fs0 m" if "known fs0 m" for m
    using e a that by (cases m) (auto simp: known_def)
  moreover have "entries fs0 p = Some (Own k) \<or> (p, k) \<in> A" if "entries fs' p = Some (Own k)" for p k
    using e a that by (metis file_id.distinct(1))
  moreover have "entries fs0 p = Some (Foreign k) \<or> (\<exists>t b. (p, b) \<in> set (others fs0 t))"
    if "entries fs' p = Some (Foreign k)" for p k
    using e a that by metis
  moreover have "entries fs' p = Some m" if "entries fs0 p = Some m" for p m
    using e a that by metis
  ultimately show ?thesis
    using e a unfolding extends_def by (elim conjE, intro conjI) (simp_all)
qed

lemma extends_write:
  "extends fs0 A fs \<Longrightarrow> next_own fs0 \<le> n \<Longrightarrow> extends fs0 A (fs\<lparr>contents := (contents fs)(Own n := b)\<rparr>)"
  by (auto simp: extends_def known_def)

section \<open>The temporary file\<close>

text \<open>The temporary file is there under its name, and the object writes to no other file.\<close>

definition temp_open :: "file_system \<Rightarrow> path \<Rightarrow> nat \<Rightarrow> output_file \<times> file_system \<Rightarrow> bool" where
  "temp_open fs0 tp n = (\<lambda>(out, fs).
     extends fs0 {(tp, n)} fs \<and> entries fs0 tp = None \<and> entries fs tp = Some (Own n) \<and> next_own fs0 \<le> n \<and>
     n < next_own fs \<and> (\<forall>f. ofile out = Some f \<longrightarrow> fst f = n))"

lemma temp_open_arrived: "temp_open fs0 tp n (out, fs) \<Longrightarrow> arrived fs fs' \<Longrightarrow> temp_open fs0 tp n (out, fs')"
  by (auto simp: temp_open_def extends_arrived arrived_entry arrived_own(4))

lemma temp_open_write:
  "temp_open fs0 tp n (out, fs) \<Longrightarrow> temp_open fs0 tp n (out, fs\<lparr>contents := (contents fs)(Own n := b)\<rparr>)"
  by (auto simp: temp_open_def extends_write)

lemma temp_open_file:
  "temp_open fs0 tp n (out, fs) \<Longrightarrow> temp_open fs0 tp n (out\<lparr>ofile := Some (n, b)\<rparr>, fs)"
  "temp_open fs0 tp n (out, fs) \<Longrightarrow> temp_open fs0 tp n (out\<lparr>ofile := None\<rparr>, fs)"
  by (auto simp: temp_open_def)

definition temp_writing :: "file_system \<Rightarrow> path \<Rightarrow> nat \<Rightarrow> output_file \<times> file_system \<Rightarrow> bool" where
  "temp_writing fs0 tp n s \<longleftrightarrow> temp_open fs0 tp n s \<and> ofile (fst s) \<noteq> None"

lemma preserves_write_all_file: "preserves (temp_writing fs0 tp n) (write_all_file data)"
  unfolding preserves_iff
proof clarify
  fix out fs assume inv: "temp_writing fs0 tp n (out, fs)"
  show "temp_writing fs0 tp n (snd (write_all_file data (out, fs)))"
  proof (cases "data = []")
    case False
    from inv have inv': "temp_open fs0 tp n (out, fs)" by (simp add: temp_writing_def)
    from inv obtain a where a: "ofile out = Some a" by (auto simp: temp_writing_def)
    with inv' have "fst a = n" by (cases a) (simp add: temp_open_def)
    with a obtain buf where fl: "ofile out = Some (n, buf)" by (cases a) simp
    obtain k file' fs' where w: "stdio_fwrite data (n, buf) fs = (k, file', fs')" by (metis prod_cases3)
    from stdio_fwrite_effect [OF w] obtain fs1 j where e: "arrived fs fs1" "file' = (n, drop j (buf @ take k data))"
      "fs' = fs1\<lparr>contents := (contents fs1)(Own n := contents fs (Own n) @ take j (buf @ take k data))\<rparr>" by blast
    have "temp_open fs0 tp n (out\<lparr>ofile := Some file'\<rparr>, fs')"
      unfolding e(2, 3) by (intro temp_open_file temp_open_write temp_open_arrived [OF inv' e(1)])
    then show ?thesis using w fl False by (auto simp: write_all_file_def output_write_def temp_writing_def)
  qed (use inv in \<open>simp add: write_all_file_def output_write_def\<close>)
qed

lemma temp_open_fflush:
  assumes "temp_open fs0 tp n (out, fs)" and "stdio_fflush (n, buf) fs = (flushed, file', fs')"
  shows "temp_open fs0 tp n (out\<lparr>ofile := Some file'\<rparr>, fs') \<and> flushed = (\<not> faults fs (clock fs)) \<and>
    (flushed \<longrightarrow> file' = (n, []) \<and> contents fs' (Own n) = contents fs (Own n) @ buf \<and> synced fs' (Own n) = synced fs (Own n)) \<and>
    (quiet fs \<longrightarrow> quiet fs')"
proof -
  from stdio_fflush_effect [OF assms(2)] obtain fs1 j where e: "arrived fs fs1" "file' = (n, drop j buf)"
    "fs' = fs1\<lparr>contents := (contents fs1)(Own n := contents fs (Own n) @ take j buf)\<rparr>"
    "flushed \<longrightarrow> length buf \<le> j" "flushed = (\<not> faults fs (clock fs))" by blast
  have "temp_open fs0 tp n (out\<lparr>ofile := Some file'\<rparr>, fs')"
    unfolding e(2, 3) by (intro temp_open_file temp_open_write temp_open_arrived [OF assms(1) e(1)])
  moreover have "quiet fs \<longrightarrow> quiet fs'"
    using quiet_call [OF e(1)] by (auto simp: e(3) quiet_def)
  ultimately show ?thesis using e arrived_own [OF e(1)] by auto
qed

lemma flush_wp:
  assumes "temp_open fs0 tp n (out, fs)" and "ofile out = Some (n, buf)"
  shows "wp output_flush
    (\<lambda>_ (out', fs'). temp_open fs0 tp n (out', fs') \<and> ofile out' = Some (n, []) \<and>
       contents fs' (Own n) = contents fs (Own n) @ buf \<and> synced fs' (Own n) = Some (contents fs (Own n) @ buf) \<and>
       (quiet fs \<longrightarrow> quiet fs'))
    (\<lambda>e (out', fs'). temp_open fs0 tp n (out', fs') \<and> code e = backend_failure \<and> \<not> quiet fs) (out, fs)"
proof -
  obtain flushed file1 fs1 where f: "stdio_fflush (n, buf) fs = (flushed, file1, fs1)" by (metis prod_cases3)
  note e = temp_open_fflush [OF assms(1) f]
  show ?thesis
  proof (cases flushed)
    case False
    then have "\<not> quiet fs" using e by auto
    then show ?thesis
      using e f assms(2) False by (simp add: output_flush_def wp_def file_backend_failure_def)
  next
    case True
    obtain failed fs2 where c: "syscall fs1 = (failed, fs2)" by fastforce
    note c' = syscall_arrived [OF c]
    have inv: "temp_open fs0 tp n (out\<lparr>ofile := Some (n, [])\<rparr>, fs2)"
      using e True temp_open_arrived c' by blast
    have q: "quiet fs \<longrightarrow> \<not> failed \<and> quiet fs2" using e c' quiet_call [of fs1 fs2] by auto
    show ?thesis
    proof (cases failed)
      case True
      with q inv e \<open>flushed\<close> f assms(2) c show ?thesis
        by (auto simp: output_flush_def wp_def file_backend_failure_def sys_fsync_def)
    next
      case False
      have "temp_open fs0 tp n (out\<lparr>ofile := Some (n, [])\<rparr>, fs2\<lparr>synced := s\<rparr>)" for s
        using inv by (simp add: temp_open_def extends_def)
      then show ?thesis
        using q inv e \<open>flushed\<close> f assms(2) c False c' arrived_own [of fs1 fs2]
        by (auto simp: output_flush_def wp_def file_backend_failure_def sys_fsync_def quiet_def)
    qed
  qed
qed

lemma close_wp:
  assumes "temp_open fs0 tp n (out, fs)" and "ofile out = Some (n, [])"
  shows "wp output_close
    (\<lambda>_ (out', fs'). temp_open fs0 tp n (out', fs') \<and> ofile out' = None \<and>
       contents fs' (Own n) = contents fs (Own n) \<and> synced fs' (Own n) = synced fs (Own n) \<and> (quiet fs \<longrightarrow> quiet fs'))
    (\<lambda>e (out', fs'). temp_open fs0 tp n (out', fs') \<and> code e = backend_failure \<and> \<not> quiet fs) (out, fs)"
proof -
  obtain flushed file1 fs1 where f: "stdio_fflush (n, []) fs = (flushed, file1, fs1)" by (metis prod_cases3)
  note e = temp_open_fflush [OF assms(1) f]
  have "temp_open fs0 tp n (out\<lparr>ofile := None\<rparr>, fs1)" using e by (simp add: temp_open_def)
  then show ?thesis
    using e f assms(2) by (auto simp: output_close_def stdio_fclose_def wp_def file_backend_failure_def)
qed

lemma close_quietly_temp_open:
  assumes "temp_open fs0 tp n (out, fs)"
  shows "temp_open fs0 tp n (close_quietly (out, fs)) \<and> ofile (fst (close_quietly (out, fs))) = None"
proof (cases "ofile out")
  case (Some a)
  then obtain buf where a: "a = (n, buf)" using assms by (cases a) (auto simp: temp_open_def)
  obtain flushed file1 fs1 where f: "stdio_fflush (n, buf) fs = (flushed, file1, fs1)" by (metis prod_cases3)
  from temp_open_fflush [OF assms f] show ?thesis
    using f Some a by (simp add: close_quietly_def stdio_fclose_def temp_open_def)
qed (use assms in \<open>simp add: close_quietly_def\<close>)

text \<open>Names of temporary files for an output, and a state in which at most such files are left over, after a fault.\<close>

definition is_temp :: "path \<Rightarrow> path \<Rightarrow> bool" where
  "is_temp output p \<longleftrightarrow> (\<exists>token. length token = 16 \<and> p = output @ temp_suffix token)"

definition left_over :: "file_system \<Rightarrow> path \<Rightarrow> (path \<times> nat) set \<Rightarrow> file_system \<Rightarrow> bool" where
  "left_over fs0 output B fs \<longleftrightarrow>
     (\<exists>A. extends fs0 (A \<union> B) fs \<and> (\<forall>(p, k) \<in> A. is_temp output p) \<and> (quiet fs0 \<longrightarrow> A = {}))"

lemma left_overI: "extends fs0 B fs \<Longrightarrow> left_over fs0 output B fs"
  unfolding left_over_def by (rule exI [of _ "{}"]) simp

lemma left_over_temp: "extends fs0 (insert (tp, n) B) fs \<Longrightarrow> is_temp output tp \<Longrightarrow> \<not> quiet fs0 \<Longrightarrow> left_over fs0 output B fs"
  unfolding left_over_def by (rule exI [of _ "{(tp, n)}"]) simp

lemma is_temp_ne: "is_temp output p \<Longrightarrow> p \<noteq> output"
  by (auto simp: is_temp_def temp_suffix_def)

lemma extends_new_file:
  assumes "extends fs0 A fs" and "entries fs p = None"
  shows "extends fs0 (insert (p, next_own fs) A) ((new_file p b (Own (next_own fs)) fs)\<lparr>next_own := Suc (next_own fs)\<rparr>)"
  using assms by (auto simp: extends_def new_file_def known_def split: file_id.splits)

lemma try_open_effect:
  assumes ext: "extends fs0 {} fs" and "try_open_output_exclusive p (output_default, fs) = (r, out, fs')"
  shows "case r of
      opened \<Rightarrow> \<exists>n. temp_open fs0 p n (out, fs') \<and> opath out = p \<and> ofile out = Some (n, []) \<and> contents fs' (Own n) = []
    | already_exists \<Rightarrow> extends fs0 {} fs' \<and> ofile out = None \<and> entries fs' p \<noteq> None
    | open_failed \<Rightarrow> (\<exists>n. extends fs0 {(p, n)} fs') \<and> ofile out = None \<and> \<not> quiet fs"
proof -
  obtain failed fs1 where c: "syscall fs = (failed, fs1)" by fastforce
  note c' = syscall_arrived [OF c]
  have ext1: "extends fs0 {} fs1" using extends_arrived [OF ext] c' by blast
  have nq: "failed \<Longrightarrow> \<not> quiet fs" using c' by auto
  show ?thesis
  proof (cases "failed \<or> entries fs1 p \<noteq> None")
    case True
    then have "r = (if failed then open_failed else already_exists)" "out = output_default" "fs' = fs1"
      using assms(2) c by (cases failed; auto simp: try_open_output_exclusive_def sys_open_excl_def)+
    then show ?thesis
      using ext1 extends_mono [OF ext1] nq True by (auto simp: output_default_def)
  next
    case False
    define fs2 where "fs2 = (new_file p [] (Own (next_own fs1)) fs1)\<lparr>next_own := Suc (next_own fs1)\<rparr>"
    have o: "sys_open_excl p fs = (Inr (next_own fs1), fs2)" using False c by (simp add: sys_open_excl_def fs2_def)
    have ext2: "extends fs0 {(p, next_own fs1)} fs2"
      unfolding fs2_def using extends_new_file [OF ext1] False by simp
    have ent: "entries fs2 p = Some (Own (next_own fs1))" "contents fs2 (Own (next_own fs1)) = []"
      "next_own fs2 = Suc (next_own fs1)"
      by (simp_all add: fs2_def new_file_def)
    obtain failed2 fs3 where c2: "syscall fs2 = (failed2, fs3)" by fastforce
    note c2' = syscall_arrived [OF c2]
    have ext3: "extends fs0 {(p, next_own fs1)} fs3" using extends_arrived [OF ext2] c2' by blast
    have q: "quiet fs \<Longrightarrow> \<not> failed2"
    proof -
      assume "quiet fs"
      then have "quiet fs1" using quiet_call c' by blast
      then have "quiet fs2" by (simp add: fs2_def quiet_def new_file_def)
      then show "\<not> failed2" using c2' by auto
    qed
    have p0: "entries fs0 p = None"
      using ext1 False by (metis extends_def not_None_eq)
    show ?thesis
    proof (cases failed2)
      case True
      then have "r = open_failed" "out = output_default" "fs' = snd (sys_plain fs3)"
        using assms(2) o c2 by (auto simp: try_open_output_exclusive_def sys_plain_def)
      moreover have "extends fs0 {(p, next_own fs1)} (snd (sys_plain fs3))"
        using extends_arrived [OF ext3] syscall_arrived [of fs3] by (auto simp: sys_plain_def split: prod.splits)
      ultimately show ?thesis using True q by (auto simp: output_default_def)
    next
      case False
      then have r: "r = opened" "out = \<lparr>opath = p, ofile = Some (next_own fs1, [])\<rparr>" "fs' = fs3"
        using assms(2) o c2
        by (auto simp: try_open_output_exclusive_def sys_plain_def output_assign_def close_quietly_def
            output_default_def output_open_def)
      have "next_own fs0 \<le> next_own fs1" using ext1 by (simp add: extends_def)
      then have "temp_open fs0 p (next_own fs1) (out, fs')"
        using r ext3 p0 ent(1, 3) c2' arrived_entry [of fs2 fs3] arrived_own(4) [of fs2 fs3]
        by (auto simp: temp_open_def)
      then show ?thesis using r ent(2) c2' arrived_own(1) [of fs2 fs3 "next_own fs1"] by simp
    qed
  qed
qed

lemma left_over_keeps: "left_over fs0 output B fs \<Longrightarrow> entries fs0 p \<noteq> None \<Longrightarrow> entries fs p \<noteq> None"
  unfolding left_over_def extends_def by blast

text \<open>Why no temporary file could be opened.\<close>

definition temp_fault :: "('w, 'c, 'd) openssl \<Rightarrow> file_system \<Rightarrow> path \<Rightarrow> file_system \<Rightarrow> bool" where
  "temp_fault ossl fs0 output fs \<longleftrightarrow>
     \<not> quiet fs0 \<or> \<not> rand_available ossl \<or> (\<exists>p. is_temp output p \<and> entries fs p \<noteq> None)"

lemma open_temp_attempts_wp:
  "extends fs0 {} fs \<Longrightarrow> wp (open_temp_attempts ossl m output)
    (\<lambda>out (fs', w'). \<exists>n. temp_open fs0 (opath out) n (out, fs') \<and> is_temp output (opath out) \<and>
       ofile out = Some (n, []) \<and> contents fs' (Own n) = [])
    (\<lambda>e (fs', w'). code e = backend_failure \<and> left_over fs0 output {} fs' \<and> (m = 0 \<or> temp_fault ossl fs0 output fs')) (fs, w)"
proof (induction m arbitrary: fs0 fs w)
  case 0
  then show ?case by (simp add: wp_def throw_def file_backend_failure_def left_overI)
next
  case (Suc m)
  have path: "wp (make_unique_temp_path ossl output) (\<lambda>p _. is_temp output p)
      (\<lambda>e _. code e = backend_failure \<and> \<not> rand_available ossl) w"
    by (rule wpI)
      (auto simp: make_unique_temp_path_def bindM_Inr bindM_Inl is_temp_def dest: random_bytes_length random_bytes_fault)
  show ?case
    unfolding open_temp_attempts.simps wp_bindM wp_on_snd
  proof (rule wp_conseq [OF path], goal_cases)
    case (1 tp w1)
    obtain r out fs' where t: "try_open_output_exclusive tp (output_default, fs) = (r, out, fs')" by (metis prod_cases3)
    note e = try_open_effect [OF Suc.prems t]
    have destroy: "ofile out = None \<Longrightarrow> output_destroy (out, fs') = fs'" by (simp add: output_destroy_def close_quietly_def)
    show ?case
    proof (cases r)
      case opened
      then show ?thesis using e t 1 by (auto simp: wp_simps)
    next
      case already_exists
      then have e': "extends fs0 {} fs'" "ofile out = None" "entries fs' tp \<noteq> None" using e by simp_all
      have "wp (open_temp_attempts ossl m output)
          (\<lambda>out (fs'', w'). \<exists>n. temp_open fs0 (opath out) n (out, fs'') \<and> is_temp output (opath out) \<and>
             ofile out = Some (n, []) \<and> contents fs'' (Own n) = [])
          (\<lambda>e (fs'', w'). code e = backend_failure \<and> left_over fs0 output {} fs'' \<and> temp_fault ossl fs0 output fs'') (fs', w1)"
      proof (rule wpI)
        fix e s'' assume run: "open_temp_attempts ossl m output (fs', w1) = (Inl e, s'')"
        obtain fs'' w'' where s: "s'' = (fs'', w'')" by fastforce
        have "entries fs'' tp \<noteq> None"
          using wp_InlD [OF Suc.IH [OF extends_refl] run] left_over_keeps [OF _ e'(3)] by (auto simp: s)
        then show "case s'' of (fs'', w') \<Rightarrow> code e = backend_failure \<and> left_over fs0 output {} fs'' \<and> temp_fault ossl fs0 output fs''"
          using wp_InlD [OF Suc.IH [OF e'(1)] run] 1 by (auto simp: s temp_fault_def)
      qed (use wp_InrD [OF Suc.IH [OF e'(1)]] in auto)
      then show ?thesis using already_exists e' t destroy by (simp add: wp_simps)
    next
      case open_failed
      then have "\<not> quiet fs0" using e extends_quiet [OF Suc.prems] by auto
      then show ?thesis
        using e t destroy open_failed 1 left_over_temp [of fs0 tp _ "{}" fs' "output"]
        by (auto simp: wp_simps file_backend_failure_def temp_fault_def)
    qed
  next
    case (2 e w1)
    then show ?case using Suc.prems by (simp add: left_overI temp_fault_def)
  qed
qed

section \<open>Removal and commit\<close>

lemma remove_effect:
  assumes "extends fs0 A fs" and "entries fs0 tp = None"
  shows "extends fs0 A (remove_quietly tp fs)"
    and "quiet fs \<Longrightarrow> extends fs0 {(p, k) \<in> A. p \<noteq> tp} (remove_quietly tp fs)"
    and "p \<noteq> tp \<Longrightarrow> entries fs p = Some m \<Longrightarrow> entries (remove_quietly tp fs) p = Some m"
    and "contents (remove_quietly tp fs) (Own n) = contents fs (Own n)"
    and "synced (remove_quietly tp fs) (Own n) = synced fs (Own n)"
    and "durable (remove_quietly tp fs) = durable fs" and "next_own (remove_quietly tp fs) = next_own fs"
    and "quiet fs \<Longrightarrow> quiet (remove_quietly tp fs)"
proof -
  obtain failed fs1 where c: "syscall fs = (failed, fs1)" by fastforce
  note c' = syscall_arrived [OF c]
  then have a: "arrived fs fs1" by simp
  have e1: "extends fs0 A fs1" using extends_arrived [OF assms(1) a] .
  have r: "remove_quietly tp fs = (if failed then fs1 else fs1\<lparr>entries := (entries fs1)(tp := None)\<rparr>)"
    by (simp add: remove_quietly_def fs_remove_def c)
  show "extends fs0 A (remove_quietly tp fs)"
    using e1 assms(2) by (auto simp: r extends_def)
  show "extends fs0 {(p, k) \<in> A. p \<noteq> tp} (remove_quietly tp fs)" if "quiet fs"
    using e1 assms(2) that c' by (auto simp: r extends_def)
  show "entries (remove_quietly tp fs) p = Some m" if "p \<noteq> tp" "entries fs p = Some m"
    using arrived_entry [OF a that(2)] that(1) by (simp add: r)
  show "quiet (remove_quietly tp fs)" if "quiet fs"
    using quiet_call [OF a that] by (simp add: r quiet_def)
qed (use arrived_own in \<open>auto simp: remove_quietly_def fs_remove_def dest: syscall_arrived split: prod.splits if_splits\<close>)

text \<open>The output is a new file of this program with content \<open>d\<close>, all of it on disk.\<close>

definition committed :: "file_system \<Rightarrow> path \<Rightarrow> nat \<Rightarrow> bytes \<Rightarrow> file_system \<Rightarrow> bool" where
  "committed fs0 output n d fs \<longleftrightarrow>
     entries fs0 output = None \<and> entries fs output = Some (Own n) \<and> next_own fs0 \<le> n \<and> n < next_own fs \<and>
     contents fs (Own n) = d \<and> synced fs (Own n) = Some d"

lemma committed_arrived: "committed fs0 output n d fs \<Longrightarrow> arrived fs fs' \<Longrightarrow> committed fs0 output n d fs'"
  by (auto simp: committed_def arrived_own dest: arrived_entry)

lemma flush_parent_directory_wp:
  assumes "committed fs0 output n d fs" and "extends fs0 A fs"
  shows "wp (flush_parent_directory output)
    (\<lambda>_ fs'. committed fs0 output n d fs' \<and> extends fs0 A fs' \<and> durable fs' output = Some (Own n) \<and> (quiet fs \<longrightarrow> quiet fs'))
    (\<lambda>e fs'. committed fs0 output n d fs' \<and> extends fs0 A fs' \<and> code e = backend_failure \<and> \<not> quiet fs) fs"
proof -
  have step: "committed fs0 output n d fs2 \<and> extends fs0 A fs2 \<and> (quiet fs1 \<longrightarrow> \<not> failed \<and> quiet fs2) \<and> durable fs2 = durable fs1"
    if "committed fs0 output n d fs1 \<and> extends fs0 A fs1" "syscall fs1 = (failed, fs2)" for fs1 fs2 failed
    using that syscall_arrived [OF that(2)] committed_arrived extends_arrived quiet_call arrived_own(3) by (metis quiet_now)
  obtain b1 fs1 where 1: "syscall fs = (b1, fs1)" by fastforce
  obtain b2 fs2 where 2: "syscall fs1 = (b2, fs2)" by fastforce
  define fs2' where "fs2' = fs2\<lparr>durable := (\<lambda>p. if directory_of p = directory_of output then entries fs2 p else durable fs2 p)\<rparr>"
  obtain b3 fs3 where 3: "syscall fs2' = (b3, fs3)" by fastforce
  obtain b4 fs4 where 4: "syscall fs2 = (b4, fs4)" by fastforce
  have s1: "committed fs0 output n d fs1 \<and> extends fs0 A fs1 \<and> (quiet fs \<longrightarrow> \<not> b1 \<and> quiet fs1)"
    using step [OF _ 1] assms by simp
  then have s2: "committed fs0 output n d fs2 \<and> extends fs0 A fs2 \<and> (quiet fs1 \<longrightarrow> \<not> b2 \<and> quiet fs2)"
    using step [OF _ 2] by simp
  then have s2': "committed fs0 output n d fs2' \<and> extends fs0 A fs2' \<and> (quiet fs2 \<longrightarrow> quiet fs2')"
    by (simp add: fs2'_def committed_def extends_def quiet_def)
  have dur: "durable fs2' output = Some (Own n)" using s2 by (simp add: fs2'_def committed_def)
  note s3 = step [OF _ 3] and s4 = step [OF _ 4]
  show ?thesis
    using s1 s2 s2' s3 s4 dur 1 2 3 4
    by (cases b1; cases b2; cases b3)
      (auto simp: flush_parent_directory_def wp_def act_simps sys_plain_def sys_fsync_dir_def file_backend_failure_def
        fs2'_def [symmetric])
qed

text \<open>
  \<open>linked fs0 tp output n fs fs'\<close>: from \<open>fs\<close> the temporary file got its name and lost
  the temporary one, unless removing that failed.
\<close>

definition linked :: "file_system \<Rightarrow> path \<Rightarrow> path \<Rightarrow> nat \<Rightarrow> file_system \<Rightarrow> file_system \<Rightarrow> bool" where
  "linked fs0 tp output n fs fs' \<longleftrightarrow>
     entries fs0 output = None \<and> entries fs' output = Some (Own n) \<and> next_own fs0 \<le> n \<and> n < next_own fs' \<and>
     contents fs' (Own n) = contents fs (Own n) \<and> synced fs' (Own n) = synced fs (Own n) \<and>
     extends fs0 (if quiet fs then {(output, n)} else {(tp, n), (output, n)}) fs' \<and> (quiet fs \<longrightarrow> quiet fs')"

lemma sys_link_effect:
  assumes "temp_open fs0 tp n (out, fs)" and "is_temp output tp" and "sys_link tp output fs = (r, fs2)"
  shows "case r of
      Some err \<Rightarrow> temp_open fs0 tp n (out, fs2) \<and> (err = EEXIST \<and> entries fs2 output \<noteq> None \<or> err \<noteq> EEXIST \<and> \<not> quiet fs) \<and>
        (quiet fs \<longrightarrow> quiet fs2)
    | None \<Rightarrow> linked fs0 tp output n fs (remove_quietly tp fs2)"
proof -
  obtain failed fs1 where c: "syscall fs = (failed, fs1)" by fastforce
  note c' = syscall_arrived [OF c]
  have inv: "temp_open fs0 tp n (out, fs1)" using temp_open_arrived [OF assms(1)] c' by blast
  then have tp: "entries fs1 tp = Some (Own n)" "entries fs0 tp = None" "next_own fs0 \<le> n" "n < next_own fs1" and ext: "extends fs0 {(tp, n)} fs1"
    by (simp_all add: temp_open_def)
  have q1: "quiet fs \<Longrightarrow> quiet fs1" using quiet_call c' by blast
  show ?thesis
  proof (cases "failed \<or> entries fs1 output \<noteq> None")
    case True
    then show ?thesis
      using assms(3) inv c c' tp(1) q1 by (cases failed) (auto simp: sys_link_def)
  next
    case False
    then have r: "r = None" and fs2: "fs2 = fs1\<lparr>entries := (entries fs1)(output := entries fs1 tp)\<rparr>"
      using assms(3) c tp(1) by (auto simp: sys_link_def)
    have out0: "entries fs0 output = None" using ext False by (metis extends_def not_None_eq)
    have own: "contents fs1 (Own n) = contents fs (Own n)" "synced fs1 (Own n) = synced fs (Own n)"
      using arrived_own [of fs fs1] c' by auto
    have ext2: "extends fs0 {(tp, n), (output, n)} fs2" using ext out0 tp(1) by (auto simp: fs2 extends_def)
    have q2: "quiet fs \<Longrightarrow> quiet fs2" using q1 by (simp add: fs2 quiet_def)
    have ne: "output \<noteq> tp" using is_temp_ne [OF assms(2)] by simp
    have "extends fs0 (if quiet fs then {(output, n)} else {(tp, n), (output, n)}) (remove_quietly tp fs2)"
    proof (cases "quiet fs")
      case True
      have "{(p, k) \<in> {(tp, n), (output, n)}. p \<noteq> tp} = {(output, n)}" using ne by auto
      with remove_effect(2) [OF ext2 tp(2) q2 [OF True]] True show ?thesis by simp
    qed (use remove_effect(1) [OF ext2 tp(2)] in simp)
    then show ?thesis
      using r out0 tp own ne remove_effect(3) [OF ext2 tp(2), of "output" "Own n"] remove_effect(4, 5, 7, 8) [OF ext2 tp(2)] q2
      by (simp add: linked_def fs2)
  qed
qed

lemma linked_left_over:
  assumes "linked fs0 tp output n fs fs1" and "quiet fs0 \<Longrightarrow> quiet fs" and "is_temp output tp"
    and "extends fs0 (if quiet fs then {(output, n)} else {(tp, n), (output, n)}) fs'"
  shows "left_over fs0 output {(output, n)} fs'"
  using assms left_over_temp [of fs0 tp n "{(output, n)}" fs' "output"] by (auto intro: left_overI split: if_splits)

lemma temp_open_quiet: "temp_open fs0 tp n (out, fs) \<Longrightarrow> quiet fs0 \<Longrightarrow> quiet fs"
  using extends_quiet by (auto simp: temp_open_def)

lemma commit_temp_file_wp:
  assumes "temp_open fs0 tp n (out, fs)" and "contents fs (Own n) = d" and "synced fs (Own n) = Some d" and "is_temp output tp"
  shows "wp (commit_temp_file tp output)
    (\<lambda>_ fs'. committed fs0 output n d fs' \<and> durable fs' output = Some (Own n) \<and> left_over fs0 output {(output, n)} fs')
    (\<lambda>e fs'. temp_open fs0 tp n (out, fs') \<and>
         (e = Error invalid_input ''Output file already exists'' \<and> entries fs' output \<noteq> None \<or> code e = backend_failure \<and> \<not> quiet fs) \<or>
       committed fs0 output n d fs' \<and> extends fs0 {(tp, n), (output, n)} fs' \<and> code e = backend_failure \<and> \<not> quiet fs) fs"
proof -
  obtain r fs2 where link: "sys_link tp output fs = (r, fs2)" by fastforce
  note e = sys_link_effect [OF assms(1, 4) link]
  show ?thesis
  proof (cases r)
    case (Some err)
    with e link show ?thesis
      by (auto simp: commit_temp_file_def wp_def act_simps file_backend_failure_def)
  next
    case None
    let ?A = "if quiet fs then {(output, n)} else {(tp, n), (output, n)}"
    have l: "linked fs0 tp output n fs (remove_quietly tp fs2)" using e None by simp
    then have com: "committed fs0 output n d (remove_quietly tp fs2)" and ext: "extends fs0 ?A (remove_quietly tp fs2)"
      and q: "quiet fs \<Longrightarrow> quiet (remove_quietly tp fs2)"
      using assms(2, 3) by (simp_all add: linked_def committed_def)
    note left = linked_left_over [OF l temp_open_quiet [OF assms(1)] assms(4)]
    have "wp (flush_parent_directory output)
      (\<lambda>_ fs'. committed fs0 output n d fs' \<and> durable fs' output = Some (Own n) \<and> left_over fs0 output {(output, n)} fs')
      (\<lambda>e fs'. committed fs0 output n d fs' \<and> extends fs0 {(tp, n), (output, n)} fs' \<and> code e = backend_failure \<and> \<not> quiet fs)
      (remove_quietly tp fs2)"
      by (rule wp_conseq [OF flush_parent_directory_wp [OF com ext]])
        (use left q in \<open>auto split: if_splits\<close>)
    then show ?thesis
      unfolding commit_temp_file_def wp_bindM wp_call
      by (auto simp: link None wp_simps elim: wp_mono)
  qed
qed

section \<open>The input file and the check for the output\<close>

text \<open>A stream on a file: unless it is to fail, it delivers the content the file has.\<close>

definition reads_file :: "file_system \<Rightarrow> path \<Rightarrow> istream \<Rightarrow> bool" where
  "reads_file fs p i \<longleftrightarrow> good i \<and> (faulty i \<longrightarrow> (\<exists>t. stream_limit fs t \<noteq> None)) \<and>
     (\<forall>m. entries fs p = Some m \<and> known fs m \<and> \<not> faulty i \<longrightarrow> remaining i = contents fs m)"

lemma reads_file_ex: "\<exists>i. reads_file fs p i"
  by (rule exI [of _ "istream_of (case entries fs p of None \<Rightarrow> [] | Some m \<Rightarrow> contents fs m)"])
    (simp add: reads_file_def split: option.splits)

lemma open_input_wp:
  assumes "extends fs0 A fs"
  shows "wp (open_input p)
    (\<lambda>i fs'. arrived fs fs' \<and> reads_file fs0 p i)
    (\<lambda>e fs'. arrived fs fs' \<and> code e = backend_failure \<and> (quiet fs \<longrightarrow> entries fs0 p = None)) fs"
proof -
  obtain failed fs1 where c: "syscall fs = (failed, fs1)" by fastforce
  note c' = syscall_arrived [OF c]
  have ext: "extends fs0 A fs1" using extends_arrived [OF assms] c' by blast
  have faulty: "faulty (i\<lparr>faulty := True\<rparr>)" "good (i\<lparr>faulty := b\<rparr>) = good i" for i b by (simp_all add: good_def)
  show ?thesis
  proof (cases "entries fs1 p")
    case None
    then have "entries fs0 p = None" using ext by (metis extends_def not_None_eq)
    then show ?thesis
      using None c c' by (simp add: open_input_def wp_def act_simps ifstream_open_def file_backend_failure_def)
  next
    case (Some m)
    then have "entries fs0 p = Some m' \<Longrightarrow> known fs0 m' \<Longrightarrow> contents fs1 m = contents fs0 m' \<and> m = m'" for m'
      using ext unfolding extends_def by (elim conjE) (metis option.inject)
    moreover have "failed \<Longrightarrow> \<not> quiet fs" using c' by auto
    moreover have "stream_limit fs = stream_limit fs0" using assms by (simp add: extends_def)
    ultimately show ?thesis
      using Some c c' faulty
      by (auto simp: open_input_def wp_def act_simps ifstream_open_def file_backend_failure_def reads_file_def
          split: option.splits)
  qed
qed

lemma ensure_output_does_not_exist_wp:
  "wp (ensure_output_does_not_exist p)
    (\<lambda>_ fs'. arrived fs fs' \<and> entries fs' p = None)
    (\<lambda>e fs'. arrived fs fs' \<and> (code e = backend_failure \<and> \<not> quiet fs \<or>
       e = Error invalid_input ''Output file already exists'' \<and> entries fs' p \<noteq> None)) fs"
proof -
  obtain failed fs1 where c: "syscall fs = (failed, fs1)" by fastforce
  note c' = syscall_arrived [OF c]
  have "failed \<Longrightarrow> \<not> quiet fs" using c' by auto
  with c c' show ?thesis
    by (auto simp: ensure_output_does_not_exist_def wp_def act_simps fs_exists_def file_backend_failure_def)
qed

end
