(* ===== verification/File_Paths.thy ===== *)
theory File_Paths
  imports File_Io
begin

text \<open>
  \<^verbatim>\<open>src/file.cpp\<close>, the functions on paths: the file is written under a temporary
  name beside the output, flushed, closed, and linked to its name; a handler discards and
  removes it when anything throws. The state is the file system and the library's state.
\<close>

section \<open>Scopes\<close>

type_synonym 'w path_state = "file_system \<times> 'w"

text \<open>The object \<open>out\<close> lives for the computation \<open>m\<close> and is destroyed after it.\<close>

definition with_output ::
  "output_file \<Rightarrow> (error, (output_file \<times> file_system) \<times> 'w, 'a) act \<Rightarrow> (error, 'w path_state, 'a) act" where
  "with_output out m = (\<lambda>(fs, w). case m ((out, fs), w) of (r, (s', w')) \<Rightarrow> (r, (output_destroy s', w')))"

text \<open>The stream \<open>i\<close> lives for the computation \<open>m\<close>.\<close>

definition with_input :: "istream \<Rightarrow> (error, ('o, 'w) file_state, 'a) act \<Rightarrow> (error, 'o \<times> 'w, 'a) act" where
  "with_input i m = (\<lambda>(o1, w). case m (i, o1, w) of (r, (_, o2, w')) \<Rightarrow> (r, (o2, w')))"

text \<open>\<^verbatim>\<open>catch (...) { out.discard(); remove_quietly(temp_path); throw; }\<close>\<close>

definition discarding ::
  "path \<Rightarrow> (error, (output_file \<times> file_system) \<times> 'w, 'a) act \<Rightarrow> (error, (output_file \<times> file_system) \<times> 'w, 'a) act" where
  "discarding temp_path m =
     on_throw m (\<lambda>(s, w). (case output_discard s of (out, fs) \<Rightarrow> (out, remove_quietly temp_path fs), w))"

section \<open>The code\<close>

definition seal_file_payload ::
  "('w, 'c, 'd) openssl \<Rightarrow> path \<Rightarrow> path \<Rightarrow> bytes \<Rightarrow> bytes \<Rightarrow> key256 \<Rightarrow> bytes \<Rightarrow> (error, 'w path_state, unit) act" where
  "seal_file_payload ossl input output header prefix_bytes file_key aad =
     bindM (open_unique_temp_output ossl output) (\<lambda>out.
     let temp_path = opath out in
     with_output out (discarding temp_path
       (bindM (on_fst (on_snd (open_input input))) (\<lambda>in_stream.
        thenM (with_input in_stream (seal_stream_payload ossl write_all_file header prefix_bytes file_key aad))
       (thenM (on_fst output_flush)
       (thenM (on_fst output_close)
              (on_fst (on_snd (commit_temp_file temp_path output)))))))))"

definition seal_file ::
  "('w, 'c, 'd) openssl \<Rightarrow> path \<Rightarrow> path \<Rightarrow> key256 \<Rightarrow> bytes \<Rightarrow> (error, 'w path_state, unit) act" where
  "seal_file ossl input output key aad =
     thenM (on_fst (ensure_output_does_not_exist output))
    (bindM (on_snd (make_file_header ossl)) (\<lambda>header.
     bindM (on_snd (derive_file_key ossl key header)) (\<lambda>file_key.
     seal_file_payload ossl input output (serialized header) (nonce_prefix header) file_key aad)))"

definition open_file ::
  "('w, 'c, 'd) openssl \<Rightarrow> path \<Rightarrow> path \<Rightarrow> key256 \<Rightarrow> bytes \<Rightarrow> (error, 'w path_state, unit) act" where
  "open_file ossl input output key aad =
     thenM (on_fst (ensure_output_does_not_exist output))
    (bindM (open_unique_temp_output ossl output) (\<lambda>out.
     let temp_path = opath out in
     with_output out (discarding temp_path
       (bindM (on_fst (on_snd (open_input input))) (\<lambda>in_stream.
        thenM (with_input in_stream
         (bindM (on_input (read_or_reject kFileHeaderSize)) (\<lambda>header_data.
          bindM (lift_result (parse_file_header header_data)) (\<lambda>header.
          bindM (on_library (derive_file_key ossl key header)) (\<lambda>file_key.
          open_file_payload ossl write_all_file (serialized header) (nonce_prefix header) file_key aad)))))
       (thenM (on_fst output_flush)
       (thenM (on_fst output_close)
              (on_fst (on_snd (commit_temp_file temp_path output))))))))))"

definition seal_file_with_password ::
  "('w, 'c, 'd) openssl \<Rightarrow> path \<Rightarrow> path \<Rightarrow> bytes \<Rightarrow> bytes \<Rightarrow> (error, 'w path_state, unit) act" where
  "seal_file_with_password ossl input output password aad =
     thenM (require_non_empty_password password)
    (thenM (on_fst (ensure_output_does_not_exist output))
    (bindM (on_snd (make_password_header ossl)) (\<lambda>header.
     bindM (on_snd (derive_password_file_key ossl password header)) (\<lambda>file_key.
     seal_file_payload ossl input output (serialized header) (nonce_prefix header) file_key aad))))"

definition open_file_with_password ::
  "('w, 'c, 'd) openssl \<Rightarrow> path \<Rightarrow> path \<Rightarrow> bytes \<Rightarrow> bytes \<Rightarrow> (error, 'w path_state, unit) act" where
  "open_file_with_password ossl input output password aad =
     thenM (require_non_empty_password password)
    (thenM (on_fst (ensure_output_does_not_exist output))
    (bindM (open_unique_temp_output ossl output) (\<lambda>out.
     let temp_path = opath out in
     with_output out (discarding temp_path
       (bindM (on_fst (on_snd (open_input input))) (\<lambda>in_stream.
        thenM (with_input in_stream
         (bindM (on_input (read_or_reject kPasswordHeaderSize)) (\<lambda>header_data.
          bindM (lift_result (parse_password_header header_data)) (\<lambda>header.
          bindM (on_library (derive_password_file_key ossl password header)) (\<lambda>file_key.
          open_file_payload ossl write_all_file (serialized header) (nonce_prefix header) file_key aad)))))
       (thenM (on_fst output_flush)
       (thenM (on_fst output_close)
              (on_fst (on_snd (commit_temp_file temp_path output)))))))))))"

section \<open>Lemmas: publishing\<close>

text \<open>What the four have in common: \<open>m\<close> writes the file.\<close>

definition publish ::
  "('w, 'c, 'd) openssl \<Rightarrow> path \<Rightarrow> path \<Rightarrow> (error, (output_file \<times> file_system, 'w) file_state, unit) act \<Rightarrow>
   (error, 'w path_state, unit) act" where
  "publish ossl input output m =
     bindM (open_unique_temp_output ossl output) (\<lambda>out.
     let temp_path = opath out in
     with_output out (discarding temp_path
       (bindM (on_fst (on_snd (open_input input))) (\<lambda>in_stream.
        thenM (with_input in_stream m)
       (thenM (on_fst output_flush)
       (thenM (on_fst output_close)
              (on_fst (on_snd (commit_temp_file temp_path output)))))))))"

lemma wp_with_output [wp_simps]:
  "wp (with_output out m) Q E (fs, w) =
     wp m (\<lambda>a (s, w'). Q a (output_destroy s, w')) (\<lambda>e (s, w'). E e (output_destroy s, w')) ((out, fs), w)"
  by (auto simp: with_output_def wp_def split: prod.splits sum.splits)

lemma wp_with_input [wp_simps]:
  "wp (with_input i m) Q E (o1, w) =
     wp m (\<lambda>a (i', o2, w'). Q a (o2, w')) (\<lambda>e (i', o2, w'). E e (o2, w')) (i, o1, w)"
  by (auto simp: with_input_def wp_def split: prod.splits sum.splits)

lemma wp_discarding [wp_simps]:
  "wp (discarding tp m) Q E s =
     wp m Q (\<lambda>e (s, w). E e (case output_discard s of (out, fs) \<Rightarrow> (out, remove_quietly tp fs), w)) s"
  by (auto simp: discarding_def wp_def on_throw_def case_prod_beta split: prod.splits sum.splits)

lemma wp_conj: "wp m Q E s \<Longrightarrow> wp m Q' E' s \<Longrightarrow> wp m (\<lambda>a t. Q a t \<and> Q' a t) (\<lambda>e t. E e t \<and> E' e t) s"
  by (simp add: wp_iff)

lemma preserves_wp: "preserves I m \<Longrightarrow> I s \<Longrightarrow> wp m (\<lambda>_. I) (\<lambda>_. I) s"
  by (auto intro: wpI dest: preservesD)

definition clean_up :: "path \<Rightarrow> output_file \<times> file_system \<Rightarrow> file_system" where
  "clean_up tp s = output_destroy (case output_discard s of (out, fs) \<Rightarrow> (out, remove_quietly tp fs))"

lemma clean_up_temp:
  assumes "temp_open fs0 tp n s" and "is_temp output tp"
  shows "left_over fs0 output {} (clean_up tp s)"
    and "entries (snd s) output \<noteq> None \<Longrightarrow> entries (clean_up tp s) output \<noteq> None"
proof -
  obtain out fs where s: "s = (out, fs)" by fastforce
  obtain out' fs' where d: "close_quietly (out, fs) = (out', fs')" by fastforce
  have t: "temp_open fs0 tp n (out', fs')" "ofile out' = None"
    using close_quietly_temp_open [of fs0 tp n out fs] assms(1) d by (simp_all add: s)
  have c: "clean_up tp s = remove_quietly tp fs'"
    by (simp add: clean_up_def output_discard_def output_destroy_def s d) (simp add: close_quietly_def t(2))
  have ext: "extends fs0 {(tp, n)} fs'" "entries fs0 tp = None" using t(1) by (simp_all add: temp_open_def)
  show "left_over fs0 output {} (clean_up tp s)"
  proof (cases "quiet fs0")
    case True
    have "{(p, k) \<in> {(tp, n)}. p \<noteq> tp} = {}" by auto
    with remove_effect(2) [OF ext extends_quiet [OF ext(1) True]] show ?thesis
      unfolding c by (metis left_overI)
  next
    case False
    show ?thesis
      unfolding c by (rule left_over_temp [OF remove_effect(1) [OF ext] assms(2) False])
  qed
  assume "entries (snd s) output \<noteq> None"
  then obtain m where m: "entries fs output = Some m" by (auto simp: s)
  have "entries fs' output = Some m"
  proof (cases "ofile out")
    case (Some a)
    then obtain b buf where a: "a = (b, buf)" by (cases a)
    obtain flushed file1 where fl: "stdio_fflush (b, buf) fs = (flushed, file1, fs')"
      using d Some a by (auto simp: close_quietly_def stdio_fclose_def split: prod.splits)
    from stdio_fflush_effect [OF fl] obtain fs1 j where e: "arrived fs fs1"
      "fs' = fs1\<lparr>contents := (contents fs1)(Own b := contents fs (Own b) @ take j buf)\<rparr>" by blast
    then show ?thesis using arrived_entry [OF e(1) m] by simp
  qed (use d m in \<open>simp add: close_quietly_def\<close>)
  then have "entries (remove_quietly tp fs') output = Some m"
    using is_temp_ne [OF assms(2)] by (intro remove_effect(3) [OF ext]) auto
  then show "entries (clean_up tp s) output \<noteq> None" by (simp add: c)
qed

lemma clean_up_committed:
  assumes "committed fs0 output n d fs" and "extends fs0 {(tp, n), (output, n)} fs" and "ofile out = None"
    and "is_temp output tp" and "entries fs0 tp = None" and "\<not> quiet fs0"
  shows "committed fs0 output n d (clean_up tp (out, fs)) \<and> left_over fs0 output {(output, n)} (clean_up tp (out, fs))"
proof -
  have c: "clean_up tp (out, fs) = remove_quietly tp fs"
    using assms(3) by (simp add: clean_up_def output_discard_def output_destroy_def close_quietly_def)
  have "left_over fs0 output {(output, n)} (remove_quietly tp fs)"
    by (rule left_over_temp [OF remove_effect(1) [OF assms(2, 5)] assms(4, 6)])
  moreover have "committed fs0 output n d (remove_quietly tp fs)"
    using assms(1) remove_effect(3-5, 7) [OF assms(2, 5)] is_temp_ne [OF assms(4)] by (simp add: committed_def)
  ultimately show ?thesis by (simp add: c)
qed

text \<open>Failures of publishing; \<open>F\<close> are those of the computation that writes.\<close>

definition publish_fault ::
  "('w, 'c, 'd) openssl \<Rightarrow> file_system \<Rightarrow> path \<Rightarrow> path \<Rightarrow> (istream \<Rightarrow> bool \<Rightarrow> error \<Rightarrow> bool) \<Rightarrow> file_system \<Rightarrow> error \<Rightarrow> bool" where
  "publish_fault ossl fs0 input output F fs e \<longleftrightarrow>
     code e = backend_failure \<and> (temp_fault ossl fs0 output fs \<or> entries fs0 input = None) \<or>
     e = Error invalid_input ''Output file already exists'' \<and> entries fs output \<noteq> None \<or>
     (\<exists>i. reads_file fs0 input i \<and> F i (quiet fs0) e)"

text \<open>The result of publishing content that is in relation \<open>R\<close> to the input.\<close>

definition published :: "file_system \<Rightarrow> path \<Rightarrow> path \<Rightarrow> (istream \<Rightarrow> bytes \<Rightarrow> bool) \<Rightarrow> file_system \<Rightarrow> bool" where
  "published fs0 input output R fs \<longleftrightarrow>
     (\<exists>n d i. reads_file fs0 input i \<and> R i d \<and> committed fs0 output n d fs \<and> left_over fs0 output {(output, n)} fs)"

lemma finish_wp:
  assumes "temp_writing fs0 tp n (out, fs)" and "accepted_file (out, fs) = d" and "is_temp output tp"
  shows "wp (thenM (on_fst output_flush) (thenM (on_fst output_close) (on_fst (on_snd (commit_temp_file tp output)))))
    (\<lambda>_ ((out', fs'), w'). ofile out' = None \<and> committed fs0 output n d fs' \<and> durable fs' output = Some (Own n) \<and>
       left_over fs0 output {(output, n)} fs')
    (\<lambda>e ((out', fs'), w'). temp_open fs0 tp n (out', fs') \<and>
         (e = Error invalid_input ''Output file already exists'' \<and> entries fs' output \<noteq> None \<or> code e = backend_failure \<and> \<not> quiet fs) \<or>
       ofile out' = None \<and> committed fs0 output n d fs' \<and> extends fs0 {(tp, n), (output, n)} fs' \<and>
         code e = backend_failure \<and> \<not> quiet fs) ((out, fs), w)"
proof -
  have inv: "temp_open fs0 tp n (out, fs)" using assms(1) by (simp add: temp_writing_def)
  from assms(1) obtain a where a: "ofile out = Some a" by (auto simp: temp_writing_def)
  with inv have "fst a = n" by (cases a) (simp add: temp_open_def)
  with a obtain buf where fl: "ofile out = Some (n, buf)" by (cases a) simp
  have d: "contents fs (Own n) @ buf = d" using assms(2) fl by (simp add: accepted_file_def)
  show ?thesis
    unfolding wp_thenM wp_on_fst
  proof (rule wp_conseq [OF flush_wp [OF inv fl]], goal_cases)
    case (1 u s1)
    obtain out1 fs1 where s1: "s1 = (out1, fs1)" by fastforce
    from 1 have f: "temp_open fs0 tp n (out1, fs1)" "ofile out1 = Some (n, [])" "contents fs1 (Own n) = d"
      "synced fs1 (Own n) = Some d" "quiet fs \<longrightarrow> quiet fs1" by (simp_all add: s1 d)
    show ?case
      unfolding s1
    proof (rule wp_conseq [OF close_wp [OF f(1, 2)]], goal_cases)
      case (1 u s2)
      obtain out2 fs2 where s2: "s2 = (out2, fs2)" by fastforce
      from 1 f have c: "temp_open fs0 tp n (out2, fs2)" "ofile out2 = None" "contents fs2 (Own n) = d"
        "synced fs2 (Own n) = Some d" "quiet fs \<longrightarrow> quiet fs2" by (simp_all add: s2)
      show ?case
        unfolding s2 wp_on_snd
        by (rule wp_conseq [OF commit_temp_file_wp [OF c(1, 3, 4) assms(3)]]) (use c(2, 5) in auto)
    qed (use f in auto)
  qed auto
qed

lemma publish_clean_up:
  assumes "is_temp output tp" and "temp_open fs0 tp n s'" and "(\<exists>i. reads_file fs0 input i \<and> F i (quiet fs0) e) \<or>
      e = Error invalid_input ''Output file already exists'' \<and> entries (snd s') output \<noteq> None \<or>
      code e = backend_failure \<and> (\<not> quiet fs0 \<or> entries fs0 input = None)"
  shows "left_over fs0 output {} (clean_up tp s') \<and> publish_fault ossl fs0 input output F (clean_up tp s') e"
  using assms(3) clean_up_temp [OF assms(2, 1)] by (auto simp: publish_fault_def temp_fault_def)

text \<open>From the opened input on: the body, then the commit.\<close>

lemma publish_opened_wp:
  assumes t: "temp_open fs0 tp n (out, fs1)" "is_temp output tp" "ofile out = Some (n, [])" "contents fs1 (Own n) = []"
    and i: "reads_file fs0 input i" "good i" and a: "arrived fs1 fs2"
    and m_wp: "\<And>i o1 w. good i \<Longrightarrow> wp m
        (\<lambda>_ (i', o2, w'). (file_roomy o1 \<longrightarrow> file_roomy o2) \<and> (\<exists>d. accepted_file o2 = accepted_file o1 @ d \<and> R i d))
        (\<lambda>e _. F i (file_roomy o1) e) (i, o1, w)"
    and m_keeps: "\<And>tp n. preserves (\<lambda>(i, o1, w). temp_writing fs0 tp n o1) m"
    and F_room: "\<And>i e. F i True e \<Longrightarrow> F i False e"
  shows "wp (thenM (with_input i m)
        (thenM (on_fst output_flush) (thenM (on_fst output_close) (on_fst (on_snd (commit_temp_file tp output))))))
      (\<lambda>_ ((out', fs'), w'). ofile out' = None \<and> published fs0 input output R fs' \<and> durable fs' output = entries fs' output)
      (\<lambda>e (s', w'). left_over fs0 output {} (clean_up tp s') \<and> publish_fault ossl fs0 input output F (clean_up tp s') e \<or>
         published fs0 input output R (clean_up tp s') \<and> code e = backend_failure \<and> \<not> quiet fs0) ((out, fs2), w1)"
proof -
  have ext1: "extends fs0 {(tp, n)} fs1" and tp0: "entries fs0 tp = None" using t(1) by (simp_all add: temp_open_def)
  have q1: "quiet fs0 \<Longrightarrow> quiet fs1" using extends_quiet [OF ext1] .
  note bad = publish_clean_up [OF t(2), where F = F and ossl = ossl]
  have w2: "temp_writing fs0 tp n (out, fs2)" using temp_open_arrived [OF t(1) a] t(3) by (simp add: temp_writing_def)
  have acc: "accepted_file (out, fs2) = []" using t(3, 4) arrived_own(1) [OF a] by (simp add: accepted_file_def)
  have q2: "quiet fs0 \<Longrightarrow> file_roomy (out, fs2)" using q1 quiet_call [OF a] t(3) by (simp add: file_roomy_def)
  have keep: "wp m (\<lambda>_ (i', o1, w'). temp_writing fs0 tp n o1) (\<lambda>_ (i', o1, w'). temp_writing fs0 tp n o1) (i, (out, fs2), w1)"
    using preserves_wp [OF m_keeps [of tp n], where s = "(i, (out, fs2), w1)"] w2 by (simp add: case_prod_beta)
  show ?thesis
    unfolding wp_thenM [of "with_input i m"] wp_with_input
  proof (rule wp_conseq [OF wp_conj [OF m_wp [OF i(2)] keep]], goal_cases)
    case (2 e s)
    obtain i' o2 w2 where s: "s = (i', o2, w2)" by (metis prod_cases3)
    have "F i (quiet fs0) e" using 2 q2 F_room [of i e] by (cases "quiet fs0"; cases "file_roomy (out, fs2)") auto
    then show ?case using bad [of fs0 n o2 input e] 2 i(1) by (auto simp: s temp_writing_def)
  next
    case (1 u s)
    obtain i' out3 fs3 w3 where s: "s = (i', (out3, fs3), w3)" by (metis prod_cases4 surj_pair)
    from 1 obtain d where d: "accepted_file (out3, fs3) = d" "R i d" and w3: "temp_writing fs0 tp n (out3, fs3)"
      by (auto simp: s acc)
    have q3: "quiet fs0 \<Longrightarrow> quiet fs3" using w3 extends_quiet by (auto simp: temp_writing_def temp_open_def)
    show ?case
      unfolding s prod.case
    proof (rule wp_conseq [OF finish_wp [OF w3 d(1) t(2)]], goal_cases)
      case (1 u s')
      then show ?case using i(1) d(2) by (auto simp: published_def committed_def)
    next
      case (2 e s')
      obtain out4 fs4 w4 where s': "s' = ((out4, fs4), w4)" by (metis surj_pair)
      show ?case
      proof (cases "temp_open fs0 tp n (out4, fs4) \<and>
          (e = Error invalid_input ''Output file already exists'' \<and> entries fs4 output \<noteq> None \<or> code e = backend_failure \<and> \<not> quiet fs3)")
        case True
        then show ?thesis using bad [of fs0 n "(out4, fs4)" input e] q3 by (auto simp: s')
      next
        case False
        with 2 have c: "ofile out4 = None" "committed fs0 output n d fs4" "extends fs0 {(tp, n), (output, n)} fs4"
          "code e = backend_failure" "\<not> quiet fs3" by (auto simp: s')
        moreover have "\<not> quiet fs0" using c(5) q3 by blast
        ultimately show ?thesis
          using clean_up_committed [OF c(2, 3, 1) t(2) tp0] i(1) d(2) unfolding s' published_def by auto
      qed
    qed
  qed
qed

lemma publish_wp:
  assumes ext: "extends fs0 {} fs"
    and m_wp: "\<And>i o1 w. good i \<Longrightarrow> wp m
        (\<lambda>_ (i', o2, w'). (file_roomy o1 \<longrightarrow> file_roomy o2) \<and> (\<exists>d. accepted_file o2 = accepted_file o1 @ d \<and> R i d))
        (\<lambda>e _. F i (file_roomy o1) e) (i, o1, w)"
    and m_keeps: "\<And>tp n. preserves (\<lambda>(i, o1, w). temp_writing fs0 tp n o1) m"
    and F_room: "\<And>i e. F i True e \<Longrightarrow> F i False e"
  shows "wp (publish ossl input output m)
    (\<lambda>_ (fs', w'). published fs0 input output R fs' \<and> durable fs' output = entries fs' output)
    (\<lambda>e (fs', w'). left_over fs0 output {} fs' \<and> publish_fault ossl fs0 input output F fs' e \<or>
       published fs0 input output R fs' \<and> code e = backend_failure \<and> \<not> quiet fs0) (fs, w)"
  unfolding publish_def wp_bindM open_unique_temp_output_def
proof (rule wp_conseq [OF open_temp_attempts_wp [OF ext]], goal_cases)
  case (2 e s)
  then show ?case by (auto simp: publish_fault_def)
next
  case (1 out s)
  obtain fs1 w1 where s: "s = (fs1, w1)" by fastforce
  define tp where "tp = opath out"
  from 1 obtain n where t: "temp_open fs0 tp n (out, fs1)" "is_temp output tp" "ofile out = Some (n, [])" "contents fs1 (Own n) = []"
    by (auto simp: s tp_def)
  have ext1: "extends fs0 {(tp, n)} fs1" and tp0: "entries fs0 tp = None" using t(1) by (simp_all add: temp_open_def)
  have q1: "quiet fs0 \<Longrightarrow> quiet fs1" using extends_quiet [OF ext1] .
  note bad = publish_clean_up [OF t(2), where F = F and ossl = ossl]
  have "wp (bindM (on_fst (on_snd (open_input input))) (\<lambda>in_stream. thenM (with_input in_stream m)
        (thenM (on_fst output_flush) (thenM (on_fst output_close) (on_fst (on_snd (commit_temp_file tp output)))))))
      (\<lambda>_ ((out', fs'), w'). ofile out' = None \<and> published fs0 input output R fs' \<and> durable fs' output = entries fs' output)
      (\<lambda>e (s', w'). left_over fs0 output {} (clean_up tp s') \<and> publish_fault ossl fs0 input output F (clean_up tp s') e \<or>
         published fs0 input output R (clean_up tp s') \<and> code e = backend_failure \<and> \<not> quiet fs0) ((out, fs1), w1)"
    unfolding wp_bindM wp_on_fst wp_on_snd
  proof (rule wp_conseq [OF open_input_wp [OF ext1]], goal_cases)
    case (2 e fs2)
    then show ?case using bad [of fs0 n "(out, fs2)" input e] temp_open_arrived [OF t(1)] q1 by auto
  next
    case (1 i fs2)
    then show ?case by (intro publish_opened_wp [OF t _ _ _ m_wp m_keeps F_room]) (simp_all add: reads_file_def)
  qed
  then show ?case
    unfolding s Let_def wp_with_output wp_discarding tp_def [symmetric]
    by (rule wp_conseq) (auto simp: clean_up_def output_destroy_def close_quietly_def)
qed

section \<open>Lemmas: the four functions\<close>

lemma payload_fault_room: "payload_fault ossl view tg h aad rf True e \<Longrightarrow> payload_fault ossl view tg h aad rf False e"
  by (auto simp: payload_fault_def)

lemma faults_room:
  "seal_fault ossl view tg n aad i True e \<Longrightarrow> seal_fault ossl view tg n aad i False e"
  "open_file_fault ossl view tg n aad i True e \<Longrightarrow> open_file_fault ossl view tg n aad i False e"
  by (auto simp: seal_fault_def open_file_fault_def open_fault_def dest: payload_fault_room)

text \<open>The outcome of a function on paths: published and durable, or an error and nothing published, or an error after the commit.\<close>

definition path_outcome ::
  "('w, 'c, 'd) openssl \<Rightarrow> file_system \<Rightarrow> path \<Rightarrow> path \<Rightarrow> (istream \<Rightarrow> bytes \<Rightarrow> bool) \<Rightarrow> (istream \<Rightarrow> bool \<Rightarrow> error \<Rightarrow> bool) \<Rightarrow>
   error + unit \<Rightarrow> file_system \<Rightarrow> bool" where
  "path_outcome ossl fs input output R F r fs' =
     (case r of
        Inr _ \<Rightarrow> published fs input output R fs' \<and> durable fs' output = entries fs' output
      | Inl e \<Rightarrow> left_over fs output {} fs' \<and> publish_fault ossl fs input output F fs' e \<or>
          published fs input output R fs' \<and> code e = backend_failure \<and> \<not> quiet fs)"

abbreviation path_wp where
  "path_wp ossl fs0 input output R F m s \<equiv>
     wp m (\<lambda>u (fs', w'). path_outcome ossl fs0 input output R F (Inr u) fs')
          (\<lambda>e (fs', w'). path_outcome ossl fs0 input output R F (Inl e) fs') s"

lemma ensure_path_wp:
  assumes "\<And>fs w. extends fs0 {} fs \<Longrightarrow> path_wp ossl fs0 input output R F m (fs, w)"
  shows "path_wp ossl fs0 input output R F (thenM (on_fst (ensure_output_does_not_exist output)) m) (fs0, w)"
  unfolding wp_thenM wp_on_fst
proof (rule wp_conseq [OF ensure_output_does_not_exist_wp], goal_cases)
  case (1 u fs)
  then show ?case using assms [of fs w] extends_arrived [OF extends_refl] by blast
next
  case (2 e fs)
  then have "left_over fs0 output {} fs" by (blast intro: extends_arrived [OF extends_refl] left_overI)
  with 2 show ?case by (auto simp: path_outcome_def publish_fault_def temp_fault_def)
qed

lemma seal_file_payload_publish:
  "seal_file_payload ossl input output h pre k aad = publish ossl input output (seal_stream_payload ossl write_all_file h pre k aad)"
  by (simp add: seal_file_payload_def publish_def)

lemma seal_path_wp:
  assumes gcm: "gcm_documented ossl view ks tg"
    and mk: "\<And>v. wp mk (\<lambda>h _. length (serialized h) = n \<and> length (nonce_prefix h) = 8 \<and> parse (serialized h) = Inr h)
        (\<lambda>e _. code e = backend_failure \<and> \<not> rand_available ossl) v"
    and derive: "\<And>h v. wp (derive h) (\<lambda>fk _. fk = key_of h) (\<lambda>e _. code e = backend_failure \<and> \<not> kdf_available ossl) v"
    and key: "\<And>h. length (key_of h) = 32"
    and R: "R = (\<lambda>i d. \<not> faulty i \<and> is_sealed ks tg n parse key_of aad d (split_chunks 1048576 (remaining i)))"
  shows "path_wp ossl fs0 input output R (seal_fault ossl view tg n aad)
     (thenM (on_fst (ensure_output_does_not_exist output))
       (bindM (on_snd mk) (\<lambda>header. bindM (on_snd (derive header)) (\<lambda>file_key.
        seal_file_payload ossl input output (serialized header) (nonce_prefix header) file_key aad)))) (fs0, w)"
proof (rule ensure_path_wp, unfold wp_bindM wp_on_snd, rule wp_conseq [OF mk], goal_cases)
  case (2 fs w e w1)
  then show ?case by (auto simp: path_outcome_def publish_fault_def temp_fault_def intro: left_overI)
next
  case (1 fs w h w1)
  show ?case
  proof (rule wp_conseq [OF derive], goal_cases)
    case (2 e w2)
    then show ?case
      using reads_file_ex [of fs0 input] \<open>extends fs0 {} fs\<close>
      by (auto simp: path_outcome_def publish_fault_def seal_fault_def intro: left_overI)
  next
    case (1 fk w2)
    have h: "length (serialized h) = n" "length (nonce_prefix h) = 8" "parse (serialized h) = Inr h"
      using \<open>length (serialized h) = n \<and> _\<close> by simp_all
    show ?case
      unfolding 1 seal_file_payload_publish path_outcome_def sum.case
    proof (rule publish_wp [OF \<open>extends fs0 {} fs\<close>])
      fix i :: istream and o1 and w :: 'a assume i: "good i"
      show "wp (seal_stream_payload ossl write_all_file (serialized h) (nonce_prefix h) (key_of h) aad)
        (\<lambda>_ (i', o2, w'). (file_roomy o1 \<longrightarrow> file_roomy o2) \<and> (\<exists>d. accepted_file o2 = accepted_file o1 @ d \<and> R i d))
        (\<lambda>e _. seal_fault ossl view tg n aad i (file_roomy o1) e) (i, o1, w)"
        by (rule wp_conseq [OF file_sink.seal_header_wp [where parse = parse and key_of = key_of, OF gcm i h key]])
          (auto simp: R)
    qed (auto intro: preserves_seal_stream_payload preserves_write_all_file faults_room)
  qed
qed

lemma preserves_open_with:
  assumes "\<And>data. preserves I (put data)"
  shows "preserves (\<lambda>(i, o1, w). I o1) (open_with ossl put n parse derive aad)"
  unfolding open_with_def by (intro preserves_intros preserves_open_file_payload assms)

text \<open>The inputs that opening accepts when nothing fails.\<close>

definition openable ::
  "('w, 'c, 'd) openssl \<Rightarrow> ('c \<Rightarrow> gcm_view) \<Rightarrow> key_stream \<Rightarrow> gcm_tag \<Rightarrow> nat \<Rightarrow> (bytes \<Rightarrow> 'x file_header_scheme result) \<Rightarrow>
   ('x file_header_scheme \<Rightarrow> key256) \<Rightarrow> bytes \<Rightarrow> istream \<Rightarrow> bool" where
  "openable ossl view ks tg n parse key_of aad i \<longleftrightarrow>
     gcm_available ossl view tg \<and> kdf_available ossl \<and> \<not> faulty i \<and> n + 9 + length aad \<le> int_max \<and>
     (\<exists>chunks. is_sealed ks tg n parse key_of aad (remaining i) chunks)"

lemma open_path_wp:
  assumes gcm: "gcm_documented ossl view ks tg"
    and parse: "\<And>d h. length d = n \<Longrightarrow> parse d = Inr h \<Longrightarrow> serialized h = d \<and> length (nonce_prefix h) = 8"
    and parse_error: "\<And>d e. parse d = Inl e \<Longrightarrow> e = file_invalid_packet"
    and derive: "\<And>h v. wp (derive h) (\<lambda>fk _. fk = key_of h) (\<lambda>e _. code e = backend_failure \<and> \<not> kdf_available ossl) v"
    and key: "\<And>h. length (key_of h) = 32"
    and R: "R = (\<lambda>i d. \<not> faulty i \<and> (\<exists>chunks. is_sealed ks tg n parse key_of aad (remaining i) chunks \<and> d = concat chunks))"
    and F: "F = (\<lambda>i room e. open_file_fault ossl view tg n aad i room e \<and>
      (openable ossl view ks tg n parse key_of aad i \<longrightarrow> \<not> room))"
  shows "path_wp ossl fs0 input output R F
     (thenM (on_fst (ensure_output_does_not_exist output))
       (publish ossl input output (open_with ossl write_all_file n parse derive aad))) (fs0, w)"
proof (rule ensure_path_wp)
  fix fs and w :: 'a assume ext: "extends fs0 {} fs"
  show "path_wp ossl fs0 input output R F
      (publish ossl input output (open_with ossl write_all_file n parse derive aad)) (fs, w)"
    unfolding path_outcome_def sum.case
  proof (rule publish_wp [OF ext])
    fix i :: istream and o1 and w :: 'a assume i: "good i"
    have no_error: False if "openable ossl view ks tg n parse key_of aad i" "file_roomy o1"
      "open_with ossl write_all_file n parse derive aad (i, o1, w) = (Inl e, s)" for e s
    proof -
      from that(1) obtain chunks where c: "gcm_available ossl view tg" "kdf_available ossl" "\<not> faulty i"
        "n + 9 + length aad \<le> int_max" "is_sealed ks tg n parse key_of aad (remaining i) chunks"
        by (auto simp: openable_def)
      have d: "wp (derive h) (\<lambda>fk _. fk = key_of h) (\<lambda>_ _. False) v" for h v
        by (rule wp_conseq [OF derive]) (use c(2) in auto)
      from file_sink.open_with_complete [OF gcm c(1) i c(3) that(2) parse d key c(5, 4), of w] that(3)
      show False by auto
    qed
    have "wp (open_with ossl write_all_file n parse derive aad) (\<lambda>_ _. True)
        (\<lambda>_ _. openable ossl view ks tg n parse key_of aad i \<longrightarrow> \<not> file_roomy o1) (i, o1, w)"
      by (rule wpI) (use no_error in auto)
    note both = wp_conj [OF file_sink.open_with_wp [OF gcm i parse parse_error derive key] this]
    show "wp (open_with ossl write_all_file n parse derive aad)
      (\<lambda>_ (i', o2, w'). (file_roomy o1 \<longrightarrow> file_roomy o2) \<and> (\<exists>d. accepted_file o2 = accepted_file o1 @ d \<and> R i d))
      (\<lambda>e _. F i (file_roomy o1) e) (i, o1, w)"
      by (rule wp_conseq [OF both]) (auto simp: R F)
  qed (auto intro: preserves_open_with preserves_write_all_file faults_room simp: F)
qed

lemma path_functions:
  "open_file ossl input output key aad = thenM (on_fst (ensure_output_does_not_exist output))
     (publish ossl input output (open_with ossl write_all_file kFileHeaderSize parse_file_header (derive_file_key ossl key) aad))"
  "open_file_with_password ossl input output pw aad = thenM (require_non_empty_password pw)
     (thenM (on_fst (ensure_output_does_not_exist output))
     (publish ossl input output (open_with ossl write_all_file kPasswordHeaderSize parse_password_header (derive_password_file_key ossl pw) aad)))"
  by (simp_all add: open_file_def open_file_with_password_def publish_def open_with_def)

lemma thenM_require_password: "pw \<noteq> [] \<Longrightarrow> thenM (require_non_empty_password pw) m = m"
  by (rule ext) (simp add: require_password_apply)

text \<open>The relations between input and output of the four functions.\<close>

definition sealed_from :: "(bytes \<Rightarrow> bytes list \<Rightarrow> bool) \<Rightarrow> istream \<Rightarrow> bytes \<Rightarrow> bool" where
  "sealed_from is_file i d \<longleftrightarrow> \<not> faulty i \<and> is_file d (split_chunks 1048576 (remaining i))"

definition opened_from :: "(bytes \<Rightarrow> bytes list \<Rightarrow> bool) \<Rightarrow> istream \<Rightarrow> bytes \<Rightarrow> bool" where
  "opened_from is_file i d \<longleftrightarrow> \<not> faulty i \<and> (\<exists>chunks. is_file (remaining i) chunks \<and> d = concat chunks)"

definition open_path_fault ::
  "('w, 'c, 'd) openssl \<Rightarrow> ('c \<Rightarrow> gcm_view) \<Rightarrow> gcm_tag \<Rightarrow> nat \<Rightarrow> bytes \<Rightarrow> (bytes \<Rightarrow> bytes list \<Rightarrow> bool) \<Rightarrow> istream \<Rightarrow> bool \<Rightarrow> error \<Rightarrow> bool" where
  "open_path_fault ossl view tg n aad is_file i has_room e \<longleftrightarrow>
     open_file_fault ossl view tg n aad i has_room e \<and>
     (gcm_available ossl view tg \<and> kdf_available ossl \<and> \<not> faulty i \<and> n + 9 + length aad \<le> int_max \<and>
        (\<exists>chunks. is_file (remaining i) chunks) \<longrightarrow> \<not> has_room)"

lemma path_outcomes:
  assumes "gcm_documented ossl view ks tg" and "kdf_documented ossl kdf scrypt"
  shows "path_wp ossl fs input output (sealed_from (skf1_file ks tg kdf key aad)) (seal_fault ossl view tg kFileHeaderSize aad)
      (seal_file ossl input output key aad) (fs, w)"
    and "path_wp ossl fs input output (opened_from (skf1_file ks tg kdf key aad))
      (open_path_fault ossl view tg kFileHeaderSize aad (skf1_file ks tg kdf key aad))
      (open_file ossl input output key aad) (fs, w)"
    and "pw \<noteq> [] \<Longrightarrow> path_wp ossl fs input output (sealed_from (skp1_file ks tg scrypt pw aad)) (seal_fault ossl view tg kPasswordHeaderSize aad)
      (seal_file_with_password ossl input output pw aad) (fs, w)"
    and "pw \<noteq> [] \<Longrightarrow> path_wp ossl fs input output (opened_from (skp1_file ks tg scrypt pw aad))
      (open_path_fault ossl view tg kPasswordHeaderSize aad (skp1_file ks tg scrypt pw aad))
      (open_file_with_password ossl input output pw aad) (fs, w)"
proof -
  note R = sealed_from_def [abs_def] opened_from_def [abs_def] skf1_file_def skp1_file_def
  note F = open_path_fault_def [abs_def] openable_def skf1_file_def skp1_file_def
  show "path_wp ossl fs input output (sealed_from (skf1_file ks tg kdf key aad)) (seal_fault ossl view tg kFileHeaderSize aad)
      (seal_file ossl input output key aad) (fs, w)"
    unfolding seal_file_def
    by (rule seal_path_wp [OF assms(1) make_file_header_wp derive_file_key_doc [OF assms(2)] key_lengths(1) [OF assms(2)]])
      (simp only: R)
  show "path_wp ossl fs input output (opened_from (skf1_file ks tg kdf key aad))
      (open_path_fault ossl view tg kFileHeaderSize aad (skf1_file ks tg kdf key aad))
      (open_file ossl input output key aad) (fs, w)"
    unfolding path_functions
    by (rule open_path_wp [OF assms(1) parse_file_header_exact parse_file_header_Inl derive_file_key_doc [OF assms(2)]
          key_lengths(1) [OF assms(2)]]) (simp_all only: R F)
  assume pw: "pw \<noteq> []"
  show "path_wp ossl fs input output (sealed_from (skp1_file ks tg scrypt pw aad)) (seal_fault ossl view tg kPasswordHeaderSize aad)
      (seal_file_with_password ossl input output pw aad) (fs, w)"
    unfolding seal_file_with_password_def thenM_require_password [OF pw]
    by (rule seal_path_wp [OF assms(1) make_password_header_wp derive_password_file_key_doc' [OF assms(2) pw]
          key_lengths(2) [OF assms(2)]]) (simp only: R)
  show "path_wp ossl fs input output (opened_from (skp1_file ks tg scrypt pw aad))
      (open_path_fault ossl view tg kPasswordHeaderSize aad (skp1_file ks tg scrypt pw aad))
      (open_file_with_password ossl input output pw aad) (fs, w)"
    unfolding path_functions thenM_require_password [OF pw]
    by (rule open_path_wp [OF assms(1) parse_password_header_exact parse_password_header_Inl
          derive_password_file_key_doc' [OF assms(2) pw] key_lengths(2) [OF assms(2)]]) (simp_all only: R F)
qed

section \<open>Lemmas: outcomes\<close>

text \<open>\<open>output\<close> is a new file whose content satisfies \<open>P\<close>, and nothing else has changed.\<close>

definition published_as :: "file_system \<Rightarrow> path \<Rightarrow> (bytes \<Rightarrow> bool) \<Rightarrow> file_system \<Rightarrow> bool" where
  "published_as fs output P fs' \<longleftrightarrow>
     (\<exists>n d. committed fs output n d fs' \<and> left_over fs output {(output, n)} fs' \<and> P d)"

text \<open>The statement about a result that every function on paths satisfies.\<close>

definition atomic_result ::
  "file_system \<Rightarrow> path \<Rightarrow> (bytes \<Rightarrow> bool) \<Rightarrow> (error + unit) \<times> 'w path_state \<Rightarrow> bool" where
  "atomic_result fs output P res =
     (case res of
        (Inr _, (fs', _)) \<Rightarrow> published_as fs output P fs' \<and> durable fs' output = entries fs' output
      | (Inl e, (fs', _)) \<Rightarrow>
          left_over fs output {} fs' \<or> code e = backend_failure \<and> \<not> quiet fs \<and> published_as fs output P fs')"

lemma published_as_input:
  assumes "published fs input output R fs'" and "entries fs input = Some m" and "known fs m"
    and "\<And>i d. R i d \<Longrightarrow> \<not> faulty i \<and> (remaining i = contents fs m \<longrightarrow> P d)"
  shows "published_as fs output P fs'"
  using assms unfolding published_def published_as_def reads_file_def by blast

lemma atomic_outcome:
  assumes "path_wp ossl fs input output R F m (fs, w)" and "entries fs input = Some k" and "known fs k"
    and "\<And>i d. R i d \<Longrightarrow> \<not> faulty i \<and> (remaining i = contents fs k \<longrightarrow> P d)"
  shows "atomic_result fs output P (m (fs, w))"
proof -
  obtain r fs' w' where run: "m (fs, w) = (r, (fs', w'))" by (metis surj_pair)
  have "path_outcome ossl fs input output R F r fs'"
    using assms(1) run by (cases r) (auto simp: wp_def)
  then show ?thesis
    using published_as_input [where R = R and fs' = fs', OF _ assms(2-4)]
    by (cases r) (auto simp: atomic_result_def run path_outcome_def)
qed

lemma sealed_from_input:
  "sealed_from is_file i d \<Longrightarrow> \<not> faulty i \<and> (remaining i = c \<longrightarrow> is_file d (split_chunks 1048576 c))"
  by (auto simp: sealed_from_def)

lemma opened_from_input:
  "opened_from is_file i d \<Longrightarrow> \<not> faulty i \<and> (remaining i = c \<longrightarrow> (\<exists>chunks. is_file c chunks \<and> d = concat chunks))"
  by (auto simp: opened_from_def)

lemma refused_existing:
  assumes "entries fs output = Some m"
  shows "case thenM (on_fst (ensure_output_does_not_exist output)) body (fs, w) of
      (Inr _, _) \<Rightarrow> False
    | (Inl e, (fs', w')) \<Rightarrow>
        (code e = invalid_input \<or> code e = backend_failure \<and> \<not> quiet fs) \<and> extends fs {} fs' \<and> w' = w"
proof -
  have "wp (ensure_output_does_not_exist output) (\<lambda>_ _. False)
      (\<lambda>e fs'. (code e = invalid_input \<or> code e = backend_failure \<and> \<not> quiet fs) \<and> extends fs {} fs') fs"
    by (rule wp_conseq [OF ensure_output_does_not_exist_wp])
      (use assms arrived_entry extends_arrived [OF extends_refl] in \<open>fastforce+\<close>)
  then show ?thesis
    by (auto simp: wp_def thenM_def bindM_def on_fst_def split: prod.splits sum.splits)
qed

text \<open>The name \<open>p\<close> and its temporary names are free and no other program takes them.\<close>

definition undisturbed :: "file_system \<Rightarrow> path \<Rightarrow> bool" where
  "undisturbed fs p \<longleftrightarrow>
     (\<forall>q. q = p \<or> is_temp p q \<longrightarrow> entries fs q = None \<and> (\<forall>t b. (q, b) \<notin> set (others fs t)))"

lemma undisturbed_after:
  assumes "undisturbed fs p" and "extends fs A fs'" and "\<And>q k. (q, k) \<in> A \<Longrightarrow> q \<noteq> p \<and> \<not> is_temp p q"
  shows "undisturbed fs' p"
  unfolding undisturbed_def
proof (intro allI impI conjI)
  fix q t b assume q: "q = p \<or> is_temp p q"
  with assms(1) have free: "entries fs q = None" "\<forall>t b. (q, b) \<notin> set (others fs t)" by (auto simp: undisturbed_def)
  have "others fs' = others fs" using assms(2) by (simp add: extends_def)
  then show "(q, b) \<notin> set (others fs' t)" using free(2) by simp
  show "entries fs' q = None"
  proof (cases "entries fs' q")
    case (Some m)
    show ?thesis
    proof (cases m)
      case (Own k)
      then have "(q, k) \<in> A" using Some assms(2) free(1) unfolding extends_def by (metis option.distinct(1))
      then show ?thesis using assms(3) q by blast
    next
      case (Foreign k)
      then show ?thesis using Some assms(2) free unfolding extends_def by (metis option.distinct(1))
    qed
  qed simp
qed

text \<open>Nothing fails: the function returns.\<close>

lemma outcome_returns:
  assumes out: "path_wp ossl fs input output R F m (fs, w)"
    and "quiet fs" and "rand_available ossl" and "entries fs input = Some k" and "undisturbed fs output"
    and F: "\<And>i e. reads_file fs input i \<Longrightarrow> \<not> F i True e"
  shows "\<exists>fs' w'. m (fs, w) = (Inr (), (fs', w')) \<and> published fs input output R fs'"
proof -
  obtain r fs' w' where run: "m (fs, w) = (r, (fs', w'))" by (metis surj_pair)
  show ?thesis
  proof (cases r)
    case (Inl e)
    with out run assms(2) have left: "left_over fs output {} fs'" and fault: "publish_fault ossl fs input output F fs' e"
      by (auto simp: wp_def path_outcome_def)
    from left assms(2) have "extends fs {} fs'" by (auto simp: left_over_def)
    then have "undisturbed fs' output" by (rule undisturbed_after [OF assms(5)]) simp
    then have "entries fs' output = None" "is_temp output p \<Longrightarrow> entries fs' p = None" for p
      by (simp_all add: undisturbed_def)
    with fault have False using assms(2-4) F by (auto simp: publish_fault_def temp_fault_def)
    then show ?thesis ..
  next
    case (Inr u)
    then show ?thesis using out run by (auto simp: wp_def path_outcome_def)
  qed
qed

lemma published_after:
  assumes "published fs input output R fs'" and "quiet fs"
  obtains n d i where "reads_file fs input i" "R i d" "committed fs output n d fs'" "extends fs {(output, n)} fs'"
  using assms by (auto simp: published_def left_over_def)

text \<open>A concrete file system for the witnesses: one file, no faults, no other programs.\<close>

definition sample_fs :: file_system where
  "sample_fs =
     \<lparr>entries = [''in'' \<mapsto> Foreign 0], contents = (\<lambda>_. [1, 2, 3]), synced = (\<lambda>_. None), durable = (\<lambda>_. None),
      next_own = 0, next_foreign = 1, clock = 0, faults = (\<lambda>_. False), accepts = (\<lambda>_. 0), drains = (\<lambda>_. 0),
      stream_limit = (\<lambda>_. None), others = (\<lambda>_. [])\<rparr>"

lemma sample_fs_simps [simp]:
  "entries sample_fs ''in'' = Some (Foreign 0)" "known sample_fs (Foreign 0)" "contents sample_fs (Foreign 0) = [1, 2, 3]"
  "quiet sample_fs" "stream_limit sample_fs = (\<lambda>_. None)"
  by (simp_all add: sample_fs_def known_def quiet_def)

lemma sample_undisturbed: "length p = 1 \<Longrightarrow> undisturbed sample_fs p"
  by (auto simp: undisturbed_def sample_fs_def is_temp_def temp_suffix_def dest: arg_cong [where f = length])

text \<open>
  Where a temporary file stays behind although every removal would work:
  \<^verbatim>\<open>try_open_output_exclusive\<close> does not remove the file it created when
  \<^verbatim>\<open>fdopen\<close> fails (the second call, at tick 1).
\<close>

lemma fdopen_failure_leaves_file:
  "\<exists>e fs' w' p. open_unique_temp_output sample_ossl ''out'' (sample_fs\<lparr>faults := (\<lambda>t. t = 1)\<rparr>, 0) = (Inl e, (fs', w')) \<and>
     is_temp ''out'' p \<and> entries fs' p = Some (Own 0)"
proof -
  obtain token w1 where r: "random_bytes sample_ossl 16 0 = (Inr token, w1)"
    using random_bytes_available [OF sample_rand_available] by blast
  then have temp: "is_temp ''out'' (''out'' @ temp_suffix token)"
    using random_bytes_length [OF r] by (auto simp: is_temp_def)
  have "''out'' @ temp_suffix token \<noteq> ''in''" by (simp add: temp_suffix_def)
  then have step: "open_temp_attempts sample_ossl (Suc n) ''out'' (sample_fs\<lparr>faults := (\<lambda>t. t = 1)\<rparr>, 0) =
      (Inl (file_backend_failure ''File open failed''),
       (snd (sys_plain ((new_file (''out'' @ temp_suffix token) [] (Own 0)
          (sample_fs\<lparr>faults := (\<lambda>t. t = 1), clock := 1\<rparr>))\<lparr>next_own := 1, clock := 2\<rparr>)), w1))" for n
    by (simp add: act_simps make_unique_temp_path_def r try_open_output_exclusive_def sys_open_excl_def sys_plain_def
        syscall_def sample_fs_def new_file_def output_destroy_def close_quietly_def output_default_def)
  have "entries (snd (sys_plain ((new_file (''out'' @ temp_suffix token) [] (Own 0)
          (sample_fs\<lparr>faults := (\<lambda>t. t = 1), clock := 1\<rparr>))\<lparr>next_own := 1, clock := 2\<rparr>))) (''out'' @ temp_suffix token) = Some (Own 0)"
    by (simp add: sys_plain_def syscall_def sample_fs_def new_file_def)
  moreover have "(32 :: nat) = Suc 31" by simp
  ultimately show ?thesis
    unfolding open_unique_temp_output_def using temp step [of 31] by metis
qed

section \<open>Properties\<close>

text \<open>
  C3: Sealing to a path is atomic, whatever fails and whatever files other programs create
  meanwhile. If \<^verbatim>\<open>seal_file\<close> returns, the output is a new file, complete, synchronized
  to disk and with a durable name, that holds the sealed content of the input. If it throws,
  there is no output; the only exception is a failing synchronization of the directory after the
  output got its name, and then the output is complete too. Files that existed keep their names
  and their content in every case, and a temporary file stays behind only after a fault.
\<close>

theorem seal_file_atomic:
  "gcm_documented ossl view ks tg \<Longrightarrow> kdf_documented ossl kdf scrypt \<Longrightarrow> entries fs input = Some m \<Longrightarrow> known fs m \<Longrightarrow>
   atomic_result fs output (\<lambda>d. skf1_file ks tg kdf key aad d (split_chunks 1048576 (contents fs m)))
     (seal_file ossl input output key aad (fs, w))"
  by (rule atomic_outcome [OF path_outcomes(1)]) (auto dest: sealed_from_input)

theorem seal_file_atomic_witness:
  "atomic_result sample_fs ''out''
     (\<lambda>d. skf1_file sample_ks sample_tag sample_kdf (replicate 32 1) [5] d (split_chunks 1048576 [1, 2, 3]))
     (seal_file sample_ossl ''in'' ''out'' (replicate 32 1) [5] (sample_fs, 0))"
  using seal_file_atomic [OF sample_documented sample_kdf_documented, where fs = sample_fs and input = "''in''"
      and m = "Foreign 0" and key = "replicate 32 1" and aad = "[5]"]
  by (simp del: replicate.simps)

text \<open>
  C2: Opening to a path is atomic in the same sense, and only authenticated plaintext is ever
  published: an output appears only if the whole input file is one sealed file under this key and
  additional data, and then it holds all of its plaintext.
\<close>

theorem open_file_atomic:
  "gcm_documented ossl view ks tg \<Longrightarrow> kdf_documented ossl kdf scrypt \<Longrightarrow> entries fs input = Some m \<Longrightarrow> known fs m \<Longrightarrow>
   atomic_result fs output (\<lambda>d. \<exists>chunks. skf1_file ks tg kdf key aad (contents fs m) chunks \<and> d = concat chunks)
     (open_file ossl input output key aad (fs, w))"
  by (rule atomic_outcome [OF path_outcomes(2)]) (auto dest: opened_from_input)

theorem open_file_atomic_witness:
  "atomic_result sample_fs ''out''
     (\<lambda>d. \<exists>chunks. skf1_file sample_ks sample_tag sample_kdf (replicate 32 1) [5] [1, 2, 3] chunks \<and> d = concat chunks)
     (open_file sample_ossl ''in'' ''out'' (replicate 32 1) [5] (sample_fs, 0))"
  using open_file_atomic [OF sample_documented sample_kdf_documented, where fs = sample_fs and input = "''in''"
      and m = "Foreign 0" and key = "replicate 32 1" and aad = "[5]"]
  by (simp del: replicate.simps)

text \<open>C18: The same for the two functions with a password that is not empty.\<close>

theorem password_files_atomic:
  "gcm_documented ossl view ks tg \<Longrightarrow> kdf_documented ossl kdf scrypt \<Longrightarrow> entries fs input = Some m \<Longrightarrow> known fs m \<Longrightarrow> pw \<noteq> [] \<Longrightarrow>
   atomic_result fs output (\<lambda>d. skp1_file ks tg scrypt pw aad d (split_chunks 1048576 (contents fs m)))
     (seal_file_with_password ossl input output pw aad (fs, w)) \<and>
   atomic_result fs output (\<lambda>d. \<exists>chunks. skp1_file ks tg scrypt pw aad (contents fs m) chunks \<and> d = concat chunks)
     (open_file_with_password ossl input output pw aad (fs, w))"
  by (intro conjI; rule atomic_outcome [OF path_outcomes(3)] atomic_outcome [OF path_outcomes(4)])
    (auto dest: sealed_from_input opened_from_input)

theorem password_files_atomic_witness:
  "atomic_result sample_fs ''out''
     (\<lambda>d. skp1_file sample_ks sample_tag sample_scrypt [9] [5] d (split_chunks 1048576 [1, 2, 3]))
     (seal_file_with_password sample_ossl ''in'' ''out'' [9] [5] (sample_fs, 0))"
  using password_files_atomic [OF sample_documented sample_kdf_documented, where fs = sample_fs and input = "''in''"
      and m = "Foreign 0" and pw = "[9]" and aad = "[5]"]
  by simp

text \<open>
  C27: An output that exists is refused by all four functions, without drawing randomness, creating a file or
  touching one.
\<close>

theorem existing_output_refused:
  "entries fs output = Some m \<Longrightarrow>
   list_all (\<lambda>res. case res of
       (Inr _, _) \<Rightarrow> False
     | (Inl e, (fs', w')) \<Rightarrow>
         (code e = invalid_input \<or> code e = backend_failure \<and> \<not> quiet fs) \<and> extends fs {} fs' \<and> w' = w)
     [seal_file ossl input output key aad (fs, w), open_file ossl input output key aad (fs, w),
      seal_file_with_password ossl input output pw aad (fs, w), open_file_with_password ossl input output pw aad (fs, w)]"
  unfolding list.pred_inject seal_file_def path_functions seal_file_with_password_def require_password_apply
  by (cases "pw = []") (simp only: if_True if_False, intro conjI refused_existing; simp)+

theorem existing_output_refused_witness:
  "\<exists>e fs'. seal_file sample_ossl ''x'' ''in'' (replicate 32 1) [5] (sample_fs, 0) = (Inl e, (fs', 0)) \<and>
     code e = invalid_input \<and> extends sample_fs {} fs'"
  using existing_output_refused [where fs = sample_fs and ?output = "''in''" and m = "Foreign 0" and ossl = sample_ossl
      and input = "''x''" and key = "replicate 32 1" and aad = "[5]" and w = 0 and pw = "[]"]
  by (auto simp del: replicate.simps split: prod.splits sum.splits)

text \<open>
  C5: Sealing a file and opening the result gives a file with the same content: if no call fails, the
  cryptographic library works and the names are free, then both functions return, and the second
  output has the content of the first input.
\<close>

theorem open_seal_file:
  "gcm_documented ossl view ks tg \<Longrightarrow> gcm_available ossl view tg \<Longrightarrow> rand_available ossl \<Longrightarrow>
   kdf_documented ossl kdf scrypt \<Longrightarrow> kdf_available ossl \<Longrightarrow> kFileHeaderSize + 9 + length aad \<le> int_max \<Longrightarrow>
   quiet fs \<Longrightarrow> stream_limit fs = (\<lambda>_. None) \<Longrightarrow> entries fs input = Some m \<Longrightarrow> known fs m \<Longrightarrow>
   length (split_chunks 1048576 (contents fs m)) \<le> 2 ^ 32 \<Longrightarrow>
   undisturbed fs sealed \<Longrightarrow> undisturbed fs result \<Longrightarrow> sealed \<noteq> result \<Longrightarrow> \<not> is_temp result sealed \<Longrightarrow>
   \<exists>fs1 w1 fs2 w2 n.
     seal_file ossl input sealed key aad (fs, w) = (Inr (), (fs1, w1)) \<and>
     open_file ossl sealed result key aad (fs1, w1) = (Inr (), (fs2, w2)) \<and>
     entries fs2 result = Some n \<and> contents fs2 n = contents fs m"
proof (goal_cases)
  case 1
  have reads: "remaining i = contents fs m \<and> \<not> faulty i" if "reads_file fs input i" for i
    using that 1(8-10) by (auto simp: reads_file_def)
  have F1: "\<not> seal_fault ossl view tg kFileHeaderSize aad i True e" if "reads_file fs input i" for i e
    using no_seal_fault [OF 1(2, 3, 5) _ 1(6)] reads [OF that] 1(11) by simp
  from outcome_returns [OF path_outcomes(1) [OF 1(1, 4)] 1(7, 3, 9, 12) F1]
  obtain fs1 w1 where s: "seal_file ossl input sealed key aad (fs, w) = (Inr (), (fs1, w1))"
    and pub: "published fs input sealed (sealed_from (skf1_file ks tg kdf key aad)) fs1" by blast
  from published_after [OF pub 1(7)] obtain n d i where p: "reads_file fs input i"
    "sealed_from (skf1_file ks tg kdf key aad) i d" "committed fs sealed n d fs1" "extends fs {(sealed, n)} fs1" .
  have d: "skf1_file ks tg kdf key aad d (split_chunks 1048576 (contents fs m))"
    using p(2) reads [OF p(1)] by (simp add: sealed_from_def)
  have fs1: "entries fs1 sealed = Some (Own n)" "known fs1 (Own n)" "contents fs1 (Own n) = d"
    using p(3) by (simp_all add: committed_def known_def)
  have q1: "quiet fs1" and r1: "stream_limit fs1 = (\<lambda>_. None)"
    using extends_quiet [OF p(4) 1(7)] p(4) 1(8) by (simp_all add: extends_def)
  have u1: "undisturbed fs1 result"
    by (rule undisturbed_after [OF 1(13) p(4)]) (use 1(14, 15) in simp)
  have reads1: "remaining j = d \<and> \<not> faulty j" if "reads_file fs1 sealed j" for j
    using that fs1 r1 by (simp add: reads_file_def)
  have F2: "\<not> open_path_fault ossl view tg kFileHeaderSize aad (skf1_file ks tg kdf key aad) j True e"
    if "reads_file fs1 sealed j" for j e
    using reads1 [OF that] d 1(2, 5, 6) by (auto simp: open_path_fault_def)
  from outcome_returns [OF path_outcomes(2) [OF 1(1, 4)] q1 1(3) fs1(1) u1 F2]
  obtain fs2 w2 where o: "open_file ossl sealed result key aad (fs1, w1) = (Inr (), (fs2, w2))"
    and pub2: "published fs1 sealed result (opened_from (skf1_file ks tg kdf key aad)) fs2" by blast
  from published_after [OF pub2 q1] obtain n2 d2 j where p2: "reads_file fs1 sealed j"
    "opened_from (skf1_file ks tg kdf key aad) j d2" "committed fs1 result n2 d2 fs2" by metis
  then obtain chunks where c: "skf1_file ks tg kdf key aad d chunks" "d2 = concat chunks"
    using reads1 [OF p2(1)] by (auto simp: opened_from_def)
  have "concat chunks = contents fs m"
    using is_sealed_inject [OF 1(1) c(1) [unfolded skf1_file_def] d [unfolded skf1_file_def]] by simp
  then show ?case using s o p2(3) c(2) by (auto simp: committed_def)
qed

theorem open_seal_file_witness:
  "\<exists>fs1 w1 fs2 w2 n.
     seal_file sample_ossl ''in'' ''a'' (replicate 32 1) [5] (sample_fs, 0) = (Inr (), (fs1, w1)) \<and>
     open_file sample_ossl ''a'' ''b'' (replicate 32 1) [5] (fs1, w1) = (Inr (), (fs2, w2)) \<and>
     entries fs2 ''b'' = Some n \<and> contents fs2 n = [1, 2, 3]"
  using open_seal_file [OF sample_documented sample_available sample_rand_available sample_kdf_documented sample_kdf_available,
      where fs = sample_fs and input = "''in''" and m = "Foreign 0" and key = "replicate 32 1" and aad = "[5]"
        and sealed = "''a''" and result = "''b''" and w = 0]
  by (simp add: sample_undisturbed int_max_def split_chunks_last is_temp_def temp_suffix_def del: replicate.simps)

end
