(* ===== verification/Wiping_Files.thy ===== *)
theory Wiping_Files
  imports Wiping File_Paths
begin

text \<open>
  The calls of \<^verbatim>\<open>src/wipe.hpp\<close> in \<^verbatim>\<open>src/file_crypto.cpp\<close> and
  \<^verbatim>\<open>src/file.cpp\<close>: derived keys and decrypted chunks, with the record of what their storage holds
  when it is given back. The buffer that sealing reads its input into belongs to the input and is not part of the record.
\<close>

section \<open>Keys and chunks (file\_crypto.cpp, hash.cpp)\<close>

definition hkdf_sha256_mem ::
  "('w, 'c, 'd) openssl \<Rightarrow> bytes \<Rightarrow> bytes \<Rightarrow> bytes \<Rightarrow> nat \<Rightarrow> (error, 'w memory, bytes) act" where
  "hkdf_sha256_mem ossl key_material salt_bytes info output_size =
     (let zeros = replicate output_size 0 in
      if output_size = 0 then ret []
      else
        bindM (on_fst (call (EVP_KDF_fetch ossl ''HKDF''))) (\<lambda>kdf.
        if \<not> kdf then freeing zeros throw_hkdf_backend_failure else
        bindM (on_fst (call (EVP_KDF_CTX_new ossl))) (\<lambda>context.
        if \<not> context then freeing zeros throw_hkdf_backend_failure else
        bindM (on_fst (call (EVP_KDF_derive ossl output_size (hkdf_params key_material salt_bytes info)))) (\<lambda>(r, out).
        if r \<noteq> 1 then freeing (overwrite zeros out) throw_hkdf_backend_failure
        else ret (overwrite zeros out)))))"

definition derive_file_key_mem ::
  "('w, 'c, 'd) openssl \<Rightarrow> (bytes \<Rightarrow> bytes) \<Rightarrow> key256 \<Rightarrow> file_header \<Rightarrow> (error, 'w memory, key256) act" where
  "derive_file_key_mem ossl cleanse master_key header =
     bindM (hkdf_sha256_mem ossl master_key (salt header) (bytes_from_literal ''securekit file sealing v1'') 32) (\<lambda>okm.
     wipe_on_exit cleanse okm (ret (overwrite (replicate 32 0) (take 32 okm))))"

definition derive_password_file_key_mem ::
  "('w, 'c, 'd) openssl \<Rightarrow> (bytes \<Rightarrow> bytes) \<Rightarrow> bytes \<Rightarrow> password_file_header \<Rightarrow> (error, 'w memory, key256) act" where
  "derive_password_file_key_mem ossl cleanse password header =
     thenM (require_non_empty_password password)
    (bindM (on_fst (call (EVP_PBE_scrypt ossl password (salt header) (unat (scrypt_n header)) (unat (scrypt_r header))
              (unat (scrypt_p header)) kScryptMaxMemory 32))) (\<lambda>(r, out).
     let file_key = overwrite (replicate 32 0) out in
     thenM (on_throw (throw_if (r \<noteq> 1) (file_backend_failure ''OpenSSL scrypt operation failed''))
              (free (secure_wipe cleanse file_key)))
           (ret file_key)))"

text \<open>
  The plaintext buffer is zero until the update; every throw gives it back, and the throw after the final
  call wipes it before.
\<close>

definition decrypt_chunk_context_mem ::
  "('w, 'c, 'd) openssl \<Rightarrow> (bytes \<Rightarrow> bytes) \<Rightarrow> bytes \<Rightarrow> int \<Rightarrow> bytes \<Rightarrow> key256 \<Rightarrow> bytes \<Rightarrow> bytes \<Rightarrow>
   (error, 'c memory, bytes) act" where
  "decrypt_chunk_context_mem ossl cleanse ciphertext ciphertext_size tag file_key nonce aad =
     (let zeros = replicate (length ciphertext) 0 in
     bindM (on_fst (and_then (EVP_DecryptInit_cipher ossl)
           (and_then (EVP_CTRL_GCM_SET_IVLEN ossl (length nonce))
           (and_then (EVP_DecryptInit_key ossl file_key nonce) (ret True))))) (\<lambda>initialized.
     thenM (freeing zeros (throw_if (\<not> initialized) file_aead_failure))
    (thenM (freeing zeros (on_fst (file_update_aad ossl aad)))
    (bindM (on_fst (if ciphertext_size > 0 then call (EVP_DecryptUpdate ossl ciphertext) else ret (1, [], 0)))
       (\<lambda>(r, out, plaintext_size).
     let updated = overwrite zeros out in
     thenM (freeing updated (throw_if (r \<noteq> 1) file_aead_failure))
    (bindM (on_fst (call (EVP_CTRL_GCM_SET_TAG ossl (overwrite (replicate kFileTagSize 0) tag)))) (\<lambda>r.
     thenM (freeing updated (throw_if (r \<noteq> 1) file_aead_failure))
    (bindM (on_fst (call (EVP_DecryptFinal_ex ossl))) (\<lambda>(r, final_out, final_size).
     let plaintext = copy_at (nat plaintext_size) final_out updated in
     thenM (on_throw (throw_if (r \<noteq> 1) file_authentication_failed) (free (secure_wipe cleanse plaintext)))
    (thenM (freeing plaintext (throw_if (plaintext_size + final_size \<noteq> ciphertext_size) file_aead_failure))
     (ret plaintext)))))))))))"

definition decrypt_chunk_mem ::
  "('w, 'c, 'd) openssl \<Rightarrow> (bytes \<Rightarrow> bytes) \<Rightarrow> bytes \<Rightarrow> bytes \<Rightarrow> key256 \<Rightarrow> bytes \<Rightarrow> bytes \<Rightarrow> (error, 'w memory, bytes) act" where
  "decrypt_chunk_mem ossl cleanse ciphertext tag file_key nonce aad =
     bindM (on_fst (int_size (length ciphertext) ''ciphertext'')) (\<lambda>ciphertext_size.
     bindM (freeing (replicate (length ciphertext) 0) (on_fst (make_file_context ossl))) (\<lambda>context.
     (\<lambda>(w, freed).
        case decrypt_chunk_context_mem ossl cleanse ciphertext ciphertext_size tag file_key nonce aad (context, freed) of
          (r, (_, freed')) \<Rightarrow> (r, (w, freed')))))"

section \<open>Opening and sealing (file.cpp)\<close>

text \<open>The library's state inside the state of a function on files.\<close>

definition on_library_mem :: "(error, 'w memory, 'a) act \<Rightarrow> (error, ('o, 'w) file_state memory, 'a) act" where
  "on_library_mem m = (\<lambda>((i, o1, w), freed). case m (w, freed) of (r, (w', freed')) \<Rightarrow> (r, ((i, o1, w'), freed')))"

definition on_snd_mem :: "(error, 'w memory, 'a) act \<Rightarrow> (error, ('s \<times> 'w) memory, 'a) act" where
  "on_snd_mem m = (\<lambda>((s, w), freed). case m (w, freed) of (r, (w', freed')) \<Rightarrow> (r, ((s, w'), freed')))"

definition open_step_mem ::
  "('w, 'c, 'd) openssl \<Rightarrow> (bytes \<Rightarrow> bytes) \<Rightarrow> (bytes \<Rightarrow> (error, 'o, unit) act) \<Rightarrow> bytes \<Rightarrow> bytes \<Rightarrow> key256 \<Rightarrow> bytes \<Rightarrow> u32 \<Rightarrow>
   (error, ('o, 'w) file_state memory, bool) act" where
  "open_step_mem ossl cleanse write_all header prefix_bytes file_key aad expected_index =
     bindM (on_fst (on_input (read_or_reject kRecordHeaderSize))) (\<lambda>header_data.
     bindM (lift_result (parse_record_header header_data)) (\<lambda>rec.
     thenM (throw_if (index rec \<noteq> expected_index) file_invalid_packet)
    (thenM (throw_if (final_flag rec = kNotFinal \<and> plaintext_size rec \<noteq> kChunkSize) file_invalid_packet)
    (bindM (on_fst (on_input (read_or_reject (unat (plaintext_size rec))))) (\<lambda>ciphertext.
     bindM (on_fst (on_input (read_or_reject kFileTagSize))) (\<lambda>tag.
     thenM (on_fst (if final_flag rec = kFinal then on_input reject_trailing_data else ret ()))
    (let nonce = make_nonce prefix_bytes (index rec);
         chunk_aad = make_chunk_aad header rec aad in
     bindM (on_library_mem (decrypt_chunk_mem ossl cleanse ciphertext tag file_key nonce chunk_aad)) (\<lambda>plaintext.
     wipe_on_exit cleanse plaintext
       (thenM (on_fst (on_output (write_all plaintext)))
              (ret (final_flag rec = kFinal)))))))))))"

function open_loop_mem ::
  "('w, 'c, 'd) openssl \<Rightarrow> (bytes \<Rightarrow> bytes) \<Rightarrow> (bytes \<Rightarrow> (error, 'o, unit) act) \<Rightarrow> bytes \<Rightarrow> bytes \<Rightarrow> key256 \<Rightarrow> bytes \<Rightarrow> u32 \<Rightarrow>
   (error, ('o, 'w) file_state memory, unit) act" where
  "open_loop_mem ossl cleanse write_all header prefix_bytes file_key aad expected_index s =
     (case open_step_mem ossl cleanse write_all header prefix_bytes file_key aad expected_index s of
        (Inl e, s') \<Rightarrow> (Inl e, s')
      | (Inr saw_final, s') \<Rightarrow>
          if expected_index = - 1 \<and> \<not> saw_final then (Inl file_invalid_packet, s')
          else if saw_final then (Inr (), s')
          else open_loop_mem ossl cleanse write_all header prefix_bytes file_key aad (expected_index + 1) s')"
  by pat_completeness auto
termination
  by (relation "measure (\<lambda>(_, _, _, _, _, _, _, i, _). 2 ^ 32 - unat i)")
    (auto intro!: loop_index_decreases [simplified])

declare open_loop_mem.simps [simp del]

definition open_file_payload_mem ::
  "('w, 'c, 'd) openssl \<Rightarrow> (bytes \<Rightarrow> bytes) \<Rightarrow> (bytes \<Rightarrow> (error, 'o, unit) act) \<Rightarrow> bytes \<Rightarrow> bytes \<Rightarrow> key256 \<Rightarrow> bytes \<Rightarrow>
   (error, ('o, 'w) file_state memory, unit) act" where
  "open_file_payload_mem ossl cleanse write_all header prefix_bytes file_key aad =
     open_loop_mem ossl cleanse write_all header prefix_bytes file_key aad 0"

text \<open>The functions on streams.\<close>

definition seal_file_stream_mem ::
  "('w, 'c, 'd) openssl \<Rightarrow> (bytes \<Rightarrow> bytes) \<Rightarrow> key256 \<Rightarrow> bytes \<Rightarrow> (error, (ostream, 'w) file_state memory, unit) act" where
  "seal_file_stream_mem ossl cleanse key aad =
     bindM (on_fst (on_library (make_file_header ossl))) (\<lambda>header.
     bindM (on_library_mem (derive_file_key_mem ossl cleanse key header)) (\<lambda>file_key.
     wipe_on_exit cleanse file_key
       (on_fst (seal_stream_payload ossl write_all_stream (serialized header) (nonce_prefix header) file_key aad))))"

definition open_file_stream_mem ::
  "('w, 'c, 'd) openssl \<Rightarrow> (bytes \<Rightarrow> bytes) \<Rightarrow> key256 \<Rightarrow> bytes \<Rightarrow> (error, (ostream, 'w) file_state memory, unit) act" where
  "open_file_stream_mem ossl cleanse key aad =
     bindM (on_fst (on_input (read_or_reject kFileHeaderSize))) (\<lambda>header_data.
     bindM (lift_result (parse_file_header header_data)) (\<lambda>header.
     bindM (on_library_mem (derive_file_key_mem ossl cleanse key header)) (\<lambda>file_key.
     wipe_on_exit cleanse file_key
       (open_file_payload_mem ossl cleanse write_all_stream (serialized header) (nonce_prefix header) file_key aad))))"

definition seal_password_stream_mem ::
  "('w, 'c, 'd) openssl \<Rightarrow> (bytes \<Rightarrow> bytes) \<Rightarrow> bytes \<Rightarrow> bytes \<Rightarrow> (error, (ostream, 'w) file_state memory, unit) act" where
  "seal_password_stream_mem ossl cleanse password aad =
     thenM (require_non_empty_password password)
    (bindM (on_fst (on_library (make_password_header ossl))) (\<lambda>header.
     bindM (on_library_mem (derive_password_file_key_mem ossl cleanse password header)) (\<lambda>file_key.
     wipe_on_exit cleanse file_key
       (on_fst (seal_stream_payload ossl write_all_stream (serialized header) (nonce_prefix header) file_key aad)))))"

definition open_password_stream_mem ::
  "('w, 'c, 'd) openssl \<Rightarrow> (bytes \<Rightarrow> bytes) \<Rightarrow> bytes \<Rightarrow> bytes \<Rightarrow> (error, (ostream, 'w) file_state memory, unit) act" where
  "open_password_stream_mem ossl cleanse password aad =
     thenM (require_non_empty_password password)
    (bindM (on_fst (on_input (read_or_reject kPasswordHeaderSize))) (\<lambda>header_data.
     bindM (lift_result (parse_password_header header_data)) (\<lambda>header.
     bindM (on_library_mem (derive_password_file_key_mem ossl cleanse password header)) (\<lambda>file_key.
     wipe_on_exit cleanse file_key
       (open_file_payload_mem ossl cleanse write_all_stream (serialized header) (nonce_prefix header) file_key aad)))))"

text \<open>The functions on paths: the scopes of the output and the input, and the handler.\<close>

definition with_output_mem ::
  "output_file \<Rightarrow> (error, ((output_file \<times> file_system) \<times> 'w) memory, 'a) act \<Rightarrow> (error, 'w path_state memory, 'a) act" where
  "with_output_mem out m = (\<lambda>((fs, w), freed).
     case m (((out, fs), w), freed) of (r, ((s', w'), freed')) \<Rightarrow> (r, ((output_destroy s', w'), freed')))"

definition with_input_mem ::
  "istream \<Rightarrow> (error, ('o, 'w) file_state memory, 'a) act \<Rightarrow> (error, ('o \<times> 'w) memory, 'a) act" where
  "with_input_mem i m = (\<lambda>((o1, w), freed).
     case m ((i, o1, w), freed) of (r, ((_, o2, w'), freed')) \<Rightarrow> (r, ((o2, w'), freed')))"

definition discarding_mem ::
  "path \<Rightarrow> (error, ((output_file \<times> file_system) \<times> 'w) memory, 'a) act \<Rightarrow>
   (error, ((output_file \<times> file_system) \<times> 'w) memory, 'a) act" where
  "discarding_mem temp_path m =
     on_throw m (\<lambda>((s, w), freed). ((case output_discard s of (out, fs) \<Rightarrow> (out, remove_quietly temp_path fs), w), freed))"

definition seal_file_mem ::
  "('w, 'c, 'd) openssl \<Rightarrow> (bytes \<Rightarrow> bytes) \<Rightarrow> path \<Rightarrow> path \<Rightarrow> key256 \<Rightarrow> bytes \<Rightarrow> (error, 'w path_state memory, unit) act" where
  "seal_file_mem ossl cleanse input output key aad =
     thenM (on_fst (on_fst (ensure_output_does_not_exist output)))
    (bindM (on_fst (on_snd (make_file_header ossl))) (\<lambda>header.
     bindM (on_snd_mem (derive_file_key_mem ossl cleanse key header)) (\<lambda>file_key.
     wipe_on_exit cleanse file_key
       (on_fst (seal_file_payload ossl input output (serialized header) (nonce_prefix header) file_key aad)))))"

definition open_file_mem ::
  "('w, 'c, 'd) openssl \<Rightarrow> (bytes \<Rightarrow> bytes) \<Rightarrow> path \<Rightarrow> path \<Rightarrow> key256 \<Rightarrow> bytes \<Rightarrow> (error, 'w path_state memory, unit) act" where
  "open_file_mem ossl cleanse input output key aad =
     thenM (on_fst (on_fst (ensure_output_does_not_exist output)))
    (bindM (on_fst (open_unique_temp_output ossl output)) (\<lambda>out.
     let temp_path = opath out in
     with_output_mem out (discarding_mem temp_path
       (bindM (on_fst (on_fst (on_snd (open_input input)))) (\<lambda>in_stream.
        with_input_mem in_stream
         (bindM (on_fst (on_input (read_or_reject kFileHeaderSize))) (\<lambda>header_data.
          bindM (lift_result (parse_file_header header_data)) (\<lambda>header.
          bindM (on_library_mem (derive_file_key_mem ossl cleanse key header)) (\<lambda>file_key.
          wipe_on_exit cleanse file_key
            (thenM (open_file_payload_mem ossl cleanse write_all_file (serialized header) (nonce_prefix header) file_key aad)
            (thenM (on_fst (on_output output_flush))
            (thenM (on_fst (on_output output_close))
                   (on_fst (on_output (on_snd (commit_temp_file temp_path output))))))))))))))))"

definition seal_file_with_password_mem ::
  "('w, 'c, 'd) openssl \<Rightarrow> (bytes \<Rightarrow> bytes) \<Rightarrow> path \<Rightarrow> path \<Rightarrow> bytes \<Rightarrow> bytes \<Rightarrow> (error, 'w path_state memory, unit) act" where
  "seal_file_with_password_mem ossl cleanse input output password aad =
     thenM (require_non_empty_password password)
    (thenM (on_fst (on_fst (ensure_output_does_not_exist output)))
    (bindM (on_fst (on_snd (make_password_header ossl))) (\<lambda>header.
     bindM (on_snd_mem (derive_password_file_key_mem ossl cleanse password header)) (\<lambda>file_key.
     wipe_on_exit cleanse file_key
       (on_fst (seal_file_payload ossl input output (serialized header) (nonce_prefix header) file_key aad))))))"

definition open_file_with_password_mem ::
  "('w, 'c, 'd) openssl \<Rightarrow> (bytes \<Rightarrow> bytes) \<Rightarrow> path \<Rightarrow> path \<Rightarrow> bytes \<Rightarrow> bytes \<Rightarrow> (error, 'w path_state memory, unit) act" where
  "open_file_with_password_mem ossl cleanse input output password aad =
     thenM (require_non_empty_password password)
    (thenM (on_fst (on_fst (ensure_output_does_not_exist output)))
    (bindM (on_fst (open_unique_temp_output ossl output)) (\<lambda>out.
     let temp_path = opath out in
     with_output_mem out (discarding_mem temp_path
       (bindM (on_fst (on_fst (on_snd (open_input input)))) (\<lambda>in_stream.
        with_input_mem in_stream
         (bindM (on_fst (on_input (read_or_reject kPasswordHeaderSize))) (\<lambda>header_data.
          bindM (lift_result (parse_password_header header_data)) (\<lambda>header.
          bindM (on_library_mem (derive_password_file_key_mem ossl cleanse password header)) (\<lambda>file_key.
          wipe_on_exit cleanse file_key
            (thenM (open_file_payload_mem ossl cleanse write_all_file (serialized header) (nonce_prefix header) file_key aad)
            (thenM (on_fst (on_output output_flush))
            (thenM (on_fst (on_output output_close))
                   (on_fst (on_output (on_snd (commit_temp_file temp_path output)))))))))))))))))"

section \<open>Lemmas: keys and chunks\<close>

text \<open>The errors after which storage may hold secrets: an OpenSSL call other than the tag check has failed.\<close>

definition file_untidy :: "error \<Rightarrow> bool" where
  "file_untidy e \<longleftrightarrow> e = file_aead_failure \<or> e = Error backend_failure ''OpenSSL HKDF-SHA-256 operation failed''"

lemma tidy_checks [tidy_intros]: "tidy E (require_non_empty_password password) (require_non_empty_password password)"
  unfolding require_non_empty_password_def by (rule tidy_throw_if)

lemma tidy_freeing_throw_if [tidy_intros]: "E e \<Longrightarrow> tidy E (freeing b (throw_if c e)) (throw_if c e)"
  by (intro tidy_freeing tidy_throw_if) (auto simp: throw_if_def)

lemma tidy_freeing_zeros [tidy_intros]: "tidy E m' m \<Longrightarrow> tidy E (freeing (replicate n 0) m') m"
  by (rule tidy_freeing) simp_all

lemma tidy_on_throw_wiped [tidy_intros]:
  "cleanse_documented cleanse \<Longrightarrow> tidy E m' m \<Longrightarrow> tidy E (on_throw m' (free (secure_wipe cleanse b))) m"
  by (rule tidy_wipe_on_throw)

lemma file_untidyI [tidy_intros]: "file_untidy file_aead_failure"
  by (simp add: file_untidy_def)

lemma tidy_hkdf_failure [tidy_intros]: "tidy E throw_hkdf_backend_failure throw_hkdf_backend_failure"
  unfolding throw_hkdf_backend_failure_def by (rule tidy_throw)

lemma tidy_hkdf [tidy_intros]: "tidy file_untidy (hkdf_sha256_mem ossl k salt_bytes info n) (hkdf_sha256 ossl k salt_bytes info n)"
proof -
  have t: "tidy file_untidy (freeing b throw_hkdf_backend_failure) throw_hkdf_backend_failure" for b :: bytes
    unfolding throw_hkdf_backend_failure_def by (intro tidy_freeing tidy_throw) (simp add: file_untidy_def)
  show ?thesis
    unfolding hkdf_sha256_mem_def hkdf_sha256_def Let_def
    by (intro tidy_intros) (auto intro!: t tidy_intros)
qed

lemma tidy_keys [tidy_intros]:
  assumes "cleanse_documented cleanse"
  shows "tidy file_untidy (derive_file_key_mem ossl cleanse key header) (derive_file_key ossl key header)"
    and "tidy file_untidy (derive_password_file_key_mem ossl cleanse pw pheader) (derive_password_file_key ossl pw pheader)"
proof -
  show "tidy file_untidy (derive_file_key_mem ossl cleanse key header) (derive_file_key ossl key header)"
    unfolding derive_file_key_mem_def derive_file_key_def by (intro tidy_intros assms)
  show "tidy file_untidy (derive_password_file_key_mem ossl cleanse pw pheader) (derive_password_file_key ossl pw pheader)"
    unfolding derive_password_file_key_mem_def derive_password_file_key_def Let_def
    by (intro tidy_intros) (auto intro!: tidy_intros assms)
qed

text \<open>A computation inside a larger state: \<open>get\<close> finds its state there, \<open>put\<close> puts back what it leaves.\<close>

lemma tidy_scope:
  assumes m: "tidy E m' m"
    and n': "\<And>s freed. n' (s, freed) = (case m' (get s, freed) of (r, (t, freed')) \<Rightarrow> (r, (put s t, freed')))"
    and n: "\<And>s. n s = (case m (get s) of (r, t) \<Rightarrow> (r, put s t))"
  shows "tidy E n' n"
proof (rule tidyI)
  fix s freed r t
  assume run: "n s = (r, t)"
  obtain r1 t1 new where "m (get s) = (r1, t1)" "m' (get s, freed) = (r1, (t1, freed @ new))"
    "(\<exists>e. r1 = Inl e \<and> E e) \<or> (\<forall>b \<in> set new. wiped b)" by (rule tidyE [OF m])
  then show "\<exists>new. n' (s, freed) = (r, (t, freed @ new)) \<and> ((\<exists>e. r = Inl e \<and> E e) \<or> (\<forall>b \<in> set new. wiped b))"
    using run by (intro exI [of _ new]) (simp add: n n')
qed

lemma tidy_scopes [tidy_intros]:
  "tidy E m' m \<Longrightarrow> tidy E (on_library_mem m') (on_library m)"
  "tidy E k' k \<Longrightarrow> tidy E (on_snd_mem k') (on_snd k)"
  "tidy E p' p \<Longrightarrow> tidy E (with_output_mem out p') (with_output out p)"
  "tidy E q' q \<Longrightarrow> tidy E (with_input_mem i q') (with_input i q)"
proof -
  show "tidy E m' m \<Longrightarrow> tidy E (on_library_mem m') (on_library m)"
    by (rule tidy_scope [where get = "\<lambda>(i, o1, w). w" and put = "\<lambda>(i, o1, w) w'. (i, o1, w')"])
      (auto simp: on_library_mem_def on_library_def on_snd_def split: prod.splits)
  show "tidy E k' k \<Longrightarrow> tidy E (on_snd_mem k') (on_snd k)"
    by (rule tidy_scope [where get = snd and put = "\<lambda>(s, w) w'. (s, w')"])
      (auto simp: on_snd_mem_def on_snd_def split: prod.splits)
  show "tidy E p' p \<Longrightarrow> tidy E (with_output_mem out p') (with_output out p)"
    by (rule tidy_scope [where get = "\<lambda>(fs, w). ((out, fs), w)" and put = "\<lambda>_ (s', w'). (output_destroy s', w')"])
      (auto simp: with_output_mem_def with_output_def split: prod.splits)
  show "tidy E q' q \<Longrightarrow> tidy E (with_input_mem i q') (with_input i q)"
    by (rule tidy_scope [where get = "\<lambda>(o1, w). (i, o1, w)" and put = "\<lambda>_ (_, o2, w'). (o2, w')"])
      (auto simp: with_input_mem_def with_input_def split: prod.splits)
qed

lemma tidy_on_throw:
  assumes m: "tidy E m' m"
  shows "tidy E (on_throw m' (\<lambda>(s, freed). (h s, freed))) (on_throw m h)"
proof (rule tidyI)
  fix s freed r t
  assume run: "on_throw m h s = (r, t)"
  obtain r1 t1 new where "m s = (r1, t1)" "m' (s, freed) = (r1, (t1, freed @ new))"
    "(\<exists>e. r1 = Inl e \<and> E e) \<or> (\<forall>b \<in> set new. wiped b)" by (rule tidyE [OF m])
  then show "\<exists>new. on_throw m' (\<lambda>(s, freed). (h s, freed)) (s, freed) = (r, (t, freed @ new)) \<and>
      ((\<exists>e. r = Inl e \<and> E e) \<or> (\<forall>b \<in> set new. wiped b))"
    using run by (intro exI [of _ new]) (auto simp: on_throw_def split: sum.splits)
qed

lemma tidy_discarding [tidy_intros]: "tidy E m' m \<Longrightarrow> tidy E (discarding_mem tp m') (discarding tp m)"
  using tidy_on_throw [of E m' m "\<lambda>(s, w). (case output_discard s of (out, fs) \<Rightarrow> (out, remove_quietly tp fs), w)"]
  by (simp add: discarding_mem_def discarding_def case_prod_unfold)

lemma tidy_decrypt_chunk_context:
  assumes "cleanse_documented cleanse"
  shows "tidy file_untidy (decrypt_chunk_context_mem ossl cleanse ct n tag k nonce aad) (decrypt_chunk_context ossl ct n tag k nonce aad)"
  unfolding decrypt_chunk_context_mem_def decrypt_chunk_context_def Let_def
  by (intro tidy_intros) (auto intro!: tidy_intros assms)

lemma tidy_decrypt_chunk [tidy_intros]:
  assumes "cleanse_documented cleanse"
  shows "tidy file_untidy (decrypt_chunk_mem ossl cleanse ct tag k nonce aad) (decrypt_chunk ossl ct tag k nonce aad)"
proof -
  have "tidy file_untidy
      (\<lambda>(w, freed). case decrypt_chunk_context_mem ossl cleanse ct n tag k nonce aad (c, freed) of (r, (_, freed')) \<Rightarrow> (r, (w, freed')))
      (lift_result (fst (decrypt_chunk_context ossl ct n tag k nonce aad c)))" for n c
    by (rule tidy_scope [OF tidy_decrypt_chunk_context [OF assms], where get = "\<lambda>_. c" and put = "\<lambda>s _. s"])
      (auto split: prod.splits)
  then show ?thesis
    unfolding decrypt_chunk_mem_def decrypt_chunk_def by (intro tidy_intros)
qed

section \<open>Lemmas: files\<close>

lemma tidy_open_step [tidy_intros]:
  assumes "cleanse_documented cleanse"
  shows "tidy file_untidy (open_step_mem ossl cleanse put header pre k aad idx) (open_step ossl put header pre k aad idx)"
  unfolding open_step_mem_def open_step_def Let_def by (intro tidy_intros assms)

lemma tidy_open_loop [tidy_intros]:
  assumes "cleanse_documented cleanse"
  shows "tidy file_untidy (open_loop_mem ossl cleanse put header pre k aad idx) (open_loop ossl put header pre k aad idx)"
proof (induction "2 ^ 32 - unat idx" arbitrary: idx rule: less_induct)
  case less
  have loop: "open_loop ossl put header pre k aad idx = bindM (open_step ossl put header pre k aad idx) (\<lambda>fin.
      if idx = - 1 \<and> \<not> fin then throw file_invalid_packet
      else if fin then ret () else open_loop ossl put header pre k aad (idx + 1))"
    by (rule ext, subst open_loop.simps) (auto simp: bindM_def split: prod.split sum.split)
  have loop': "open_loop_mem ossl cleanse put header pre k aad idx = bindM (open_step_mem ossl cleanse put header pre k aad idx) (\<lambda>fin.
      if idx = - 1 \<and> \<not> fin then throw file_invalid_packet
      else if fin then ret () else open_loop_mem ossl cleanse put header pre k aad (idx + 1))"
    by (rule ext, subst open_loop_mem.simps) (auto simp: bindM_def split: prod.split sum.split)
  show ?case
    unfolding loop loop'
    by (intro tidy_bindM tidy_if tidy_open_step assms tidy_throw tidy_ret less loop_index_decreases) auto
qed

lemma tidy_open_payload [tidy_intros]:
  "cleanse_documented cleanse \<Longrightarrow>
     tidy file_untidy (open_file_payload_mem ossl cleanse put header pre k aad) (open_file_payload ossl put header pre k aad)"
  unfolding open_file_payload_mem_def open_file_payload_def by (rule tidy_open_loop)

text \<open>
  \<open>open_file\<close> ends the scopes of the input and of the key before the flush, which makes no difference to
  what it does; the code ends them after the commit.
\<close>

lemma thenM_on_fst: "thenM (on_fst m) (on_fst n) = on_fst (thenM m n)"
  by (rule ext) (auto simp: thenM_def bindM_def on_fst_def split: prod.splits sum.splits)

lemma thenM_with_input: "thenM (with_input i m) (on_fst n) = with_input i (thenM m (on_output n))"
  by (rule ext) (auto simp: thenM_def bindM_def on_fst_def on_snd_def on_output_def with_input_def split: prod.splits sum.splits)

lemma thenM_on_output: "on_output (thenM m n) = thenM (on_output m) (on_output n)"
  by (rule ext) (auto simp: thenM_def bindM_def on_fst_def on_snd_def on_output_def split: prod.splits sum.splits)

lemma thenM_bindM: "thenM (bindM m f) n = bindM m (\<lambda>a. thenM (f a) n)"
  by (rule ext) (auto simp: thenM_def bindM_def split: prod.splits sum.splits)

lemmas open_file_scopes =
  open_file_def [unfolded thenM_on_fst thenM_with_input thenM_bindM thenM_on_output]
  open_file_with_password_def [unfolded thenM_on_fst thenM_with_input thenM_bindM thenM_on_output]

section \<open>Properties\<close>

text \<open>
  C16: The storage of secrets, for files. The eight functions with the record of what is given back do what
  the functions do, on every stream and every file system. Unless an OpenSSL call other than the check of a tag has
  failed, every derived key and every chunk of recovered plaintext they have given back was overwritten with
  zeros before: when they return, when the input is malformed or not authentic, and when reading or writing fails.
\<close>

theorem files_wiped:
  assumes "cleanse_documented cleanse"
  shows "tidy file_untidy (seal_file_stream_mem ossl cleanse key aad) (seal_file_stream ossl key aad) \<and>
    tidy file_untidy (open_file_stream_mem ossl cleanse key aad) (open_file_stream ossl key aad) \<and>
    tidy file_untidy (seal_password_stream_mem ossl cleanse pw aad) (seal_password_stream ossl pw aad) \<and>
    tidy file_untidy (open_password_stream_mem ossl cleanse pw aad) (open_password_stream ossl pw aad) \<and>
    tidy file_untidy (seal_file_mem ossl cleanse input p key aad) (seal_file ossl input p key aad) \<and>
    tidy file_untidy (open_file_mem ossl cleanse input p key aad) (open_file ossl input p key aad) \<and>
    tidy file_untidy (seal_file_with_password_mem ossl cleanse input p pw aad) (seal_file_with_password ossl input p pw aad) \<and>
    tidy file_untidy (open_file_with_password_mem ossl cleanse input p pw aad) (open_file_with_password ossl input p pw aad)"
  unfolding seal_file_stream_mem_def seal_file_stream_def open_file_stream_mem_def open_file_stream_def
    seal_password_stream_mem_def seal_password_stream_def open_password_stream_mem_def open_password_stream_def
    seal_file_mem_def seal_file_def open_file_mem_def seal_file_with_password_mem_def
    seal_file_with_password_def open_file_with_password_mem_def open_file_scopes Let_def
  by (intro conjI tidy_intros assms)

theorem files_wiped_witness:
  "tidy file_untidy (open_file_stream_mem sample_ossl (\<lambda>b. replicate (length b) 0) (replicate 32 1) [5])
     (open_file_stream sample_ossl (replicate 32 1) [5])"
  using files_wiped [of "\<lambda>b. replicate (length b) 0" sample_ossl "replicate 32 1" "[5]"]
  by (simp add: cleanse_documented_def del: replicate.simps)

end
