(* ===== verification/File_Platforms.thy ===== *)
theory File_Platforms
  imports File_Paths
begin

text \<open>
  \<^verbatim>\<open>src/file_io.cpp\<close>, the branches that the other theories leave out: exclusive creation, the flush
  and the commit on Windows, and the flush and the commit on platforms that are neither Windows nor Unix.
\<close>

section \<open>Calls\<close>

datatype win_error = ERROR_ALREADY_EXISTS | ERROR_FILE_EXISTS | other_win_error

text \<open>
  \<^verbatim>\<open>MoveFileExW(old, new, MOVEFILE_WRITE_THROUGH)\<close>: \<open>None\<close> for success. Without
  \<^verbatim>\<open>MOVEFILE_REPLACE_EXISTING\<close> an existing target is an error; with write-through the entry is on disk
  when the call returns.
\<close>

definition sys_move :: "path \<Rightarrow> path \<Rightarrow> file_system \<Rightarrow> win_error option \<times> file_system" where
  "sys_move old new fs =
     (case syscall fs of (failed, fs1) \<Rightarrow>
        if failed \<or> entries fs1 old = None then (Some other_win_error, fs1)
        else if entries fs1 new \<noteq> None then (Some ERROR_ALREADY_EXISTS, fs1)
        else (None, fs1\<lparr>entries := (entries fs1)(old := None, new := entries fs1 old),
                       durable := (durable fs1)(old := None, new := entries fs1 old)\<rparr>))"

text \<open>\<^verbatim>\<open>std::filesystem::rename\<close> with an error code: an existing target is replaced.\<close>

definition fs_rename :: "path \<Rightarrow> path \<Rightarrow> file_system \<Rightarrow> bool \<times> file_system" where
  "fs_rename old new fs =
     (case syscall fs of (failed, fs1) \<Rightarrow>
        if failed \<or> entries fs1 old = None then (False, fs1)
        else (True, fs1\<lparr>entries := (entries fs1)(old := None, new := entries fs1 old)\<rparr>))"

section \<open>The code\<close>

text \<open>\<^verbatim>\<open>_wsopen_s\<close> with \<^verbatim>\<open>_O_CREAT | _O_EXCL\<close> returns the error number itself.\<close>

definition try_open_output_exclusive_windows ::
  "path \<Rightarrow> output_file \<times> file_system \<Rightarrow> ExclusiveOpenResult \<times> output_file \<times> file_system" where
  "try_open_output_exclusive_windows p = (\<lambda>(output, fs).
     case sys_open_excl p fs of
       (Inl result, fs1) \<Rightarrow>
         (if result = EEXIST then (already_exists, output, fs1) else (open_failed, output, fs1))
     | (Inr fd, fs1) \<Rightarrow>
         (case sys_plain fs1 of (file_made, fs2) \<Rightarrow>
            if \<not> file_made then (open_failed, output, snd (sys_plain fs2))
            else (opened, output_assign (output_open p (fd, [])) (output, fs2))))"

text \<open>
  \<^verbatim>\<open>_get_osfhandle\<close> succeeds or not; \<^verbatim>\<open>FlushFileBuffers\<close> does what
  \<^verbatim>\<open>fsync\<close> does elsewhere.
\<close>

definition output_flush_windows :: "(error, output_file \<times> file_system, unit) act" where
  "output_flush_windows = (\<lambda>(out, fs).
     case ofile out of
       None \<Rightarrow> (Inr (), (out, fs))
     | Some file \<Rightarrow>
         (case stdio_fflush file fs of (flushed, file', fs1) \<Rightarrow>
            if \<not> flushed
            then (Inl (file_backend_failure ''File write failed''), (out\<lparr>ofile := Some file'\<rparr>, fs1))
            else
              (case sys_plain fs1 of (os_handle, fs2) \<Rightarrow>
                 if \<not> os_handle
                 then (Inl (file_backend_failure ''File write failed''), (out\<lparr>ofile := Some file'\<rparr>, fs2))
                 else
                   (case sys_fsync (fst file') fs2 of (flushed_buffers, fs3) \<Rightarrow>
                      (if \<not> flushed_buffers then Inl (file_backend_failure ''File write failed'') else Inr (),
                       (out\<lparr>ofile := Some file'\<rparr>, fs3))))))"

definition output_flush_portable :: "(error, output_file \<times> file_system, unit) act" where
  "output_flush_portable = (\<lambda>(out, fs).
     case ofile out of
       None \<Rightarrow> (Inr (), (out, fs))
     | Some file \<Rightarrow>
         (case stdio_fflush file fs of (flushed, file', fs1) \<Rightarrow>
            (if \<not> flushed then Inl (file_backend_failure ''File write failed'') else Inr (),
             (out\<lparr>ofile := Some file'\<rparr>, fs1))))"

definition commit_temp_file_windows :: "path \<Rightarrow> path \<Rightarrow> (error, file_system, unit) act" where
  "commit_temp_file_windows temp_path output =
     bindM (call (sys_move temp_path output)) (\<lambda>r.
     case r of
       None \<Rightarrow> ret ()
     | Some err \<Rightarrow>
         thenM (throw_if (err = ERROR_ALREADY_EXISTS \<or> err = ERROR_FILE_EXISTS)
                 (Error invalid_input ''Output file already exists''))
               (throw (file_backend_failure ''File rename failed'')))"

definition commit_temp_file_portable :: "path \<Rightarrow> path \<Rightarrow> (error, file_system, unit) act" where
  "commit_temp_file_portable temp_path output =
     bindM (call (fs_exists output)) (\<lambda>r.
     case r of
       None \<Rightarrow> throw (file_backend_failure ''File status check failed'')
     | Some exists \<Rightarrow>
         thenM (throw_if exists (Error invalid_input ''Output file already exists''))
        (bindM (call (fs_rename temp_path output)) (\<lambda>renamed.
         throw_if (\<not> renamed) (file_backend_failure ''File rename failed''))))"

text \<open>How \<^verbatim>\<open>file.cpp\<close> publishes a temporary file: flush, close, commit.\<close>

definition finish_windows :: "path \<Rightarrow> path \<Rightarrow> (error, output_file \<times> file_system, unit) act" where
  "finish_windows temp_path output =
     thenM output_flush_windows (thenM output_close (on_snd (commit_temp_file_windows temp_path output)))"

definition finish_portable :: "path \<Rightarrow> path \<Rightarrow> (error, output_file \<times> file_system, unit) act" where
  "finish_portable temp_path output =
     thenM output_flush_portable (thenM output_close (on_snd (commit_temp_file_portable temp_path output)))"

section \<open>Lemmas\<close>

lemma try_open_windows: "try_open_output_exclusive_windows p s = try_open_output_exclusive p s"
  by (auto simp: try_open_output_exclusive_windows_def try_open_output_exclusive_def split: prod.splits sum.splits)

text \<open>
  What other programs have is kept between two states: an entry of a file of theirs is still that file, with its
  content, and a file they have created meanwhile is still where they created it. \<open>extends\<close> says nothing of
  the second.
\<close>

definition others_kept :: "file_system \<Rightarrow> file_system \<Rightarrow> bool" where
  "others_kept fs fs' \<longleftrightarrow>
     next_foreign fs \<le> next_foreign fs' \<and> others fs' = others fs \<and>
     (\<forall>q k. entries fs q = Some (Foreign k) \<longrightarrow> entries fs' q = Some (Foreign k)) \<and>
     (\<forall>k < next_foreign fs. contents fs' (Foreign k) = contents fs (Foreign k)) \<and>
     (\<forall>k. next_foreign fs \<le> k \<and> k < next_foreign fs' \<longrightarrow>
        (\<exists>q t. entries fs' q = Some (Foreign k) \<and> (q, contents fs' (Foreign k)) \<in> set (others fs t)))"

lemma others_kept_refl [simp]: "others_kept fs fs"
  by (auto simp: others_kept_def)

lemma others_kept_trans:
  assumes a: "others_kept fs fs1" and b: "others_kept fs1 fs2"
  shows "others_kept fs fs2"
proof -
  have "\<exists>q t. entries fs2 q = Some (Foreign k) \<and> (q, contents fs2 (Foreign k)) \<in> set (others fs t)"
    if k: "next_foreign fs \<le> k" "k < next_foreign fs2" for k
  proof (cases "k < next_foreign fs1")
    case True
    then obtain q t where "entries fs1 q = Some (Foreign k)" "(q, contents fs1 (Foreign k)) \<in> set (others fs t)"
      using a k(1) unfolding others_kept_def by blast
    then show ?thesis using b True unfolding others_kept_def by metis
  next
    case False
    then show ?thesis using a b k(2) unfolding others_kept_def by (metis not_less)
  qed
  then show ?thesis using a b unfolding others_kept_def by (elim conjE) (intro conjI allI impI; simp)
qed

text \<open>A change of this program's own files and entries only.\<close>

lemma others_kept_own:
  assumes "others_kept fs fs1" and "next_foreign fs2 = next_foreign fs1" and "others fs2 = others fs1"
    and "\<And>q k. entries fs1 q = Some (Foreign k) \<Longrightarrow> entries fs2 q = Some (Foreign k)"
    and "\<And>k. contents fs2 (Foreign k) = contents fs1 (Foreign k)"
  shows "others_kept fs fs2"
  by (rule others_kept_trans [OF assms(1)]) (use assms(2-5) in \<open>auto simp: others_kept_def\<close>)

lemma arrive_others_kept: "\<exists>t. pb \<in> set (others fs t) \<Longrightarrow> others_kept fs (arrive pb fs)"
  by (cases pb) (auto simp: others_kept_def arrive_def new_file_def less_Suc_eq)

lemma fold_arrive_others_kept: "\<forall>pb \<in> set pbs. \<exists>t. pb \<in> set (others fs t) \<Longrightarrow> others_kept fs (fold arrive pbs fs)"
proof (induction pbs arbitrary: fs)
  case (Cons pb pbs)
  then have "others_kept fs (arrive pb fs)" "others_kept (arrive pb fs) (fold arrive pbs (arrive pb fs))"
    by (auto intro: arrive_others_kept)
  then show ?case using others_kept_trans by simp
qed simp

lemma syscall_others_kept: "syscall fs = (failed, fs1) \<Longrightarrow> others_kept fs fs1"
proof -
  have "others_kept fs (fold arrive (others fs (clock fs)) fs)" by (rule fold_arrive_others_kept) auto
  then show "syscall fs = (failed, fs1) \<Longrightarrow> ?thesis" by (auto simp: syscall_def intro: others_kept_own)
qed

text \<open>The calls that do not touch entries.\<close>

lemma calls_others_kept:
  "stdio_fflush file fs = (ok, file', fs1) \<Longrightarrow> others_kept fs fs1"
  "stdio_fclose file fs = (ok, fs1) \<Longrightarrow> others_kept fs fs1"
  "sys_plain fs = (ok, fs1) \<Longrightarrow> others_kept fs fs1"
  "sys_fsync n fs = (ok, fs1) \<Longrightarrow> others_kept fs fs1"
  "sys_fsync_dir dir fs = (ok, fs1) \<Longrightarrow> others_kept fs fs1"
  by (auto simp: stdio_fflush_def stdio_fclose_def sys_plain_def sys_fsync_def sys_fsync_dir_def drain_def Let_def
      split: prod.splits if_splits dest!: syscall_others_kept intro: others_kept_own)

text \<open>Moving the temporary file to a name that is free.\<close>

lemma move_effect:
  assumes "temp_open fs0 tp n (out, fs)" and "is_temp p tp" and "entries fs p = None"
    and "entries fs' = (entries fs)(tp := None, p := entries fs tp)" and "contents fs' = contents fs" and "next_own fs' = next_own fs"
    and "next_foreign fs' = next_foreign fs" and "clock fs' = clock fs" and "faults fs' = faults fs" and "others fs' = others fs"
    and "stream_limit fs' = stream_limit fs"
  shows "extends fs0 {(p, n)} fs'" and "entries fs0 p = None" and "entries fs' p = Some (Own n)"
    and "next_own fs0 \<le> n" and "n < next_own fs'"
proof -
  have ext: "extends fs0 {(tp, n)} fs" and t: "entries fs0 tp = None" "entries fs tp = Some (Own n)" "next_own fs0 \<le> n" "n < next_own fs"
    using assms(1) by (simp_all add: temp_open_def)
  show out0: "entries fs0 p = None" using ext assms(3) by (metis extends_def not_None_eq)
  show "extends fs0 {(p, n)} fs'"
    using ext t out0 assms(4-) by (auto simp: extends_def)
  show "entries fs' p = Some (Own n)" using t(2) assms(4) is_temp_ne [OF assms(2)] by simp
  show "next_own fs0 \<le> n" "n < next_own fs'" using t(3, 4) assms(6) by simp_all
qed

lemma commit_windows_wp:
  assumes "temp_open fs0 tp n (out, fs)" and "contents fs (Own n) = d" and "synced fs (Own n) = Some d" and "is_temp p tp"
  shows "wp (commit_temp_file_windows tp p)
    (\<lambda>_ fs'. committed fs0 p n d fs' \<and> durable fs' p = Some (Own n) \<and> extends fs0 {(p, n)} fs' \<and> others_kept fs fs')
    (\<lambda>e fs'. temp_open fs0 tp n (out, fs') \<and>
       (e = Error invalid_input ''Output file already exists'' \<and> entries fs' p \<noteq> None \<or> code e = backend_failure \<and> \<not> quiet fs) \<and>
       others_kept fs fs') fs"
proof -
  obtain failed fs1 where c: "syscall fs = (failed, fs1)" by fastforce
  note c' = syscall_arrived [OF c] and k = syscall_others_kept [OF c]
  have inv: "temp_open fs0 tp n (out, fs1)" using temp_open_arrived [OF assms(1)] c' by blast
  then have tp: "entries fs1 tp = Some (Own n)" by (simp add: temp_open_def)
  show ?thesis
  proof (cases "failed \<or> entries fs1 p \<noteq> None")
    case True
    then show ?thesis
      using inv c c' tp k
      by (cases failed) (auto simp: commit_temp_file_windows_def wp_def act_simps sys_move_def file_backend_failure_def)
  next
    case False
    define fs2 where "fs2 = fs1\<lparr>entries := (entries fs1)(tp := None, p := entries fs1 tp),
      durable := (durable fs1)(tp := None, p := entries fs1 tp)\<rparr>"
    have run: "commit_temp_file_windows tp p fs = (Inr (), fs2)"
      using c False tp by (simp add: commit_temp_file_windows_def act_simps sys_move_def fs2_def)
    have free: "entries fs1 p = None" using False by simp
    note m = move_effect [OF inv assms(4) free, of fs2]
    have "contents fs1 (Own n) = d" "synced fs1 (Own n) = Some d"
      using arrived_own(1,2) [of fs fs1] c' assms(2, 3) by simp_all
    moreover have "others_kept fs fs2"
      by (rule others_kept_own [OF k]) (use tp free in \<open>auto simp: fs2_def\<close>)
    ultimately show ?thesis
      using m is_temp_ne [OF assms(4)] tp by (simp add: wp_def run committed_def, simp add: fs2_def)
  qed
qed

text \<open>The output is a new file of this program with content \<open>d\<close>; how much of it is on disk is not said.\<close>

definition placed :: "file_system \<Rightarrow> path \<Rightarrow> nat \<Rightarrow> bytes \<Rightarrow> file_system \<Rightarrow> bool" where
  "placed fs0 output n d fs \<longleftrightarrow>
     entries fs0 output = None \<and> entries fs output = Some (Own n) \<and> next_own fs0 \<le> n \<and> n < next_own fs \<and>
     contents fs (Own n) = d"

lemma commit_portable_wp:
  assumes "temp_open fs0 tp n (out, fs)" and "contents fs (Own n) = d" and "is_temp p tp"
    and alone: "\<And>t b. (p, b) \<notin> set (others fs0 t)"
  shows "wp (commit_temp_file_portable tp p)
    (\<lambda>_ fs'. placed fs0 p n d fs' \<and> extends fs0 {(p, n)} fs' \<and> others_kept fs fs')
    (\<lambda>e fs'. temp_open fs0 tp n (out, fs') \<and>
       (e = Error invalid_input ''Output file already exists'' \<and> entries fs' p \<noteq> None \<or> code e = backend_failure \<and> \<not> quiet fs) \<and>
       others_kept fs fs') fs"
proof -
  obtain failed fs1 where c: "syscall fs = (failed, fs1)" by fastforce
  obtain failed2 fs2 where c2: "syscall fs1 = (failed2, fs2)" by fastforce
  note c' = syscall_arrived [OF c] and c2' = syscall_arrived [OF c2]
  have k: "others_kept fs fs1" and k2: "others_kept fs fs2"
    using others_kept_trans [OF syscall_others_kept [OF c] syscall_others_kept [OF c2]] syscall_others_kept [OF c] by simp_all
  have inv: "temp_open fs0 tp n (out, fs1)" using temp_open_arrived [OF assms(1)] c' by blast
  have inv2: "temp_open fs0 tp n (out, fs2)" using temp_open_arrived [OF inv] c2' by blast
  then have tp: "entries fs2 tp = Some (Own n)" by (simp add: temp_open_def)
  have q: "failed2 \<Longrightarrow> \<not> quiet fs"
  proof
    assume "failed2" "quiet fs"
    then show False using c2' quiet_now [OF quiet_call [OF conjunct1 [OF c'] \<open>quiet fs\<close>]] by simp
  qed
  consider "failed" | "\<not> failed" "entries fs1 p \<noteq> None" | "\<not> failed" "entries fs1 p = None" "failed2"
    | "\<not> failed" "entries fs1 p = None" "\<not> failed2" by blast
  then show ?thesis
  proof cases
    case 1
    then show ?thesis using c c' inv k
      by (auto simp: commit_temp_file_portable_def wp_def act_simps fs_exists_def file_backend_failure_def)
  next
    case 2
    then show ?thesis using c inv k
      by (auto simp: commit_temp_file_portable_def wp_def act_simps fs_exists_def)
  next
    case 3
    then show ?thesis using c c2 inv2 q k2
      by (auto simp: commit_temp_file_portable_def wp_def act_simps fs_exists_def fs_rename_def file_backend_failure_def)
  next
    case 4
    have "others fs1 = others fs0" using inv by (auto simp: temp_open_def extends_def)
    then have free: "entries fs2 p = None" using arrived_new [of fs1 fs2 p] c2' 4(2) alone by (cases "entries fs2 p") auto
    define fs3 where "fs3 = fs2\<lparr>entries := (entries fs2)(tp := None, p := entries fs2 tp)\<rparr>"
    have run: "commit_temp_file_portable tp p fs = (Inr (), fs3)"
      using c c2 4 tp by (simp add: commit_temp_file_portable_def act_simps fs_exists_def fs_rename_def fs3_def)
    note m = move_effect [OF inv2 assms(3) free, of fs3]
    have "contents fs3 (Own n) = d"
      using arrived_own(1) [of fs fs1] arrived_own(1) [of fs1 fs2] c' c2' assms(2) by (simp add: fs3_def)
    moreover have "others_kept fs fs3"
      by (rule others_kept_own [OF k2]) (use tp free in \<open>auto simp: fs3_def\<close>)
    ultimately show ?thesis using m by (simp add: wp_def run placed_def, simp add: fs3_def)
  qed
qed

section \<open>Flushing\<close>

lemma fsync_effect:
  assumes t: "temp_open fs0 tp n (out, fs)" and f: "sys_fsync n fs = (ok, fs')"
  shows "temp_open fs0 tp n (out, fs') \<and> contents fs' (Own n) = contents fs (Own n) \<and>
    (ok \<longrightarrow> synced fs' (Own n) = Some (contents fs (Own n))) \<and> (quiet fs \<longrightarrow> ok \<and> quiet fs')"
proof -
  obtain failed fs1 where c: "syscall fs = (failed, fs1)" by fastforce
  note c' = syscall_arrived [OF c]
  have i: "temp_open fs0 tp n (out, fs1)" using temp_open_arrived [OF t] c' by blast
  then have "temp_open fs0 tp n (out, fs1\<lparr>synced := s\<rparr>)" for s
    by (simp add: temp_open_def extends_def)
  moreover have "quiet fs \<Longrightarrow> \<not> failed \<and> quiet fs1" using c' quiet_call by auto
  ultimately show ?thesis
    using i f c c' arrived_own(1) [of fs fs1] by (auto simp: sys_fsync_def quiet_def split: if_splits)
qed

lemma plain_effect:
  assumes t: "temp_open fs0 tp n (out, fs)" and f: "sys_plain fs = (ok, fs')"
  shows "temp_open fs0 tp n (out, fs') \<and> contents fs' (Own n) = contents fs (Own n) \<and> (quiet fs \<longrightarrow> ok \<and> quiet fs')"
proof -
  obtain failed fs1 where c: "syscall fs = (failed, fs1)" by fastforce
  note c' = syscall_arrived [OF c]
  have "quiet fs \<Longrightarrow> \<not> failed \<and> quiet fs1" using c' quiet_call by auto
  then show ?thesis
    using temp_open_arrived [OF t] f c c' arrived_own(1) [of fs fs1] by (auto simp: sys_plain_def)
qed

lemma flush_windows_wp:
  assumes "temp_open fs0 tp n (out, fs)" and "ofile out = Some (n, buf)"
  shows "wp output_flush_windows
    (\<lambda>_ (out', fs'). temp_open fs0 tp n (out', fs') \<and> ofile out' = Some (n, []) \<and>
       contents fs' (Own n) = contents fs (Own n) @ buf \<and> synced fs' (Own n) = Some (contents fs (Own n) @ buf) \<and>
       (quiet fs \<longrightarrow> quiet fs'))
    (\<lambda>e (out', fs'). temp_open fs0 tp n (out', fs') \<and> code e = backend_failure \<and> \<not> quiet fs) (out, fs)"
proof -
  obtain flushed file1 fs1 where f: "stdio_fflush (n, buf) fs = (flushed, file1, fs1)" by (metis prod_cases3)
  obtain h fs2 where h: "sys_plain fs1 = (h, fs2)" by fastforce
  obtain ok fs3 where s: "sys_fsync n fs2 = (ok, fs3)" by fastforce
  note e1 = temp_open_fflush [OF assms(1) f]
  note e2 = plain_effect [OF conjunct1 [OF e1] h]
  note e3 = fsync_effect [OF conjunct1 [OF e2] s]
  show ?thesis
    using e1 e2 e3 f h s assms(2)
    by (cases flushed; cases h; cases ok) (auto simp: output_flush_windows_def wp_def file_backend_failure_def)
qed

lemma flush_portable_wp:
  assumes "temp_open fs0 tp n (out, fs)" and "ofile out = Some (n, buf)"
  shows "wp output_flush_portable
    (\<lambda>_ (out', fs'). temp_open fs0 tp n (out', fs') \<and> ofile out' = Some (n, []) \<and>
       contents fs' (Own n) = contents fs (Own n) @ buf \<and> (quiet fs \<longrightarrow> quiet fs'))
    (\<lambda>e (out', fs'). temp_open fs0 tp n (out', fs') \<and> code e = backend_failure \<and> \<not> quiet fs) (out, fs)"
proof -
  obtain flushed file1 fs1 where f: "stdio_fflush (n, buf) fs = (flushed, file1, fs1)" by (metis prod_cases3)
  show ?thesis
    using temp_open_fflush [OF assms(1) f] f assms(2)
    by (cases flushed) (auto simp: output_flush_portable_def wp_def file_backend_failure_def)
qed

lemma flush_others_kept:
  "output_flush_windows (out, fs) = (r, (out', fs')) \<Longrightarrow> others_kept fs fs'"
  "output_flush_portable (out, fs) = (r, (out', fs')) \<Longrightarrow> others_kept fs fs'"
  "output_flush (out, fs) = (r, (out', fs')) \<Longrightarrow> others_kept fs fs'"
  "output_close (out, fs) = (r, (out', fs')) \<Longrightarrow> others_kept fs fs'"
  by (auto simp: output_flush_windows_def output_flush_portable_def output_flush_def output_close_def
      split: option.splits prod.splits if_splits dest!: calls_others_kept intro: others_kept_trans)

section \<open>Publishing\<close>

text \<open>What publishing the temporary file \<open>tp\<close> leaves when it throws.\<close>

definition not_published :: "file_system \<Rightarrow> path \<Rightarrow> nat \<Rightarrow> path \<Rightarrow> file_system \<Rightarrow> error \<Rightarrow> output_file \<times> file_system \<Rightarrow> bool" where
  "not_published fs0 tp n p fs e = (\<lambda>(out', fs'). temp_open fs0 tp n (out', fs') \<and>
     (e = Error invalid_input ''Output file already exists'' \<and> entries fs' p \<noteq> None \<or> code e = backend_failure \<and> \<not> quiet fs) \<and>
     others_kept fs fs')"

lemma writing_buffer:
  assumes "temp_writing fs0 tp n (out, fs)" and "accepted_file (out, fs) = d"
  obtains buf where "temp_open fs0 tp n (out, fs)" and "ofile out = Some (n, buf)" and "contents fs (Own n) @ buf = d"
proof -
  have inv: "temp_open fs0 tp n (out, fs)" using assms(1) by (simp add: temp_writing_def)
  from assms(1) obtain a where a: "ofile out = Some a" by (auto simp: temp_writing_def)
  with inv have "fst a = n" by (cases a) (simp add: temp_open_def)
  with a obtain buf where fl: "ofile out = Some (n, buf)" by (cases a) simp
  show thesis by (rule that [OF inv fl]) (use assms(2) fl in \<open>simp add: accepted_file_def\<close>)
qed

lemma finish_windows_wp:
  assumes "temp_writing fs0 tp n (out, fs)" and "accepted_file (out, fs) = d" and "is_temp p tp"
  shows "wp (finish_windows tp p)
    (\<lambda>_ (_, fs'). committed fs0 p n d fs' \<and> durable fs' p = Some (Own n) \<and> extends fs0 {(p, n)} fs' \<and> others_kept fs fs')
    (not_published fs0 tp n p fs) (out, fs)"
proof -
  obtain buf where t: "temp_open fs0 tp n (out, fs)" "ofile out = Some (n, buf)" "contents fs (Own n) @ buf = d"
    by (rule writing_buffer [OF assms(1, 2)])
  show ?thesis
    unfolding finish_windows_def wp_thenM
  proof (rule wp_conseq [OF flush_windows_wp [OF t(1, 2)]], goal_cases)
    case (1 u s1)
    obtain out1 fs1 where s1: "s1 = (out1, fs1)" by fastforce
    from 1 t(3) have f: "temp_open fs0 tp n (out1, fs1)" "ofile out1 = Some (n, [])" "contents fs1 (Own n) = d"
      "synced fs1 (Own n) = Some d" "quiet fs \<longrightarrow> quiet fs1" by (simp_all add: s1)
    have k1: "others_kept fs fs1" using 1(1) flush_others_kept unfolding s1 by blast
    show ?case
      unfolding s1
    proof (rule wp_conseq [OF close_wp [OF f(1, 2)]], goal_cases)
      case (1 u s2)
      obtain out2 fs2 where s2: "s2 = (out2, fs2)" by fastforce
      from 1 f have c: "temp_open fs0 tp n (out2, fs2)" "contents fs2 (Own n) = d"
        "synced fs2 (Own n) = Some d" "quiet fs \<longrightarrow> quiet fs2" by (simp_all add: s2)
      have k2: "others_kept fs fs2" using 1(1) flush_others_kept(4) others_kept_trans [OF k1] unfolding s2 by blast
      show ?case
        unfolding s2 wp_on_snd
        by (rule wp_conseq [OF commit_windows_wp [OF c(1-3) assms(3)]]) (use c(4) others_kept_trans [OF k2] in \<open>auto simp: not_published_def\<close>)
    qed (use f others_kept_trans [OF k1] flush_others_kept(4) in \<open>auto simp: not_published_def\<close>)
  qed (auto simp: not_published_def dest: flush_others_kept)
qed

lemma finish_portable_wp:
  assumes "temp_writing fs0 tp n (out, fs)" and "accepted_file (out, fs) = d" and "is_temp p tp"
    and alone: "\<And>t b. (p, b) \<notin> set (others fs0 t)"
  shows "wp (finish_portable tp p)
    (\<lambda>_ (_, fs'). placed fs0 p n d fs' \<and> extends fs0 {(p, n)} fs' \<and> others_kept fs fs')
    (not_published fs0 tp n p fs) (out, fs)"
proof -
  obtain buf where t: "temp_open fs0 tp n (out, fs)" "ofile out = Some (n, buf)" "contents fs (Own n) @ buf = d"
    by (rule writing_buffer [OF assms(1, 2)])
  show ?thesis
    unfolding finish_portable_def wp_thenM
  proof (rule wp_conseq [OF flush_portable_wp [OF t(1, 2)]], goal_cases)
    case (1 u s1)
    obtain out1 fs1 where s1: "s1 = (out1, fs1)" by fastforce
    from 1 t(3) have f: "temp_open fs0 tp n (out1, fs1)" "ofile out1 = Some (n, [])" "contents fs1 (Own n) = d"
      "quiet fs \<longrightarrow> quiet fs1" by (simp_all add: s1)
    have k1: "others_kept fs fs1" using 1(1) flush_others_kept unfolding s1 by blast
    show ?case
      unfolding s1
    proof (rule wp_conseq [OF close_wp [OF f(1, 2)]], goal_cases)
      case (1 u s2)
      obtain out2 fs2 where s2: "s2 = (out2, fs2)" by fastforce
      from 1 f have c: "temp_open fs0 tp n (out2, fs2)" "contents fs2 (Own n) = d" "quiet fs \<longrightarrow> quiet fs2"
        by (simp_all add: s2)
      have k2: "others_kept fs fs2" using 1(1) flush_others_kept(4) others_kept_trans [OF k1] unfolding s2 by blast
      show ?case
        unfolding s2 wp_on_snd
        by (rule wp_conseq [OF commit_portable_wp [OF c(1, 2) assms(3) alone]]) (use c(3) others_kept_trans [OF k2] in \<open>auto simp: not_published_def\<close>)
    qed (use f others_kept_trans [OF k1] flush_others_kept(4) in \<open>auto simp: not_published_def\<close>)
  qed (auto simp: not_published_def dest: flush_others_kept)
qed

text \<open>
  Where the check and the rename of the portable branch are apart: another program creates the output
  between the two calls (at tick 1), and the commit reports success with the other program's file replaced.
\<close>

definition race_fs :: file_system where
  "race_fs = sample_fs\<lparr>entries := [''t'' \<mapsto> Own 0], next_own := 1, others := (\<lambda>t. if t = 1 then [(''o'', [9])] else [])\<rparr>"

lemma portable_commit_race:
  "entries (snd (syscall (snd (fs_exists ''o'' race_fs)))) ''o'' = Some (Foreign 1) \<and>
   (case commit_temp_file_portable ''t'' ''o'' race_fs of
      (r, fs') \<Rightarrow> r = Inr () \<and> entries fs' ''o'' = Some (Own 0) \<and> \<not> others_kept race_fs fs')"
  by (simp add: others_kept_def)
    (simp add: race_fs_def sample_fs_def commit_temp_file_portable_def act_simps fs_exists_def fs_rename_def syscall_def
      arrive_def new_file_def, rule exI [of _ "Suc 0"], simp)

text \<open>The same program at the same point, where the commit is a single call.\<close>

lemma windows_commit_no_race:
  "case commit_temp_file_windows ''t'' ''o'' (race_fs\<lparr>clock := 1\<rparr>) of
     (r, fs') \<Rightarrow> r = Inl (Error invalid_input ''Output file already exists'') \<and>
       entries fs' ''o'' = Some (Foreign 1) \<and> contents fs' (Foreign 1) = [9]"
  by (simp add: race_fs_def sample_fs_def commit_temp_file_windows_def act_simps sys_move_def syscall_def arrive_def new_file_def)

section \<open>Properties\<close>

definition finish_posix :: "path \<Rightarrow> path \<Rightarrow> (error, output_file \<times> file_system, unit) act" where
  "finish_posix temp_path output =
     thenM output_flush (thenM output_close (on_snd (commit_temp_file temp_path output)))"

lemma preserves_calls [preserves_intros]:
  "(\<And>fs1 r fs2. f fs1 = (r, fs2) \<Longrightarrow> others_kept fs1 fs2) \<Longrightarrow> preserves (others_kept fs) (call f)"
  by (auto simp: preserves_iff call_def split: prod.splits intro: others_kept_trans)

lemma flush_parent_directory_others_kept: "preserves (others_kept fs) (flush_parent_directory p)"
  unfolding flush_parent_directory_def
  by (intro preserves_intros if_split [where P = "preserves _", THEN iffD2] conjI impI) (auto dest: calls_others_kept)

lemma commit_posix_others_kept:
  assumes tp: "entries fs tp = Some (Own n)"
  shows "others_kept fs (snd (commit_temp_file tp p fs))"
proof -
  obtain failed fs1 where c: "syscall fs = (failed, fs1)" by fastforce
  obtain r fs2 where link: "sys_link tp p fs = (r, fs2)" by fastforce
  have t1: "entries fs1 tp = Some (Own n)" using arrived_entry tp syscall_arrived [OF c] by blast
  have fs2: "fs2 = fs1 \<or> entries fs1 p = None \<and> fs2 = fs1\<lparr>entries := (entries fs1)(p := entries fs1 tp)\<rparr>"
    using link c by (auto simp: sys_link_def split: if_splits)
  then have t2: "entries fs2 tp = Some (Own n)" using t1 by auto
  have k2: "others_kept fs fs2"
    by (rule others_kept_own [OF syscall_others_kept [OF c]]) (use fs2 in auto)
  obtain failed3 fs3 where c3: "syscall fs2 = (failed3, fs3)" by fastforce
  have t3: "entries fs3 tp = Some (Own n)" using arrived_entry t2 syscall_arrived [OF c3] by blast
  have k3: "others_kept fs (remove_quietly tp fs2)"
    by (rule others_kept_own [OF others_kept_trans [OF k2 syscall_others_kept [OF c3]]])
      (use c3 t3 in \<open>auto simp: remove_quietly_def fs_remove_def\<close>)
  show ?thesis
  proof (cases r)
    case None
    then show ?thesis
      using k3 flush_parent_directory_others_kept [of fs p]
      by (simp add: commit_temp_file_def act_simps link preserves_iff)
  next
    case (Some err)
    then show ?thesis using k2 by (cases err) (simp_all add: commit_temp_file_def act_simps link)
  qed
qed

lemma finish_posix_others_kept:
  assumes "temp_writing fs0 tp n (out, fs)"
  shows "others_kept fs (snd (snd (finish_posix tp p (out, fs))))"
proof -
  obtain d where d: "accepted_file (out, fs) = d" by simp
  obtain buf where t: "temp_open fs0 tp n (out, fs)" "ofile out = Some (n, buf)"
    by (rule writing_buffer [OF assms d])
  have "wp (finish_posix tp p) (\<lambda>_ s. others_kept fs (snd s)) (\<lambda>_ s. others_kept fs (snd s)) (out, fs)"
    unfolding finish_posix_def wp_thenM
  proof (rule wp_conseq [OF flush_wp [OF t]], goal_cases)
    case (1 u s1)
    obtain out1 fs1 where s1: "s1 = (out1, fs1)" by fastforce
    have k1: "others_kept fs fs1" using 1(1) flush_others_kept(3) unfolding s1 by blast
    from 1(2) have f: "temp_open fs0 tp n (out1, fs1)" "ofile out1 = Some (n, [])" by (simp_all add: s1)
    show ?case
      unfolding s1
    proof (rule wp_conseq [OF close_wp [OF f]], goal_cases)
      case (1 u s2)
      obtain out2 fs2 where s2: "s2 = (out2, fs2)" by fastforce
      have k2: "others_kept fs fs2" using 1(1) flush_others_kept(4) others_kept_trans [OF k1] unfolding s2 by blast
      have "entries fs2 tp = Some (Own n)" using 1(2) by (simp add: s2 temp_open_def)
      from others_kept_trans [OF k2 commit_posix_others_kept [OF this, of p]] show ?case
        unfolding s2 wp_on_snd by (auto simp: wp_def split: prod.splits sum.splits)
    next
      case (2 e s2)
      then show ?case using flush_others_kept(4) others_kept_trans [OF k1] by (cases s2) auto
    qed
  next
    case (2 e s1)
    then show ?case using flush_others_kept(3) by (cases s1) auto
  qed
  then show ?thesis by (cases "finish_posix tp p (out, fs)"; cases "fst (finish_posix tp p (out, fs))") (simp_all add: wp_def)
qed

text \<open>
  C15: Publishing a file never replaces another. A temporary file to which \<open>d\<close> has been written
  is flushed, closed and committed. On Windows, for every fault and every interleaving: when this
  returns, the output did not exist before, it is that file with content \<open>d\<close>, and content and entry
  are on disk; when it throws, the temporary file is still there and either the
  output exists or a call has failed. Either way everything that existed in \<open>fs0\<close> is as it was, and every file
  of another program, those created between any two of the calls included, is still under its name with its content
  (\<open>others_kept\<close>). On platforms that are neither Windows nor Unix the same holds,
  except for what is on disk, when no other program creates the output. On Unix, too, no file of another program is lost.
\<close>

theorem publish_on_platforms:
  assumes "temp_writing fs0 tp n (out, fs)" and "accepted_file (out, fs) = d" and "is_temp p tp"
  shows "(case finish_windows tp p (out, fs) of
       (Inr _, (_, fs')) \<Rightarrow>
         committed fs0 p n d fs' \<and> durable fs' p = Some (Own n) \<and> extends fs0 {(p, n)} fs' \<and> others_kept fs fs'
     | (Inl e, s') \<Rightarrow> not_published fs0 tp n p fs e s') \<and>
   ((\<forall>t b. (p, b) \<notin> set (others fs0 t)) \<longrightarrow>
     (case finish_portable tp p (out, fs) of
       (Inr _, (_, fs')) \<Rightarrow> placed fs0 p n d fs' \<and> extends fs0 {(p, n)} fs' \<and> others_kept fs fs'
     | (Inl e, s') \<Rightarrow> not_published fs0 tp n p fs e s')) \<and>
   (case finish_posix tp p (out, fs) of (_, (_, fs')) \<Rightarrow> others_kept fs fs')"
proof (intro conjI impI)
  show "case finish_windows tp p (out, fs) of
       (Inr _, (_, fs')) \<Rightarrow>
         committed fs0 p n d fs' \<and> durable fs' p = Some (Own n) \<and> extends fs0 {(p, n)} fs' \<and> others_kept fs fs'
     | (Inl e, s') \<Rightarrow> not_published fs0 tp n p fs e s'"
    using finish_windows_wp [OF assms]
    by (cases "finish_windows tp p (out, fs)"; cases "fst (finish_windows tp p (out, fs))") (simp_all add: wp_def split_def)
next
  assume "\<forall>t b. (p, b) \<notin> set (others fs0 t)"
  then have "wp (finish_portable tp p) (\<lambda>_ (_, fs'). placed fs0 p n d fs' \<and> extends fs0 {(p, n)} fs' \<and> others_kept fs fs')
    (not_published fs0 tp n p fs) (out, fs)" by (intro finish_portable_wp [OF assms]) simp
  then show "case finish_portable tp p (out, fs) of
       (Inr _, (_, fs')) \<Rightarrow> placed fs0 p n d fs' \<and> extends fs0 {(p, n)} fs' \<and> others_kept fs fs'
     | (Inl e, s') \<Rightarrow> not_published fs0 tp n p fs e s'"
    by (cases "finish_portable tp p (out, fs)"; cases "fst (finish_portable tp p (out, fs))") (simp_all add: wp_def split_def)
next
  show "case finish_posix tp p (out, fs) of (_, (_, fs')) \<Rightarrow> others_kept fs fs'"
    using finish_posix_others_kept [OF assms(1)] by (simp add: split_def)
qed

definition written_fs :: file_system where
  "written_fs = sample_fs\<lparr>entries := (entries sample_fs)(''o'' @ temp_suffix (replicate 16 0) \<mapsto> Own 0), next_own := 1\<rparr>"

theorem publish_on_platforms_witness:
  "(case finish_windows (''o'' @ temp_suffix (replicate 16 0)) ''o'' (output_default\<lparr>ofile := Some (0, [4])\<rparr>, written_fs) of
      (r, (_, fs')) \<Rightarrow> r = Inr () \<and> entries fs' ''o'' = Some (Own 0) \<and> contents fs' (Own 0) = [1, 2, 3, 4] \<and>
        extends sample_fs {(''o'', 0)} fs') \<and>
   (case finish_portable (''o'' @ temp_suffix (replicate 16 0)) ''o'' (output_default\<lparr>ofile := Some (0, [4])\<rparr>, written_fs) of
      (r, (_, fs')) \<Rightarrow> r = Inr () \<and> entries fs' ''o'' = Some (Own 0) \<and> contents fs' (Own 0) = [1, 2, 3, 4] \<and>
        extends sample_fs {(''o'', 0)} fs')"
proof -
  define tp where "tp = ''o'' @ temp_suffix (replicate 16 0)"
  define out where "out = output_default\<lparr>ofile := Some (0, [4])\<rparr>"
  have tp: "tp \<noteq> ''o''" "tp \<noteq> ''in''" by (simp_all add: tp_def temp_suffix_def)
  have w: "written_fs = sample_fs\<lparr>entries := (entries sample_fs)(tp \<mapsto> Own 0), next_own := 1\<rparr>"
    by (simp add: written_fs_def tp_def)
  have "temp_writing sample_fs tp 0 (out, written_fs)"
    using tp by (auto simp: w temp_writing_def temp_open_def extends_def sample_fs_def out_def)
  moreover have "accepted_file (out, written_fs) = [1, 2, 3, 4]"
    by (simp add: w sample_fs_def accepted_file_def out_def)
  moreover have "is_temp ''o'' tp"
    unfolding is_temp_def tp_def by (intro exI conjI) (rule length_replicate, rule refl)
  ultimately have P: "(case finish_windows tp ''o'' (out, written_fs) of
       (Inr _, (_, fs')) \<Rightarrow> committed sample_fs ''o'' 0 [1, 2, 3, 4] fs' \<and> durable fs' ''o'' = Some (Own 0) \<and> extends sample_fs {(''o'', 0)} fs' \<and> others_kept written_fs fs'
     | (Inl e, s') \<Rightarrow> not_published sample_fs tp 0 ''o'' written_fs e s') \<and>
   ((\<forall>t b. (''o'', b) \<notin> set (others sample_fs t)) \<longrightarrow>
     (case finish_portable tp ''o'' (out, written_fs) of
       (Inr _, (_, fs')) \<Rightarrow> placed sample_fs ''o'' 0 [1, 2, 3, 4] fs' \<and> extends sample_fs {(''o'', 0)} fs' \<and> others_kept written_fs fs'
     | (Inl e, s') \<Rightarrow> not_published sample_fs tp 0 ''o'' written_fs e s')) \<and>
   (case finish_posix tp ''o'' (out, written_fs) of (_, (_, fs')) \<Rightarrow> others_kept written_fs fs')"
    by (rule publish_on_platforms)
  have alone: "\<forall>t b. (''o'', b) \<notin> set (others sample_fs t)" by (simp add: sample_fs_def)
  have ok: "fst (finish_windows tp ''o'' (out, written_fs)) = Inr ()" "fst (finish_portable tp ''o'' (out, written_fs)) = Inr ()"
    using tp by (simp_all add: finish_windows_def finish_portable_def output_flush_windows_def output_flush_portable_def output_close_def
        stdio_fclose_def stdio_fflush_def drain_def sys_plain_def sys_fsync_def commit_temp_file_windows_def commit_temp_file_portable_def
        sys_move_def fs_exists_def fs_rename_def syscall_def w sample_fs_def out_def act_simps)
  show ?thesis
    unfolding tp_def [symmetric] out_def [symmetric]
    using P alone ok
    by (cases "finish_windows tp ''o'' (out, written_fs)"; cases "finish_portable tp ''o'' (out, written_fs)")
      (auto simp: committed_def placed_def)
qed

end
