(* ===== verification/Cli_State.thy ===== *)
theory Cli_State
  imports File_Paths Hashing
begin

text \<open>
  The world of the command line program (\<^verbatim>\<open>src/cli/commands.cpp\<close>): the file
  system, the three standard streams and the library's state; its exceptions; and the texts it
  prints.
\<close>

section \<open>State and exceptions\<close>

text \<open>
  \<open>buffer_fault\<close> is what the C++ library does when a file buffer cannot be read: throw
  with a message, or report the end of the file. \<open>status_what\<close> is the message of a
  \<^verbatim>\<open>std::filesystem::filesystem_error\<close>, \<open>build_version\<close> the macro
  \<^verbatim>\<open>SECUREKIT_VERSION\<close> of the build, \<open>flush_fault\<close> whether
  flushing the standard output fails.
\<close>

record cli =
  cli_fs :: file_system
  cin :: istream
  cout :: ostream
  cerr :: string
  buffer_fault :: "string option"
  status_what :: "path \<Rightarrow> string"
  build_version :: string
  flush_fault :: bool

type_synonym 'w cli_state = "cli \<times> 'w"

text \<open>A \<^verbatim>\<open>securekit::error\<close>, or another \<^verbatim>\<open>std::exception\<close> with its message.\<close>

datatype cli_error = library_error error | std_exception string

fun cli_what :: "cli_error \<Rightarrow> string" where
  "cli_what (library_error e) = what e"
| "cli_what (std_exception message) = message"

type_synonym ('w, 'a) cli_act = "(cli_error, 'w cli_state, 'a) act"

text \<open>Calls of the library, of the library on paths, of the file system.\<close>

definition library :: "(error, 'w, 'a) act \<Rightarrow> ('w, 'a) cli_act" where
  "library m = (\<lambda>(c, w). case m w of (r, w') \<Rightarrow> (map_sum library_error id r, (c, w')))"

definition on_paths :: "(error, 'w path_state, 'a) act \<Rightarrow> ('w, 'a) cli_act" where
  "on_paths m = (\<lambda>(c, w). case m (cli_fs c, w) of (r, (fs, w')) \<Rightarrow> (map_sum library_error id r, (c\<lparr>cli_fs := fs\<rparr>, w')))"

definition on_files :: "(file_system \<Rightarrow> 'a \<times> file_system) \<Rightarrow> ('w, 'a) cli_act" where
  "on_files f = (\<lambda>(c, w). case f (cli_fs c) of (a, fs) \<Rightarrow> (Inr a, (c\<lparr>cli_fs := fs\<rparr>, w)))"

definition library_result :: "'a result \<Rightarrow> ('w, 'a) cli_act" where
  "library_result r = lift_result (map_sum library_error id r)"

section \<open>Printing\<close>

definition newline :: string where
  "newline = [CHR 0x0A]"

definition join_lines :: "string list \<Rightarrow> string" where
  "join_lines lines = concat (case lines of [] \<Rightarrow> [] | l # ls \<Rightarrow> l # map (\<lambda>line. newline @ line) ls)"

definition bytes_from_text :: "string \<Rightarrow> bytes" where
  "bytes_from_text text = map of_char text"

definition text_of_bytes :: "bytes \<Rightarrow> string" where
  "text_of_bytes b = map (\<lambda>v. char_of (unat v)) b"

definition put_bytes :: "bytes \<Rightarrow> ('w, unit) cli_act" where
  "put_bytes b = modify (\<lambda>(c, w). (c\<lparr>cout := ostream_write b (cout c)\<rparr>, w))"

definition put_text :: "string \<Rightarrow> ('w, unit) cli_act" where
  "put_text text = put_bytes (bytes_from_text text)"

text \<open>\<^verbatim>\<open>std::cout << text << newline\<close>\<close>

definition print_line :: "string \<Rightarrow> ('w, unit) cli_act" where
  "print_line text = thenM (put_text text) (put_text newline)"

primrec write_bytes_loop :: "bytes \<Rightarrow> ('w, unit) cli_act" where
  "write_bytes_loop [] = ret ()"
| "write_bytes_loop (b # bs) = thenM (put_bytes [b]) (write_bytes_loop bs)"

definition write_bytes :: "bytes \<Rightarrow> ('w, unit) cli_act" where
  "write_bytes b = thenM (write_bytes_loop b) (put_text newline)"

text \<open>\<^verbatim>\<open>fail\<close>: the message on the error stream, exit code 1.\<close>

definition fail :: "string \<Rightarrow> ('w, int) cli_act" where
  "fail message = thenM (modify (\<lambda>(c, w). (c\<lparr>cerr := cerr c @ message @ newline\<rparr>, w))) (ret 1)"

section \<open>Texts\<close>

definition version_usage :: string where
  "version_usage = join_lines
     [''Usage:'',
      ''  securekit version'',
      ''  securekit --version'']"

definition token_usage :: string where
  "token_usage = join_lines
     [''Usage:'',
      ''  securekit token <byte-size>'']"

definition sha256_usage :: string where
  "sha256_usage = join_lines
     [''Usage:'',
      ''  securekit sha256 --text <text>'',
      ''  securekit sha256 --file <path>'']"

definition hmac_sha256_usage :: string where
  "hmac_sha256_usage = join_lines
     [''Usage:'',
      ''  securekit hmac-sha256 --key-hex <hex> --text <text>'',
      ''  securekit hmac-sha256 --key-hex <hex> --file <path>'']"

definition hkdf_sha256_usage :: string where
  "hkdf_sha256_usage = join_lines
     [''Usage:'',
      ''  securekit hkdf-sha256 --key-hex <hex> --salt-hex <hex> --info-hex <hex> --out-size <byte-size>'',
      ''  securekit hkdf-sha256 --key-hex <hex> --salt-hex <hex> --info-text <text> --out-size <byte-size>'']"

definition hex_encode_usage :: string where
  "hex_encode_usage = join_lines
     [''Usage:'',
      ''  securekit hex-encode --text <text>'']"

definition hex_decode_usage :: string where
  "hex_decode_usage = join_lines
     [''Usage:'',
      ''  securekit hex-decode --text <hex>'']"

definition base64url_encode_usage :: string where
  "base64url_encode_usage = join_lines
     [''Usage:'',
      ''  securekit base64url-encode --text <text>'']"

definition base64url_decode_usage :: string where
  "base64url_decode_usage = join_lines
     [''Usage:'',
      ''  securekit base64url-decode --text <base64url>'']"

definition keygen_usage :: string where
  "keygen_usage = join_lines
     [''Usage:'',
      ''  securekit keygen --out <path>'']"

definition wrap_key_usage :: string where
  "wrap_key_usage = join_lines
     [''Usage:'',
      ''  securekit wrap-key (--key-hex <64-hex>|--key-file <path>) (--wrapping-key-hex <64-hex>|--wrapping-key-file <path>) [--out <path>]'']"

definition unwrap_key_usage :: string where
  "unwrap_key_usage = join_lines
     [''Usage:'',
      ''  securekit unwrap-key (--packet-hex <hex>|--packet-file <path>) (--wrapping-key-hex <64-hex>|--wrapping-key-file <path>) [--out <path>]'']"

definition packet_command_usage :: "string \<Rightarrow> string" where
  "packet_command_usage command =
     (if command = ''encrypt'' then join_lines
       [''Usage:'',
      ''  securekit encrypt (--text <text>|--in <path>) (--key-hex <64-hex>|--key-file <path>) [--aad-text <text>|--aad-hex <hex>] [--out <path>]'']
      else join_lines
       [''Usage:'',
      ''  securekit decrypt (--packet-hex <hex>|--packet-file <path>) (--key-hex <64-hex>|--key-file <path>) [--aad-text <text>|--aad-hex <hex>] [--out <path>]''])"

definition file_command_usage :: "string \<Rightarrow> string" where
  "file_command_usage command =
     (if command = ''seal-file'' then join_lines
       [''Usage:'',
      ''  securekit seal-file --in <path|-> --out <path|-> (--key-hex <64-hex>|--key-file <path>) [--aad-text <text>|--aad-hex <hex>]'']
      else if command = ''open-file'' then join_lines
       [''Usage:'',
      ''  securekit open-file --in <path|-> --out <path|-> (--key-hex <64-hex>|--key-file <path>) [--aad-text <text>|--aad-hex <hex>]'']
      else join_lines
       [''Usage:'',
      ''  securekit verify-file --in <path|-> (--key-hex <64-hex>|--key-file <path>) [--aad-text <text>|--aad-hex <hex>]''])"

definition password_file_command_usage :: "string \<Rightarrow> string" where
  "password_file_command_usage command =
     (if command = ''seal-file-password'' then join_lines
       [''Usage:'',
      ''  securekit seal-file-password --in <path|-> --out <path|-> --password-file <path> [--aad-text <text>|--aad-hex <hex>]'']
      else if command = ''open-file-password'' then join_lines
       [''Usage:'',
      ''  securekit open-file-password --in <path|-> --out <path|-> --password-file <path> [--aad-text <text>|--aad-hex <hex>]'']
      else join_lines
       [''Usage:'',
      ''  securekit verify-file-password --in <path|-> --password-file <path> [--aad-text <text>|--aad-hex <hex>]''])"

definition help_text :: string where
  "help_text = concat (map (\<lambda>line. line @ newline)
     [''Usage:'',
      ''  securekit version'',
      ''  securekit --version'',
      ''  securekit token <byte-size>'',
      ''  securekit sha256 --text <text>'',
      ''  securekit sha256 --file <path>'',
      ''  securekit hmac-sha256 --key-hex <hex> --text <text>'',
      ''  securekit hmac-sha256 --key-hex <hex> --file <path>'',
      ''  securekit hkdf-sha256 --key-hex <hex> --salt-hex <hex> --info-hex <hex> --out-size <byte-size>'',
      ''  securekit hkdf-sha256 --key-hex <hex> --salt-hex <hex> --info-text <text> --out-size <byte-size>'',
      ''  securekit hex-encode --text <text>'',
      ''  securekit hex-decode --text <hex>'',
      ''  securekit base64url-encode --text <text>'',
      ''  securekit base64url-decode --text <base64url>'',
      ''  securekit keygen --out <path>'',
      ''  securekit wrap-key (--key-hex <64-hex>|--key-file <path>) (--wrapping-key-hex <64-hex>|--wrapping-key-file <path>) [--out <path>]'',
      ''  securekit unwrap-key (--packet-hex <hex>|--packet-file <path>) (--wrapping-key-hex <64-hex>|--wrapping-key-file <path>) [--out <path>]'',
      ''  securekit encrypt (--text <text>|--in <path>) (--key-hex <64-hex>|--key-file <path>) [--aad-text <text>|--aad-hex <hex>] [--out <path>]'',
      ''  securekit decrypt (--packet-hex <hex>|--packet-file <path>) (--key-hex <64-hex>|--key-file <path>) [--aad-text <text>|--aad-hex <hex>] [--out <path>]'',
      ''  securekit seal-file --in <path|-> --out <path|-> --key-hex <64-hex> [--aad-text <text>|--aad-hex <hex>]'',
      ''  securekit open-file --in <path|-> --out <path|-> --key-hex <64-hex> [--aad-text <text>|--aad-hex <hex>]'',
      ''  securekit seal-file --in <path|-> --out <path|-> --key-file <path> [--aad-text <text>|--aad-hex <hex>]'',
      ''  securekit open-file --in <path|-> --out <path|-> --key-file <path> [--aad-text <text>|--aad-hex <hex>]'',
      ''  securekit verify-file --in <path|-> --key-hex <64-hex> [--aad-text <text>|--aad-hex <hex>]'',
      ''  securekit verify-file --in <path|-> --key-file <path> [--aad-text <text>|--aad-hex <hex>]'',
      ''  securekit seal-file-password --in <path|-> --out <path|-> --password-file <path> [--aad-text <text>|--aad-hex <hex>]'',
      ''  securekit open-file-password --in <path|-> --out <path|-> --password-file <path> [--aad-text <text>|--aad-hex <hex>]'',
      ''  securekit verify-file-password --in <path|-> --password-file <path> [--aad-text <text>|--aad-hex <hex>]'',
      ''  securekit help [command]''])"

definition print_help :: "('w, unit) cli_act" where
  "print_help = put_text help_text"

definition print_version :: "('w, unit) cli_act" where
  "print_version =
     bindM (gets (\<lambda>(c, w). build_version c)) (\<lambda>v.
     thenM (put_text ''securekit '') (thenM (put_text v) (put_text newline)))"

text \<open>The usage of a command; \<open>None\<close> where the code returns \<^verbatim>\<open>false\<close>.\<close>

definition command_usage :: "string \<Rightarrow> string option" where
  "command_usage command =
     (if command = ''version'' then Some version_usage
      else if command = ''token'' then Some token_usage
      else if command = ''sha256'' then Some sha256_usage
      else if command = ''hmac-sha256'' then Some hmac_sha256_usage
      else if command = ''hkdf-sha256'' then Some hkdf_sha256_usage
      else if command = ''hex-encode'' then Some hex_encode_usage
      else if command = ''hex-decode'' then Some hex_decode_usage
      else if command = ''base64url-encode'' then Some base64url_encode_usage
      else if command = ''base64url-decode'' then Some base64url_decode_usage
      else if command = ''keygen'' then Some keygen_usage
      else if command = ''wrap-key'' then Some wrap_key_usage
      else if command = ''unwrap-key'' then Some unwrap_key_usage
      else if command = ''encrypt'' then Some (packet_command_usage command)
      else if command = ''decrypt'' then Some (packet_command_usage command)
      else if command = ''seal-file'' then Some (file_command_usage command)
      else if command = ''open-file'' then Some (file_command_usage command)
      else if command = ''verify-file'' then Some (file_command_usage command)
      else if command = ''seal-file-password'' then Some (password_file_command_usage command)
      else if command = ''open-file-password'' then Some (password_file_command_usage command)
      else if command = ''verify-file-password'' then Some (password_file_command_usage command)
      else None)"

definition print_command_help :: "string \<Rightarrow> ('w, bool) cli_act" where
  "print_command_help command =
     (case command_usage command of
        None \<Rightarrow> ret False
      | Some usage \<Rightarrow> thenM (print_line usage) (ret True))"

end
