(* ===== verification/Cli_Input.thy ===== *)
theory Cli_Input
  imports Cli_State Hex
begin

text \<open>
  \<^verbatim>\<open>src/cli/commands.cpp\<close>, reading values: keys from hex text and key files, passwords,
  additional data, sizes, whole files.
\<close>

section \<open>The code\<close>

definition is_hex_char :: "char \<Rightarrow> bool" where
  "is_hex_char ch \<longleftrightarrow>
     CHR ''0'' \<le> ch \<and> ch \<le> CHR ''9'' \<or> CHR ''a'' \<le> ch \<and> ch \<le> CHR ''f'' \<or> CHR ''A'' \<le> ch \<and> ch \<le> CHR ''F''"

definition bad_key :: cli_error where
  "bad_key = std_exception ''key must be 64 hex characters''"

definition key_from_hex :: "string \<Rightarrow> ('w, key256) cli_act" where
  "key_from_hex text =
     thenM (throw_if (length text \<noteq> 64) bad_key)
    (thenM (throw_if (\<not> list_all is_hex_char text) bad_key)
    (bindM (library_result (hex_decode text)) (\<lambda>decoded. ret (map (\<lambda>i. decoded ! i) [0..<32]))))"

definition is_space :: "char \<Rightarrow> bool" where
  "is_space ch \<longleftrightarrow>
     ch = CHR '' '' \<or> ch = CHR 0x09 \<or> ch = CHR 0x0A \<or> ch = CHR 0x0D \<or> ch = CHR 0x0C \<or> ch = CHR 0x0B"

text \<open>The first loop skips spaces at the front, the second at the end of what is left.\<close>

primrec skip_spaces :: "string \<Rightarrow> string" where
  "skip_spaces [] = []"
| "skip_spaces (ch # text) = (if is_space ch then skip_spaces text else ch # text)"

definition trim_ascii_whitespace :: "string \<Rightarrow> string" where
  "trim_ascii_whitespace text = rev (skip_spaces (rev (skip_spaces text)))"

text \<open>
  The whole file through stream buffer iterators. These leave the state of the stream itself
  alone, which is what the code checks afterwards.
\<close>

definition read_file :: "path \<Rightarrow> ('w, bytes) cli_act" where
  "read_file p =
     bindM (on_files (ifstream_open p)) (\<lambda>r.
     case r of
       None \<Rightarrow> throw (std_exception ''failed to open input file'')
     | Some in_stream \<Rightarrow>
         bindM (gets (\<lambda>(c, w). buffer_fault c)) (\<lambda>fault.
         thenM (case fault of
             Some message \<Rightarrow> throw_if (faulty in_stream) (std_exception message)
           | None \<Rightarrow> ret ())
        (thenM (throw_if (\<not> good in_stream \<and> \<not> eofbit in_stream) (std_exception ''failed to read input file''))
               (ret (remaining in_stream)))))"

definition password_from_file :: "path \<Rightarrow> ('w, bytes) cli_act" where
  "password_from_file p =
     bindM (read_file p) (\<lambda>password.
     thenM (throw_if (password = []) (std_exception ''password must not be empty'')) (ret password))"

definition key_from_file :: "path \<Rightarrow> ('w, key256) cli_act" where
  "key_from_file p =
     bindM (read_file p) (\<lambda>key_bytes. key_from_hex (trim_ascii_whitespace (text_of_bytes key_bytes)))"

definition key_from_option :: "string \<Rightarrow> string \<Rightarrow> ('w, key256) cli_act" where
  "key_from_option option value =
     (if option = ''--key-hex'' then key_from_hex value
      else if option = ''--key-file'' then key_from_file value
      else throw (std_exception ''unsupported command''))"

definition wrapping_key_from_option :: "string \<Rightarrow> string \<Rightarrow> ('w, key256) cli_act" where
  "wrapping_key_from_option option value =
     (if option = ''--wrapping-key-hex'' then key_from_hex value
      else if option = ''--wrapping-key-file'' then key_from_file value
      else throw (std_exception ''unsupported command''))"

definition aad_from_option :: "string \<Rightarrow> string \<Rightarrow> ('w, bytes) cli_act" where
  "aad_from_option option value =
     (if option = ''--aad-text'' then ret (bytes_from_text value)
      else if option = ''--aad-hex'' then library_result (hex_decode value)
      else throw (std_exception ''unsupported command''))"

text \<open>
  \<^verbatim>\<open>std::from_chars\<close> for \<^verbatim>\<open>std::size_t\<close>, base 10: the longest prefix of
  digits; \<open>None\<close> if there is none or its value does not fit, otherwise the value and the rest.
\<close>

definition is_digit :: "char \<Rightarrow> bool" where
  "is_digit ch \<longleftrightarrow> CHR ''0'' \<le> ch \<and> ch \<le> CHR ''9''"

definition digits_value :: "string \<Rightarrow> nat" where
  "digits_value ds = foldl (\<lambda>v ch. 10 * v + (of_char ch - 48)) 0 ds"

definition from_chars_size :: "string \<Rightarrow> (nat \<times> string) option" where
  "from_chars_size text =
     (let ds = takeWhile is_digit text
      in if ds = [] \<or> 2 ^ 64 \<le> digits_value ds then None
         else Some (digits_value ds, dropWhile is_digit text))"

definition bad_size :: cli_error where
  "bad_size = std_exception ''byte-size must be a positive decimal integer''"

definition parse_size :: "string \<Rightarrow> ('w, nat) cli_act" where
  "parse_size text =
     thenM (throw_if (text = []) bad_size)
     (case from_chars_size text of
        None \<Rightarrow> throw bad_size
      | Some (v, rest) \<Rightarrow> thenM (throw_if (rest \<noteq> [] \<or> v = 0) bad_size) (ret v))"

section \<open>Lemmas: frames\<close>

text \<open>
  Only files are read since \<open>(c0, w0)\<close>: nothing but the file system has changed, and there
  only what other programs did.
\<close>

definition reads_only :: "'w cli_state \<Rightarrow> 'w cli_state \<Rightarrow> bool" where
  "reads_only s0 s \<longleftrightarrow>
     snd s = snd s0 \<and> arrived (cli_fs (fst s0)) (cli_fs (fst s)) \<and> fst s = (fst s0)\<lparr>cli_fs := cli_fs (fst s)\<rparr>"

lemma reads_only_refl [simp]: "reads_only s s"
  by (simp add: reads_only_def)

lemma reads_onlyD:
  assumes "reads_only s0 s"
  shows "snd s = snd s0" and "cout (fst s) = cout (fst s0)" and "cerr (fst s) = cerr (fst s0)"
    and "cin (fst s) = cin (fst s0)" and "arrived (cli_fs (fst s0)) (cli_fs (fst s))"
    and "buffer_fault (fst s) = buffer_fault (fst s0)" and "flush_fault (fst s) = flush_fault (fst s0)"
proof -
  define fs where "fs = cli_fs (fst s)"
  from assms have "fst s = (fst s0)\<lparr>cli_fs := fs\<rparr>" and s: "snd s = snd s0" "arrived (cli_fs (fst s0)) fs"
    by (simp_all add: reads_only_def fs_def)
  then show "snd s = snd s0" "cout (fst s) = cout (fst s0)" "cerr (fst s) = cerr (fst s0)"
    "cin (fst s) = cin (fst s0)" "arrived (cli_fs (fst s0)) (cli_fs (fst s))"
    "buffer_fault (fst s) = buffer_fault (fst s0)" "flush_fault (fst s) = flush_fault (fst s0)"
    by simp_all
qed

lemma ifstream_open_arrived: "ifstream_open p fs = (r, fs') \<Longrightarrow> arrived fs fs'"
  using syscall_arrived [of fs] by (auto simp: ifstream_open_def Let_def split: prod.splits option.splits if_splits)

lemma preserves_case_option [preserves_intros]:
  "preserves I m \<Longrightarrow> (\<And>a. preserves I (f a)) \<Longrightarrow> preserves I (case x of None \<Rightarrow> m | Some a \<Rightarrow> f a)"
  by (cases x) auto

lemma preserves_gets [preserves_intros]: "preserves I (gets f)"
  by (simp add: preserves_iff)

lemma preserves_library_result [preserves_intros]: "preserves I (library_result r)"
  by (simp add: preserves_iff library_result_def)

lemma reads_only_ifstream_open [preserves_intros]: "preserves (reads_only s0) (on_files (ifstream_open p))"
  unfolding preserves_iff
proof clarify
  fix c w assume 1: "reads_only s0 (c, w)"
  obtain r fs' where o: "ifstream_open p (cli_fs c) = (r, fs')" by fastforce
  have "arrived (cli_fs (fst s0)) fs'"
    using 1 ifstream_open_arrived [OF o] arrived_trans by (auto simp: reads_only_def)
  then show "reads_only s0 (snd (on_files (ifstream_open p) (c, w)))"
    using 1 o by (cases s0; cases "fst s0"; cases c) (simp add: on_files_def reads_only_def)
qed

lemma reads_only_input [preserves_intros]:
  "preserves (reads_only s0) (read_file p)"
  "preserves (reads_only s0) (key_from_hex text)"
  unfolding read_file_def key_from_hex_def by (intro preserves_intros)+

lemma reads_only_sources [preserves_intros]:
  "preserves (reads_only s0) (password_from_file p)"
  "preserves (reads_only s0) (key_from_file p)"
  "preserves (reads_only s0) (key_from_option option value)"
  "preserves (reads_only s0) (wrapping_key_from_option option value)"
  "preserves (reads_only s0) (aad_from_option option value)"
  unfolding password_from_file_def key_from_file_def key_from_option_def wrapping_key_from_option_def aad_from_option_def
  by (intro preserves_intros)+

section \<open>Lemmas: keys\<close>

lemma is_hex_char_digit: "is_hex_char ch = is_hex_digit ch"
  by (auto simp: is_hex_char_def is_hex_digit_def decode_nibble_def ascii_def less_eq_char_def)

lemma hex_digits_decode:
  assumes "list_all is_hex_digit text" and "length text = 64"
  shows "\<exists>k. hex_decode text = Inr k \<and> length k = 32"
proof -
  obtain k where k: "hex_decode text = Inr k" using hex_decode_iff [of "text"] assms by auto
  then have "2 * length k = length text" using hex_decode_Inr [of "text" k] by (metis length_hex_encode_loop length_map)
  with k assms(2) show ?thesis by auto
qed

lemma key_from_hex_apply:
  "key_from_hex text s =
     (if length text = 64 \<and> list_all is_hex_digit text then map_sum library_error id (hex_decode text) else Inl bad_key, s)"
proof (cases "length text = 64 \<and> list_all is_hex_digit text")
  case True
  then obtain k where k: "hex_decode text = Inr k" "length k = 32" using hex_digits_decode by blast
  then have "map (\<lambda>i. k ! i) [0..<32] = k" using map_nth [of k] by simp
  moreover have "list_all is_hex_char text" using True by (simp add: is_hex_char_digit [abs_def])
  ultimately show ?thesis using True k by (simp add: key_from_hex_def act_simps library_result_def)
qed (auto simp: key_from_hex_def act_simps is_hex_char_digit [abs_def])

lemma key_from_hex_Inr:
  assumes "key_from_hex text s = (Inr k, s')"
  shows "s' = s \<and> length text = 64 \<and> list_all is_hex_digit text \<and> hex_decode text = Inr k \<and> is_key256 k"
proof -
  from assms have t: "length text = 64" "list_all is_hex_digit text" "s' = s" "map_sum library_error id (hex_decode text) = Inr k"
    by (auto simp: key_from_hex_apply split: if_splits)
  with hex_digits_decode [of "text"] show ?thesis by (auto simp: is_key256_def)
qed

lemma key_sources_Inr:
  "key_from_file p s = (Inr k, s') \<Longrightarrow> is_key256 k"
  "key_from_option option value s = (Inr k, s') \<Longrightarrow> is_key256 k"
  "wrapping_key_from_option option value s = (Inr k, s') \<Longrightarrow> is_key256 k"
  by (auto simp: key_from_file_def key_from_option_def wrapping_key_from_option_def act_InrD dest!: key_from_hex_Inr split: if_splits)

lemma password_from_file_Inr: "password_from_file p s = (Inr pw, s') \<Longrightarrow> pw \<noteq> []"
  by (auto simp: password_from_file_def act_InrD)

text \<open>A text as bytes and back; a key file holds the digits and a newline.\<close>

lemma text_of_bytes_from_text [simp]: "text_of_bytes (bytes_from_text text) = text"
proof -
  have "unat (of_char ch :: byte) = of_char ch" for ch
  proof -
    have "unat (of_nat (of_char ch) :: byte) = of_char ch"
      by (subst unsigned_of_nat) (simp add: take_bit_nat_eq_self_iff)
    then show ?thesis by (simp add: of_nat_of_char)
  qed
  then show ?thesis by (simp add: text_of_bytes_def bytes_from_text_def comp_def)
qed

lemma skip_spaces_id: "text = [] \<or> \<not> is_space (hd text) \<Longrightarrow> skip_spaces text = text"
  by (cases "text") auto

lemma hex_digit_not_space: "is_hex_digit ch \<Longrightarrow> \<not> is_space ch"
  unfolding hex_digit_cases by (auto simp: is_space_def)

lemma trim_key_line:
  assumes "list_all is_hex_digit text" and "text \<noteq> []"
  shows "trim_ascii_whitespace (text @ newline) = text"
proof -
  have "\<not> is_space (hd text)" "\<not> is_space (last text)"
    using assms hex_digit_not_space by (auto simp: list_all_iff)
  then show ?thesis
    using assms(2) skip_spaces_id [of "text @ newline"] skip_spaces_id [of "rev text"]
    by (simp add: trim_ascii_whitespace_def newline_def hd_rev is_space_def)
qed

section \<open>Lemmas: sizes\<close>

text \<open>The decimal digits of a number, without leading zeros.\<close>

fun decimal :: "nat \<Rightarrow> string" where
  "decimal n = (if n < 10 then [] else decimal (n div 10)) @ [char_of (48 + n mod 10)]"

declare decimal.simps [simp del]

lemma digits_value_snoc: "digits_value (ds @ [ch]) = 10 * digits_value ds + (of_char ch - 48)"
  by (simp add: digits_value_def)

lemma digit_code: "is_digit ch \<longleftrightarrow> (\<exists>d < 10. ch = char_of (48 + d :: nat))"
proof
  assume "is_digit ch"
  then have "48 \<le> (of_char ch :: nat)" "(of_char ch :: nat) \<le> 57" by (simp_all add: is_digit_def less_eq_char_def)
  then show "\<exists>d < 10. ch = char_of (48 + d :: nat)"
    by (intro exI [of _ "of_char ch - 48"]) simp
qed (auto simp: is_digit_def less_eq_char_def)

lemma digit_value: "d < 10 \<Longrightarrow> of_char (char_of (48 + d :: nat)) - 48 = (d :: nat)"
  by simp

lemma decimal_digits: "list_all is_digit (decimal n) \<and> digits_value (decimal n) = n"
proof (induction n rule: decimal.induct)
  case (1 n)
  have "is_digit (char_of (48 + n mod 10 :: nat))"
    unfolding digit_code by (rule exI [of _ "n mod 10"]) simp
  then show ?case
    using 1 by (subst (1 2) decimal.simps) (auto simp: digits_value_snoc digits_value_def)
qed

lemma zeros_digits: "list_all is_digit (replicate k CHR ''0'') \<and> digits_value (replicate k CHR ''0'' @ ds) = digits_value ds"
  by (induction k) (auto simp: digits_value_def is_digit_def less_eq_char_def)

lemma digits_decimal: "list_all is_digit text \<Longrightarrow> text \<noteq> [] \<Longrightarrow> \<exists>k. text = replicate k CHR ''0'' @ decimal (digits_value text)"
proof (induction "text" rule: rev_induct)
  case (snoc ch ds)
  then have "is_digit ch" by simp
  then obtain d :: nat where d: "d < 10" "ch = char_of (48 + d)" unfolding digit_code by blast
  define v where "v = digits_value ds"
  have v: "digits_value (ds @ [ch]) = 10 * v + d" using d by (simp add: digits_value_snoc v_def)
  show ?case
  proof (cases "v = 0")
    case True
    then have "decimal (10 * v + d) = [ch]" using d by (subst decimal.simps) simp
    moreover have "\<exists>k. ds = replicate k CHR ''0''"
    proof (cases "ds = []")
      case False
      then obtain k where "ds = replicate k CHR ''0'' @ decimal 0" using snoc True by (auto simp: v_def)
      moreover have "decimal 0 = ''0''" by (subst decimal.simps) (simp add: char_of_def bit_0)
      ultimately have "ds = replicate (Suc k) CHR ''0''" by (simp add: replicate_append_same)
      then show ?thesis by blast
    qed simp
    ultimately show ?thesis using v by auto
  next
    case False
    then have "decimal (10 * v + d) = decimal v @ [ch]" using d by (subst decimal.simps) simp
    moreover have "ds \<noteq> []" using False by (auto simp: v_def digits_value_def)
    ultimately show ?thesis using snoc v by (auto simp: v_def)
  qed
qed simp

lemma from_chars_all:
  "(case from_chars_size text of None \<Rightarrow> None | Some (v, rest) \<Rightarrow> if rest \<noteq> [] \<or> v = 0 then None else Some v) =
   (if text \<noteq> [] \<and> list_all is_digit text \<and> 0 < digits_value text \<and> digits_value text < 2 ^ 64
    then Some (digits_value text) else None)"
proof (cases "list_all is_digit text")
  case True
  then have "takeWhile is_digit text = text" "dropWhile is_digit text = []"
    by (simp_all add: list_all_iff takeWhile_eq_all_conv)
  then have "from_chars_size text = (if text = [] \<or> 2 ^ 64 \<le> digits_value text then None else Some (digits_value text, []))"
    by (simp only: from_chars_size_def Let_def)
  then show ?thesis using True by (auto simp: not_le)
next
  case False
  then have "dropWhile is_digit text \<noteq> []" by (simp add: list_all_iff)
  then show ?thesis using False by (auto simp: from_chars_size_def Let_def)
qed

lemma parse_size_apply:
  "parse_size text s =
     (if text \<noteq> [] \<and> list_all is_digit text \<and> 0 < digits_value text \<and> digits_value text < 2 ^ 64
      then Inr (digits_value text) else Inl bad_size, s)"
  using from_chars_all [of "text"]
  by (cases "from_chars_size text") (auto simp: parse_size_def act_simps split: if_splits)

section \<open>Properties\<close>

text \<open>
  C36: \<^verbatim>\<open>parse_size\<close> accepts exactly the decimal numbers from 1 to \<open>2^64 - 1\<close>, leading
  zeros allowed, and returns the number; every other text, with a sign, a space, a suffix or a value that does not fit,
  is the same error.
\<close>

theorem parse_size_exact:
  "case parse_size text s of
     (Inr n, s') \<Rightarrow> s' = s \<and> 0 < n \<and> n < 2 ^ 64 \<and> (\<exists>k. text = replicate k CHR ''0'' @ decimal n)
   | (Inl e, s') \<Rightarrow> s' = s \<and> e = bad_size \<and>
       \<not> (\<exists>n k. 0 < n \<and> n < 2 ^ 64 \<and> text = replicate k CHR ''0'' @ decimal n)"
proof (cases "text \<noteq> [] \<and> list_all is_digit text \<and> 0 < digits_value text \<and> digits_value text < 2 ^ 64")
  case True
  then show ?thesis using digits_decimal by (simp add: parse_size_apply)
next
  case False
  have "text \<noteq> replicate k CHR ''0'' @ decimal n" if "0 < n" "n < 2 ^ 64" for n k
  proof
    assume t: "text = replicate k CHR ''0'' @ decimal n"
    then have "text \<noteq> []" by (subst (asm) decimal.simps) simp
    with False that show False
      using zeros_digits [of k "decimal n"] decimal_digits [of n] t by auto
  qed
  with False show ?thesis by (auto simp: parse_size_apply)
qed

end
