(* ===== verification/Cli_Options.thy ===== *)
theory Cli_Options
  imports Cli_Input
begin

text \<open>
  \<^verbatim>\<open>src/cli/commands.cpp\<close>, the options of the commands: one record and one parser per
  kind of command. A parser checks the number of arguments, then takes the arguments two by two.
\<close>

section \<open>Records\<close>

record file_command_options =
  fc_input :: path
  fc_output :: path
  fc_key :: key256
  fc_aad :: bytes
  fc_has_input :: bool
  fc_has_output :: bool
  fc_has_key :: bool
  fc_has_aad :: bool
  fc_input_is_stdin :: bool
  fc_output_is_stdout :: bool

record password_file_command_options =
  pf_input :: path
  pf_output :: path
  pf_password :: bytes
  pf_aad :: bytes
  pf_has_input :: bool
  pf_has_output :: bool
  pf_has_password :: bool
  pf_has_aad :: bool
  pf_input_is_stdin :: bool
  pf_output_is_stdout :: bool

record wrap_key_options =
  wk_key :: key256
  wk_wrapping_key :: key256
  wk_output :: path
  wk_has_key :: bool
  wk_has_wrapping_key :: bool
  wk_has_output :: bool

record unwrap_key_options =
  uk_packet :: bytes
  uk_wrapping_key :: key256
  uk_output :: path
  uk_has_packet :: bool
  uk_has_wrapping_key :: bool
  uk_has_output :: bool

record encrypt_options =
  en_plaintext :: bytes
  en_key :: key256
  en_aad :: bytes
  en_output :: path
  en_has_plaintext :: bool
  en_has_key :: bool
  en_has_aad :: bool
  en_has_output :: bool

record decrypt_options =
  de_packet :: bytes
  de_key :: key256
  de_aad :: bytes
  de_output :: path
  de_has_packet :: bool
  de_has_key :: bool
  de_has_aad :: bool
  de_has_output :: bool

text \<open>The default member initializers.\<close>

definition zero_key :: key256 where
  "zero_key = replicate 32 0"

definition file_command_options_default :: file_command_options where
  "file_command_options_default =
     \<lparr>fc_input = [],
      fc_output = [],
      fc_key = zero_key,
      fc_aad = [],
      fc_has_input = False,
      fc_has_output = False,
      fc_has_key = False,
      fc_has_aad = False,
      fc_input_is_stdin = False,
      fc_output_is_stdout = False\<rparr>"

definition password_file_command_options_default :: password_file_command_options where
  "password_file_command_options_default =
     \<lparr>pf_input = [],
      pf_output = [],
      pf_password = [],
      pf_aad = [],
      pf_has_input = False,
      pf_has_output = False,
      pf_has_password = False,
      pf_has_aad = False,
      pf_input_is_stdin = False,
      pf_output_is_stdout = False\<rparr>"

definition wrap_key_options_default :: wrap_key_options where
  "wrap_key_options_default =
     \<lparr>wk_key = zero_key,
      wk_wrapping_key = zero_key,
      wk_output = [],
      wk_has_key = False,
      wk_has_wrapping_key = False,
      wk_has_output = False\<rparr>"

definition unwrap_key_options_default :: unwrap_key_options where
  "unwrap_key_options_default =
     \<lparr>uk_packet = [],
      uk_wrapping_key = zero_key,
      uk_output = [],
      uk_has_packet = False,
      uk_has_wrapping_key = False,
      uk_has_output = False\<rparr>"

definition encrypt_options_default :: encrypt_options where
  "encrypt_options_default =
     \<lparr>en_plaintext = [],
      en_key = zero_key,
      en_aad = [],
      en_output = [],
      en_has_plaintext = False,
      en_has_key = False,
      en_has_aad = False,
      en_has_output = False\<rparr>"

definition decrypt_options_default :: decrypt_options where
  "decrypt_options_default =
     \<lparr>de_packet = [],
      de_key = zero_key,
      de_aad = [],
      de_output = [],
      de_has_packet = False,
      de_has_key = False,
      de_has_aad = False,
      de_has_output = False\<rparr>"

section \<open>Shared checks\<close>

definition reject_duplicate :: "bool \<Rightarrow> string \<Rightarrow> ('w, unit) cli_act" where
  "reject_duplicate already_set option = throw_if already_set (std_exception (''duplicate option: '' @ option))"

definition is_standard_stream_marker :: "string \<Rightarrow> bool" where
  "is_standard_stream_marker value \<longleftrightarrow> value = ''-''"

text \<open>\<^verbatim>\<open>if (options.has_x) throw std::runtime_error(message);\<close>\<close>

definition reject_conflict :: "bool \<Rightarrow> string \<Rightarrow> ('w, unit) cli_act" where
  "reject_conflict already_set message = throw_if already_set (std_exception message)"

definition packet_source :: "string \<Rightarrow> string \<Rightarrow> ('w, bytes) cli_act" where
  "packet_source option value =
     (if option = ''--packet-hex'' then library_result (hex_decode value) else read_file value)"

section \<open>The parsers\<close>

definition file_command_options_step :: "bool \<Rightarrow> string \<Rightarrow> string \<Rightarrow> file_command_options \<Rightarrow> ('w, file_command_options) cli_act" where
  "file_command_options_step requires_output option value options =
     (if option = ''--in'' then
        thenM (reject_duplicate (fc_has_input options) option)
              (ret (options\<lparr>fc_input := value, fc_input_is_stdin := is_standard_stream_marker value, fc_has_input := True\<rparr>))
      else if option = ''--out'' then
        thenM (throw_if (\<not> requires_output) (std_exception (''unsupported file option: '' @ option)))
       (thenM (reject_duplicate (fc_has_output options) option)
              (ret (options\<lparr>fc_output := value, fc_output_is_stdout := is_standard_stream_marker value, fc_has_output := True\<rparr>)))
      else if option = ''--key-hex'' \<or> option = ''--key-file'' then
        thenM (reject_conflict (fc_has_key options) ''conflicting key options'')
       (bindM (key_from_option option value) (\<lambda>v. ret (options\<lparr>fc_key := v, fc_has_key := True\<rparr>)))
      else if option = ''--aad-text'' \<or> option = ''--aad-hex'' then
        thenM (reject_conflict (fc_has_aad options) ''conflicting AAD options'')
       (bindM (aad_from_option option value) (\<lambda>v. ret (options\<lparr>fc_aad := v, fc_has_aad := True\<rparr>)))
      else throw (std_exception (''unsupported file option: '' @ option)))"

definition password_file_command_options_step :: "bool \<Rightarrow> string \<Rightarrow> string \<Rightarrow> password_file_command_options \<Rightarrow> ('w, password_file_command_options) cli_act" where
  "password_file_command_options_step requires_output option value options =
     (if option = ''--in'' then
        thenM (reject_duplicate (pf_has_input options) option)
              (ret (options\<lparr>pf_input := value, pf_input_is_stdin := is_standard_stream_marker value, pf_has_input := True\<rparr>))
      else if option = ''--out'' then
        thenM (throw_if (\<not> requires_output) (std_exception (''unsupported password file option: '' @ option)))
       (thenM (reject_duplicate (pf_has_output options) option)
              (ret (options\<lparr>pf_output := value, pf_output_is_stdout := is_standard_stream_marker value, pf_has_output := True\<rparr>)))
      else if option = ''--password-file'' then
        thenM (reject_duplicate (pf_has_password options) option)
       (bindM (password_from_file value) (\<lambda>v. ret (options\<lparr>pf_password := v, pf_has_password := True\<rparr>)))
      else if option = ''--aad-text'' \<or> option = ''--aad-hex'' then
        thenM (reject_conflict (pf_has_aad options) ''conflicting AAD options'')
       (bindM (aad_from_option option value) (\<lambda>v. ret (options\<lparr>pf_aad := v, pf_has_aad := True\<rparr>)))
      else throw (std_exception (''unsupported password file option: '' @ option)))"

definition wrap_key_options_step :: "string \<Rightarrow> string \<Rightarrow> wrap_key_options \<Rightarrow> ('w, wrap_key_options) cli_act" where
  "wrap_key_options_step option value options =
     (if option = ''--key-hex'' \<or> option = ''--key-file'' then
        thenM (reject_conflict (wk_has_key options) ''conflicting key options'')
       (bindM (key_from_option option value) (\<lambda>v. ret (options\<lparr>wk_key := v, wk_has_key := True\<rparr>)))
      else if option = ''--wrapping-key-hex'' \<or> option = ''--wrapping-key-file'' then
        thenM (reject_conflict (wk_has_wrapping_key options) ''conflicting wrapping key options'')
       (bindM (wrapping_key_from_option option value) (\<lambda>v. ret (options\<lparr>wk_wrapping_key := v, wk_has_wrapping_key := True\<rparr>)))
      else if option = ''--out'' then
        thenM (reject_duplicate (wk_has_output options) option)
              (ret (options\<lparr>wk_output := value, wk_has_output := True\<rparr>))
      else throw (std_exception (''unsupported key wrapping option: '' @ option)))"

definition unwrap_key_options_step :: "string \<Rightarrow> string \<Rightarrow> unwrap_key_options \<Rightarrow> ('w, unwrap_key_options) cli_act" where
  "unwrap_key_options_step option value options =
     (if option = ''--packet-hex'' \<or> option = ''--packet-file'' then
        thenM (reject_conflict (uk_has_packet options) ''conflicting packet options'')
       (bindM (packet_source option value) (\<lambda>v. ret (options\<lparr>uk_packet := v, uk_has_packet := True\<rparr>)))
      else if option = ''--wrapping-key-hex'' \<or> option = ''--wrapping-key-file'' then
        thenM (reject_conflict (uk_has_wrapping_key options) ''conflicting wrapping key options'')
       (bindM (wrapping_key_from_option option value) (\<lambda>v. ret (options\<lparr>uk_wrapping_key := v, uk_has_wrapping_key := True\<rparr>)))
      else if option = ''--out'' then
        thenM (reject_duplicate (uk_has_output options) option)
              (ret (options\<lparr>uk_output := value, uk_has_output := True\<rparr>))
      else throw (std_exception (''unsupported key wrapping option: '' @ option)))"

definition encrypt_options_step :: "string \<Rightarrow> string \<Rightarrow> encrypt_options \<Rightarrow> ('w, encrypt_options) cli_act" where
  "encrypt_options_step option value options =
     (if option = ''--text'' \<or> option = ''--in'' then
        thenM (reject_conflict (en_has_plaintext options) ''conflicting input options'')
       (bindM (if option = ''--text'' then ret (bytes_from_text value) else read_file value) (\<lambda>v. ret (options\<lparr>en_plaintext := v, en_has_plaintext := True\<rparr>)))
      else if option = ''--key-hex'' \<or> option = ''--key-file'' then
        thenM (reject_conflict (en_has_key options) ''conflicting key options'')
       (bindM (key_from_option option value) (\<lambda>v. ret (options\<lparr>en_key := v, en_has_key := True\<rparr>)))
      else if option = ''--aad-text'' \<or> option = ''--aad-hex'' then
        thenM (reject_conflict (en_has_aad options) ''conflicting AAD options'')
       (bindM (aad_from_option option value) (\<lambda>v. ret (options\<lparr>en_aad := v, en_has_aad := True\<rparr>)))
      else if option = ''--out'' then
        thenM (reject_duplicate (en_has_output options) option)
              (ret (options\<lparr>en_output := value, en_has_output := True\<rparr>))
      else throw (std_exception (''unsupported packet option: '' @ option)))"

definition decrypt_options_step :: "string \<Rightarrow> string \<Rightarrow> decrypt_options \<Rightarrow> ('w, decrypt_options) cli_act" where
  "decrypt_options_step option value options =
     (if option = ''--packet-hex'' \<or> option = ''--packet-file'' then
        thenM (reject_conflict (de_has_packet options) ''conflicting packet options'')
       (bindM (packet_source option value) (\<lambda>v. ret (options\<lparr>de_packet := v, de_has_packet := True\<rparr>)))
      else if option = ''--key-hex'' \<or> option = ''--key-file'' then
        thenM (reject_conflict (de_has_key options) ''conflicting key options'')
       (bindM (key_from_option option value) (\<lambda>v. ret (options\<lparr>de_key := v, de_has_key := True\<rparr>)))
      else if option = ''--aad-text'' \<or> option = ''--aad-hex'' then
        thenM (reject_conflict (de_has_aad options) ''conflicting AAD options'')
       (bindM (aad_from_option option value) (\<lambda>v. ret (options\<lparr>de_aad := v, de_has_aad := True\<rparr>)))
      else if option = ''--out'' then
        thenM (reject_duplicate (de_has_output options) option)
              (ret (options\<lparr>de_output := value, de_has_output := True\<rparr>))
      else throw (std_exception (''unsupported packet option: '' @ option)))"

text \<open>The loop over the arguments, two at a time; the check before it has made their number even.\<close>

fun parse_pairs :: "(string \<Rightarrow> string \<Rightarrow> 'o \<Rightarrow> ('w, 'o) cli_act) \<Rightarrow> string list \<Rightarrow> 'o \<Rightarrow> ('w, 'o) cli_act" where
  "parse_pairs step (option # value # rest) options =
     bindM (step option value options) (parse_pairs step rest)"
| "parse_pairs step _ options = ret options"

definition parse_file_command_options :: "string list \<Rightarrow> ('w, file_command_options) cli_act" where
  "parse_file_command_options argv =
     (let requires_output = argv ! 1 \<noteq> ''verify-file'' in
     thenM (throw_if (length argv < (if requires_output then 8 else 6) \<or> (length argv - 2) mod 2 \<noteq> 0)
             (std_exception (file_command_usage (argv ! 1))))
    (bindM (parse_pairs (file_command_options_step requires_output) (drop 2 argv) file_command_options_default) (\<lambda>options.
     thenM (throw_if (\<not> fc_has_input options \<or> requires_output \<and> \<not> fc_has_output options \<or> \<not> fc_has_key options) (std_exception (file_command_usage (argv ! 1))))
           (ret options))))"

definition parse_password_file_command_options :: "string list \<Rightarrow> ('w, password_file_command_options) cli_act" where
  "parse_password_file_command_options argv =
     (let requires_output = argv ! 1 \<noteq> ''verify-file-password'' in
     thenM (throw_if (length argv < (if requires_output then 8 else 6) \<or> (length argv - 2) mod 2 \<noteq> 0)
             (std_exception (password_file_command_usage (argv ! 1))))
    (bindM (parse_pairs (password_file_command_options_step requires_output) (drop 2 argv) password_file_command_options_default) (\<lambda>options.
     thenM (throw_if (\<not> pf_has_input options \<or> requires_output \<and> \<not> pf_has_output options \<or> \<not> pf_has_password options) (std_exception (password_file_command_usage (argv ! 1))))
           (ret options))))"

definition parse_wrap_key_options :: "string list \<Rightarrow> ('w, wrap_key_options) cli_act" where
  "parse_wrap_key_options argv =
     thenM (throw_if (length argv < 6 \<or> (length argv - 2) mod 2 \<noteq> 0) (std_exception wrap_key_usage))
    (bindM (parse_pairs wrap_key_options_step (drop 2 argv) wrap_key_options_default) (\<lambda>options.
     thenM (throw_if (\<not> wk_has_key options \<or> \<not> wk_has_wrapping_key options) (std_exception wrap_key_usage))
           (ret options)))"

definition parse_unwrap_key_options :: "string list \<Rightarrow> ('w, unwrap_key_options) cli_act" where
  "parse_unwrap_key_options argv =
     thenM (throw_if (length argv < 6 \<or> (length argv - 2) mod 2 \<noteq> 0) (std_exception unwrap_key_usage))
    (bindM (parse_pairs unwrap_key_options_step (drop 2 argv) unwrap_key_options_default) (\<lambda>options.
     thenM (throw_if (\<not> uk_has_packet options \<or> \<not> uk_has_wrapping_key options) (std_exception unwrap_key_usage))
           (ret options)))"

definition parse_encrypt_options :: "string list \<Rightarrow> ('w, encrypt_options) cli_act" where
  "parse_encrypt_options argv =
     thenM (throw_if (length argv < 6 \<or> (length argv - 2) mod 2 \<noteq> 0) (std_exception (packet_command_usage (argv ! 1))))
    (bindM (parse_pairs encrypt_options_step (drop 2 argv) encrypt_options_default) (\<lambda>options.
     thenM (throw_if (\<not> en_has_plaintext options \<or> \<not> en_has_key options) (std_exception (packet_command_usage (argv ! 1))))
           (ret options)))"

definition parse_decrypt_options :: "string list \<Rightarrow> ('w, decrypt_options) cli_act" where
  "parse_decrypt_options argv =
     thenM (throw_if (length argv < 6 \<or> (length argv - 2) mod 2 \<noteq> 0) (std_exception (packet_command_usage (argv ! 1))))
    (bindM (parse_pairs decrypt_options_step (drop 2 argv) decrypt_options_default) (\<lambda>options.
     thenM (throw_if (\<not> de_has_packet options \<or> \<not> de_has_key options) (std_exception (packet_command_usage (argv ! 1))))
           (ret options)))"

section \<open>Lemmas\<close>

text \<open>The names among the arguments, and how often those of a group occur.\<close>

fun option_names :: "string list \<Rightarrow> string list" where
  "option_names (option # value # rest) = option # option_names rest"
| "option_names _ = []"

definition given :: "string list \<Rightarrow> string list \<Rightarrow> nat" where
  "given argv names = length (filter (\<lambda>option. option \<in> set names) (option_names (drop 2 argv)))"

text \<open>
  When a step takes an option of a group only while the flag of the group is unset, and sets it,
  the flag counts the options.
\<close>

lemma parse_pairs_count:
  assumes step: "\<And>option value options s options' s'. step option value options s = (Inr options', s') \<Longrightarrow>
      of_bool (has options) + of_bool (option \<in> G) = (of_bool (has options') :: nat)"
  shows "parse_pairs step args options s = (Inr options', s') \<Longrightarrow>
    of_bool (has options) + length (filter (\<lambda>option. option \<in> G) (option_names args)) = (of_bool (has options') :: nat)"
proof (induction args arbitrary: options s rule: option_names.induct)
  case (1 option "value" rest)
  from 1(2) obtain options1 s1 where "step option value options s = (Inr options1, s1)"
    and "parse_pairs step rest options1 s1 = (Inr options', s')" by (auto simp: act_InrD)
  with 1(1) [of options1 s1] step [of option "value" options s options1 s1] show ?case
    by (cases "option \<in> G") simp_all
qed auto

text \<open>The same for a table of flags, with an invariant of the record.\<close>

definition counts :: "(('o \<Rightarrow> bool) \<times> string list) list \<Rightarrow> string \<Rightarrow> 'o \<Rightarrow> 'o \<Rightarrow> bool" where
  "counts table option options options' \<longleftrightarrow>
     list_all (\<lambda>(has, names). of_bool (has options) + of_bool (option \<in> set names) = (of_bool (has options') :: nat)) table"

lemma parse_pairs_table:
  assumes step: "\<And>option value options s options' s'. step option value options s = (Inr options', s') \<Longrightarrow>
      counts table option options options' \<and> (I options \<longrightarrow> I options')"
    and run: "parse_pairs step (drop 2 argv) d s = (Inr options, s')"
    and start: "list_all (\<lambda>(has, names). \<not> has d) table" "I d"
  shows "list_all (\<lambda>(has, names). given argv names = of_bool (has options)) table \<and> I options"
proof
  show "list_all (\<lambda>(has, names). given argv names = of_bool (has options)) table"
    unfolding list_all_iff
  proof clarify
    fix has names assume t: "(has, names) \<in> set table"
    then have "\<not> has d" using start(1) by (auto simp: list_all_iff)
    have "of_bool (has o1) + of_bool (option \<in> set names) = (of_bool (has o2) :: nat)"
      if "step option value o1 s1 = (Inr o2, s2)" for option "value" o1 s1 o2 s2
    proof -
      have "\<forall>(has, names) \<in> set table. of_bool (has o1) + of_bool (option \<in> set names) = (of_bool (has o2) :: nat)"
        using step [OF that] by (simp add: counts_def list_all_iff)
      from bspec [OF this t] show ?thesis by simp
    qed
    from parse_pairs_count [of step has "set names", OF this run] \<open>\<not> has d\<close>
    show "given argv names = of_bool (has options)" by (simp add: given_def)
  qed
  have "I d \<Longrightarrow> parse_pairs step args d s = (Inr options, s') \<Longrightarrow> I options" for args d s
  proof (induction args arbitrary: d s rule: option_names.induct)
    case (1 option "value" rest)
    then obtain options1 s1 where "step option value d s = (Inr options1, s1)"
      and "parse_pairs step rest options1 s1 = (Inr options, s')" by (auto simp: act_InrD)
    with 1 step show ?case by blast
  qed auto
  from this [OF start(2) run] show "I options" .
qed

lemma parse_pairs_preserves [preserves_intros]:
  "(\<And>option value options. preserves I (step option value options)) \<Longrightarrow> preserves I (parse_pairs step args options)"
  by (induction step args options rule: parse_pairs.induct) (auto intro!: preserves_intros)

lemma reads_only_packet_source [preserves_intros]: "preserves (reads_only s0) (packet_source option value)"
  unfolding packet_source_def by (intro preserves_intros)

lemma preserves_checks [preserves_intros]:
  "preserves I (reject_duplicate b option)" "preserves I (reject_conflict b message)"
  unfolding reject_duplicate_def reject_conflict_def by (intro preserves_intros)+

lemma reads_only_parsers [preserves_intros]:
  "preserves (reads_only s0) (parse_file_command_options argv)"
  "preserves (reads_only s0) (parse_password_file_command_options argv)"
  "preserves (reads_only s0) (parse_wrap_key_options argv)"
  "preserves (reads_only s0) (parse_unwrap_key_options argv)"
  "preserves (reads_only s0) (parse_encrypt_options argv)"
  "preserves (reads_only s0) (parse_decrypt_options argv)"
  unfolding parse_file_command_options_def parse_password_file_command_options_def parse_wrap_key_options_def
    parse_unwrap_key_options_def parse_encrypt_options_def parse_decrypt_options_def Let_def
    file_command_options_step_def password_file_command_options_step_def wrap_key_options_step_def
    unwrap_key_options_step_def encrypt_options_step_def decrypt_options_step_def
  by (intro preserves_intros)+

lemmas check_defs = reject_duplicate_def reject_conflict_def

text \<open>A step that sets a flag, with a given value or one from a source.\<close>

lemma flag_step [simp]:
  "thenM (throw_if b e) (ret options) s = (Inr options', s') \<longleftrightarrow> \<not> b \<and> options' = options \<and> s' = s"
  by (auto simp: act_InrD)

lemma source_step [simp]:
  "thenM (throw_if b e) (bindM m (\<lambda>v. ret (f v))) s = (Inr options', s') \<longleftrightarrow>
     \<not> b \<and> (\<exists>v. m s = (Inr v, s') \<and> options' = f v)"
  by (auto simp: act_InrD)

lemma if_branch:
  "(if b then m else n) s = r \<Longrightarrow> (b \<Longrightarrow> m s = r \<Longrightarrow> P) \<Longrightarrow> (\<not> b \<Longrightarrow> n s = r \<Longrightarrow> P) \<Longrightarrow> P"
  by (cases b) auto

lemmas step_rules = check_defs thenM_Inr [of _ "thenM _ _"] throw_if_Inr

text \<open>A parser reads files at most, and its result has a property.\<close>

definition parsed :: "('o \<Rightarrow> bool) \<Rightarrow> 'w cli_state \<Rightarrow> (cli_error + 'o) \<times> 'w cli_state \<Rightarrow> bool" where
  "parsed P s = (\<lambda>(r, s'). reads_only s s' \<and> (\<forall>options. r = Inr options \<longrightarrow> P options))"

lemma parsedI:
  assumes "preserves (reads_only s) m" and "\<And>options s'. m s = (Inr options, s') \<Longrightarrow> P options"
  shows "parsed P s (m s)"
  using preservesD [OF assms(1) reads_only_refl] assms(2) by (cases "m s") (auto simp: parsed_def)

lemma parser_Inr:
  assumes "thenM (throw_if b e) (bindM (parse_pairs step args d) (\<lambda>options. thenM (throw_if (missing options) e') (ret options))) s = (Inr options, s')"
  shows "parse_pairs step args d s = (Inr options, s')" and "\<not> missing options"
  using assms by (auto simp: act_InrD)

definition file_command_flags where
  "file_command_flags =
     [(fc_has_input, [''--in'']),
      (fc_has_output, [''--out'']),
      (fc_has_key, [''--key-hex'', ''--key-file'']),
      (fc_has_aad, [''--aad-text'', ''--aad-hex''])]"

lemma file_command_step:
  assumes "file_command_options_step req option value options s = (Inr options', s')"
  shows "counts file_command_flags option options options' \<and> (is_key256 (fc_key options) \<and> (fc_has_output options \<longrightarrow> req) \<longrightarrow> is_key256 (fc_key options') \<and> (fc_has_output options' \<longrightarrow> req))"
  using assms unfolding file_command_options_step_def
  by (elim if_branch disjE; clarsimp simp: counts_def file_command_flags_def step_rules key_sources_Inr)

lemma parsed_file_command:
  "parsed (\<lambda>options. is_key256 (fc_key options) \<and>
       given argv [''--in''] = 1 \<and>
       given argv [''--out''] = of_bool (argv ! 1 \<noteq> ''verify-file'') \<and>
       given argv [''--key-hex'', ''--key-file''] = 1 \<and>
       given argv [''--aad-text'', ''--aad-hex''] = of_bool (fc_has_aad options))
     s (parse_file_command_options argv s)"
proof (rule parsedI [OF reads_only_parsers(1)])
  fix options s' assume "parse_file_command_options argv s = (Inr options, s')"
  note p = parser_Inr [OF this [unfolded parse_file_command_options_def Let_def]]
  have "list_all (\<lambda>(has, names). given argv names = of_bool (has options)) file_command_flags \<and> is_key256 (fc_key options) \<and> (fc_has_output options \<longrightarrow> argv ! 1 \<noteq> ''verify-file'')"
    by (rule parse_pairs_table [OF _ p(1)], erule file_command_step)
      (simp_all add: file_command_options_default_def file_command_flags_def zero_key_def is_key256_def)
  with p(2) show "is_key256 (fc_key options) \<and>
       given argv [''--in''] = 1 \<and>
       given argv [''--out''] = of_bool (argv ! 1 \<noteq> ''verify-file'') \<and>
       given argv [''--key-hex'', ''--key-file''] = 1 \<and>
       given argv [''--aad-text'', ''--aad-hex''] = of_bool (fc_has_aad options)"
    by (auto simp: file_command_flags_def)
qed

definition password_file_command_flags where
  "password_file_command_flags =
     [(pf_has_input, [''--in'']),
      (pf_has_output, [''--out'']),
      (pf_has_password, [''--password-file'']),
      (pf_has_aad, [''--aad-text'', ''--aad-hex''])]"

lemma password_file_command_step:
  assumes "password_file_command_options_step req option value options s = (Inr options', s')"
  shows "counts password_file_command_flags option options options' \<and> ((pf_has_password options \<longrightarrow> pf_password options \<noteq> []) \<and> (pf_has_output options \<longrightarrow> req) \<longrightarrow> (pf_has_password options' \<longrightarrow> pf_password options' \<noteq> []) \<and> (pf_has_output options' \<longrightarrow> req))"
  using assms unfolding password_file_command_options_step_def
  by (elim if_branch disjE; clarsimp simp: counts_def password_file_command_flags_def step_rules dest!: password_from_file_Inr)

lemma parsed_password_file_command:
  "parsed (\<lambda>options. pf_password options \<noteq> [] \<and>
       given argv [''--in''] = 1 \<and>
       given argv [''--out''] = of_bool (argv ! 1 \<noteq> ''verify-file-password'') \<and>
       given argv [''--password-file''] = 1 \<and>
       given argv [''--aad-text'', ''--aad-hex''] = of_bool (pf_has_aad options))
     s (parse_password_file_command_options argv s)"
proof (rule parsedI [OF reads_only_parsers(2)])
  fix options s' assume "parse_password_file_command_options argv s = (Inr options, s')"
  note p = parser_Inr [OF this [unfolded parse_password_file_command_options_def Let_def]]
  have "list_all (\<lambda>(has, names). given argv names = of_bool (has options)) password_file_command_flags \<and> (pf_has_password options \<longrightarrow> pf_password options \<noteq> []) \<and> (pf_has_output options \<longrightarrow> argv ! 1 \<noteq> ''verify-file-password'')"
    by (rule parse_pairs_table [OF _ p(1)], erule password_file_command_step)
      (simp_all add: password_file_command_options_default_def password_file_command_flags_def zero_key_def is_key256_def)
  with p(2) show "pf_password options \<noteq> [] \<and>
       given argv [''--in''] = 1 \<and>
       given argv [''--out''] = of_bool (argv ! 1 \<noteq> ''verify-file-password'') \<and>
       given argv [''--password-file''] = 1 \<and>
       given argv [''--aad-text'', ''--aad-hex''] = of_bool (pf_has_aad options)"
    by (auto simp: password_file_command_flags_def)
qed

definition wrap_key_flags where
  "wrap_key_flags =
     [(wk_has_key, [''--key-hex'', ''--key-file'']),
      (wk_has_wrapping_key, [''--wrapping-key-hex'', ''--wrapping-key-file'']),
      (wk_has_output, [''--out''])]"

lemma wrap_key_step:
  assumes "wrap_key_options_step option value options s = (Inr options', s')"
  shows "counts wrap_key_flags option options options' \<and> (is_key256 (wk_key options) \<and> is_key256 (wk_wrapping_key options) \<longrightarrow> is_key256 (wk_key options') \<and> is_key256 (wk_wrapping_key options'))"
  using assms unfolding wrap_key_options_step_def
  by (elim if_branch disjE; clarsimp simp: counts_def wrap_key_flags_def step_rules key_sources_Inr)

lemma parsed_wrap_key:
  "parsed (\<lambda>options. is_key256 (wk_key options) \<and>
       is_key256 (wk_wrapping_key options) \<and>
       given argv [''--key-hex'', ''--key-file''] = 1 \<and>
       given argv [''--wrapping-key-hex'', ''--wrapping-key-file''] = 1 \<and>
       given argv [''--out''] = of_bool (wk_has_output options))
     s (parse_wrap_key_options argv s)"
proof (rule parsedI [OF reads_only_parsers(3)])
  fix options s' assume "parse_wrap_key_options argv s = (Inr options, s')"
  note p = parser_Inr [OF this [unfolded parse_wrap_key_options_def Let_def]]
  have "list_all (\<lambda>(has, names). given argv names = of_bool (has options)) wrap_key_flags \<and> is_key256 (wk_key options) \<and> is_key256 (wk_wrapping_key options)"
    by (rule parse_pairs_table [OF _ p(1)], erule wrap_key_step)
      (simp_all add: wrap_key_options_default_def wrap_key_flags_def zero_key_def is_key256_def)
  with p(2) show "is_key256 (wk_key options) \<and>
       is_key256 (wk_wrapping_key options) \<and>
       given argv [''--key-hex'', ''--key-file''] = 1 \<and>
       given argv [''--wrapping-key-hex'', ''--wrapping-key-file''] = 1 \<and>
       given argv [''--out''] = of_bool (wk_has_output options)"
    by (auto simp: wrap_key_flags_def)
qed

definition unwrap_key_flags where
  "unwrap_key_flags =
     [(uk_has_packet, [''--packet-hex'', ''--packet-file'']),
      (uk_has_wrapping_key, [''--wrapping-key-hex'', ''--wrapping-key-file'']),
      (uk_has_output, [''--out''])]"

lemma unwrap_key_step:
  assumes "unwrap_key_options_step option value options s = (Inr options', s')"
  shows "counts unwrap_key_flags option options options' \<and> (is_key256 (uk_wrapping_key options) \<longrightarrow> is_key256 (uk_wrapping_key options'))"
  using assms unfolding unwrap_key_options_step_def
  by (elim if_branch disjE; clarsimp simp: counts_def unwrap_key_flags_def step_rules key_sources_Inr)

lemma parsed_unwrap_key:
  "parsed (\<lambda>options. is_key256 (uk_wrapping_key options) \<and>
       given argv [''--packet-hex'', ''--packet-file''] = 1 \<and>
       given argv [''--wrapping-key-hex'', ''--wrapping-key-file''] = 1 \<and>
       given argv [''--out''] = of_bool (uk_has_output options))
     s (parse_unwrap_key_options argv s)"
proof (rule parsedI [OF reads_only_parsers(4)])
  fix options s' assume "parse_unwrap_key_options argv s = (Inr options, s')"
  note p = parser_Inr [OF this [unfolded parse_unwrap_key_options_def Let_def]]
  have "list_all (\<lambda>(has, names). given argv names = of_bool (has options)) unwrap_key_flags \<and> is_key256 (uk_wrapping_key options)"
    by (rule parse_pairs_table [OF _ p(1)], erule unwrap_key_step)
      (simp_all add: unwrap_key_options_default_def unwrap_key_flags_def zero_key_def is_key256_def)
  with p(2) show "is_key256 (uk_wrapping_key options) \<and>
       given argv [''--packet-hex'', ''--packet-file''] = 1 \<and>
       given argv [''--wrapping-key-hex'', ''--wrapping-key-file''] = 1 \<and>
       given argv [''--out''] = of_bool (uk_has_output options)"
    by (auto simp: unwrap_key_flags_def)
qed

definition encrypt_flags where
  "encrypt_flags =
     [(en_has_plaintext, [''--text'', ''--in'']),
      (en_has_key, [''--key-hex'', ''--key-file'']),
      (en_has_aad, [''--aad-text'', ''--aad-hex'']),
      (en_has_output, [''--out''])]"

lemma encrypt_step:
  assumes "encrypt_options_step option value options s = (Inr options', s')"
  shows "counts encrypt_flags option options options' \<and> (is_key256 (en_key options) \<longrightarrow> is_key256 (en_key options'))"
  using assms unfolding encrypt_options_step_def
  by (elim if_branch disjE; clarsimp simp: counts_def encrypt_flags_def step_rules key_sources_Inr)

lemma parsed_encrypt:
  "parsed (\<lambda>options. is_key256 (en_key options) \<and>
       given argv [''--text'', ''--in''] = 1 \<and>
       given argv [''--key-hex'', ''--key-file''] = 1 \<and>
       given argv [''--aad-text'', ''--aad-hex''] = of_bool (en_has_aad options) \<and>
       given argv [''--out''] = of_bool (en_has_output options))
     s (parse_encrypt_options argv s)"
proof (rule parsedI [OF reads_only_parsers(5)])
  fix options s' assume "parse_encrypt_options argv s = (Inr options, s')"
  note p = parser_Inr [OF this [unfolded parse_encrypt_options_def Let_def]]
  have "list_all (\<lambda>(has, names). given argv names = of_bool (has options)) encrypt_flags \<and> is_key256 (en_key options)"
    by (rule parse_pairs_table [OF _ p(1)], erule encrypt_step)
      (simp_all add: encrypt_options_default_def encrypt_flags_def zero_key_def is_key256_def)
  with p(2) show "is_key256 (en_key options) \<and>
       given argv [''--text'', ''--in''] = 1 \<and>
       given argv [''--key-hex'', ''--key-file''] = 1 \<and>
       given argv [''--aad-text'', ''--aad-hex''] = of_bool (en_has_aad options) \<and>
       given argv [''--out''] = of_bool (en_has_output options)"
    by (auto simp: encrypt_flags_def)
qed

definition decrypt_flags where
  "decrypt_flags =
     [(de_has_packet, [''--packet-hex'', ''--packet-file'']),
      (de_has_key, [''--key-hex'', ''--key-file'']),
      (de_has_aad, [''--aad-text'', ''--aad-hex'']),
      (de_has_output, [''--out''])]"

lemma decrypt_step:
  assumes "decrypt_options_step option value options s = (Inr options', s')"
  shows "counts decrypt_flags option options options' \<and> (is_key256 (de_key options) \<longrightarrow> is_key256 (de_key options'))"
  using assms unfolding decrypt_options_step_def
  by (elim if_branch disjE; clarsimp simp: counts_def decrypt_flags_def step_rules key_sources_Inr)

lemma parsed_decrypt:
  "parsed (\<lambda>options. is_key256 (de_key options) \<and>
       given argv [''--packet-hex'', ''--packet-file''] = 1 \<and>
       given argv [''--key-hex'', ''--key-file''] = 1 \<and>
       given argv [''--aad-text'', ''--aad-hex''] = of_bool (de_has_aad options) \<and>
       given argv [''--out''] = of_bool (de_has_output options))
     s (parse_decrypt_options argv s)"
proof (rule parsedI [OF reads_only_parsers(6)])
  fix options s' assume "parse_decrypt_options argv s = (Inr options, s')"
  note p = parser_Inr [OF this [unfolded parse_decrypt_options_def Let_def]]
  have "list_all (\<lambda>(has, names). given argv names = of_bool (has options)) decrypt_flags \<and> is_key256 (de_key options)"
    by (rule parse_pairs_table [OF _ p(1)], erule decrypt_step)
      (simp_all add: decrypt_options_default_def decrypt_flags_def zero_key_def is_key256_def)
  with p(2) show "is_key256 (de_key options) \<and>
       given argv [''--packet-hex'', ''--packet-file''] = 1 \<and>
       given argv [''--key-hex'', ''--key-file''] = 1 \<and>
       given argv [''--aad-text'', ''--aad-hex''] = of_bool (de_has_aad options) \<and>
       given argv [''--out''] = of_bool (de_has_output options)"
    by (auto simp: decrypt_flags_def)
qed

text \<open>An output is the standard output only where the arguments say so.\<close>

fun argument_pairs :: "string list \<Rightarrow> (string \<times> string) list" where
  "argument_pairs (option # value # rest) = (option, value) # argument_pairs rest"
| "argument_pairs _ = []"

lemma parse_pairs_mark:
  assumes step: "\<And>option value options s options' s'. step option value options s = (Inr options', s') \<Longrightarrow>
      marked options' \<Longrightarrow> marked options \<or> (option, value) \<in> X"
  shows "parse_pairs step args options s = (Inr options', s') \<Longrightarrow> marked options' \<Longrightarrow>
    marked options \<or> set (argument_pairs args) \<inter> X \<noteq> {}"
proof (induction args arbitrary: options s rule: argument_pairs.induct)
  case (1 option "value" rest)
  from 1(2) obtain options1 s1 where a: "step option value options s = (Inr options1, s1)"
    and b: "parse_pairs step rest options1 s1 = (Inr options', s')" by (auto simp: act_InrD)
  from 1(1) [OF b 1(3)] step [OF a] show ?case by auto
qed auto

lemma output_is_stdout_given:
  "parse_file_command_options argv s = (Inr f, s') \<Longrightarrow> fc_output_is_stdout f \<Longrightarrow>
     (''--out'', ''-'') \<in> set (argument_pairs (drop 2 argv))"
  "parse_password_file_command_options argv s = (Inr q, s') \<Longrightarrow> pf_output_is_stdout q \<Longrightarrow>
     (''--out'', ''-'') \<in> set (argument_pairs (drop 2 argv))"
proof -
  assume "parse_file_command_options argv s = (Inr f, s')" and m: "fc_output_is_stdout f"
  note run = parser_Inr(1) [OF this(1) [unfolded parse_file_command_options_def Let_def]]
  have "fc_output_is_stdout file_command_options_default \<or> set (argument_pairs (drop 2 argv)) \<inter> {(''--out'', ''-'')} \<noteq> {}"
    by (rule parse_pairs_mark [OF _ run, where marked = fc_output_is_stdout, OF _ m], unfold file_command_options_step_def,
      elim if_branch disjE; clarsimp simp: step_rules is_standard_stream_marker_def)
  then show "(''--out'', ''-'') \<in> set (argument_pairs (drop 2 argv))" by (simp add: file_command_options_default_def)
next
  assume "parse_password_file_command_options argv s = (Inr q, s')" and m: "pf_output_is_stdout q"
  note run = parser_Inr(1) [OF this(1) [unfolded parse_password_file_command_options_def Let_def]]
  have "pf_output_is_stdout password_file_command_options_default \<or> set (argument_pairs (drop 2 argv)) \<inter> {(''--out'', ''-'')} \<noteq> {}"
    by (rule parse_pairs_mark [OF _ run, where marked = pf_output_is_stdout, OF _ m], unfold password_file_command_options_step_def,
      elim if_branch disjE; clarsimp simp: step_rules is_standard_stream_marker_def)
  then show "(''--out'', ''-'') \<in> set (argument_pairs (drop 2 argv))" by (simp add: password_file_command_options_default_def)
qed

end
