(* ===== verification/Cli_Values.thy ===== *)
theory Cli_Values
  imports Cli_Options
begin

text \<open>
  \<^verbatim>\<open>src/cli/commands.cpp\<close>, what the parsers of the options return: every argument is an option of
  the command, and the fields hold what the arguments say.
\<close>

section \<open>Arguments and fields\<close>

text \<open>
  One predicate per kind of command: the option is one of the command's, its flag is set, and its field holds the
  value, converted as the option says. The content of a file that an option names is not described.
\<close>

definition file_command_value :: "string \<Rightarrow> string \<Rightarrow> file_command_options \<Rightarrow> bool" where
  "file_command_value option value options \<longleftrightarrow>
     (if option = ''--in'' then fc_has_input options \<and> fc_input options = value \<and> (fc_input_is_stdin options \<longleftrightarrow> value = ''-'')
      else if option = ''--out'' then fc_has_output options \<and> fc_output options = value \<and> (fc_output_is_stdout options \<longleftrightarrow> value = ''-'')
      else if option = ''--key-hex'' then fc_has_key options \<and> hex_decode value = Inr (fc_key options)
      else if option = ''--key-file'' then fc_has_key options
      else if option = ''--aad-text'' then fc_has_aad options \<and> fc_aad options = bytes_from_text value
      else if option = ''--aad-hex'' then fc_has_aad options \<and> hex_decode value = Inr (fc_aad options)
      else False)"

definition password_file_command_value :: "string \<Rightarrow> string \<Rightarrow> password_file_command_options \<Rightarrow> bool" where
  "password_file_command_value option value options \<longleftrightarrow>
     (if option = ''--in'' then pf_has_input options \<and> pf_input options = value \<and> (pf_input_is_stdin options \<longleftrightarrow> value = ''-'')
      else if option = ''--out'' then pf_has_output options \<and> pf_output options = value \<and> (pf_output_is_stdout options \<longleftrightarrow> value = ''-'')
      else if option = ''--password-file'' then pf_has_password options
      else if option = ''--aad-text'' then pf_has_aad options \<and> pf_aad options = bytes_from_text value
      else if option = ''--aad-hex'' then pf_has_aad options \<and> hex_decode value = Inr (pf_aad options)
      else False)"

definition wrap_key_value :: "string \<Rightarrow> string \<Rightarrow> wrap_key_options \<Rightarrow> bool" where
  "wrap_key_value option value options \<longleftrightarrow>
     (if option = ''--key-hex'' then wk_has_key options \<and> hex_decode value = Inr (wk_key options)
      else if option = ''--key-file'' then wk_has_key options
      else if option = ''--wrapping-key-hex'' then wk_has_wrapping_key options \<and> hex_decode value = Inr (wk_wrapping_key options)
      else if option = ''--wrapping-key-file'' then wk_has_wrapping_key options
      else if option = ''--out'' then wk_has_output options \<and> wk_output options = value
      else False)"

definition unwrap_key_value :: "string \<Rightarrow> string \<Rightarrow> unwrap_key_options \<Rightarrow> bool" where
  "unwrap_key_value option value options \<longleftrightarrow>
     (if option = ''--packet-hex'' then uk_has_packet options \<and> hex_decode value = Inr (uk_packet options)
      else if option = ''--packet-file'' then uk_has_packet options
      else if option = ''--wrapping-key-hex'' then uk_has_wrapping_key options \<and> hex_decode value = Inr (uk_wrapping_key options)
      else if option = ''--wrapping-key-file'' then uk_has_wrapping_key options
      else if option = ''--out'' then uk_has_output options \<and> uk_output options = value
      else False)"

definition encrypt_value :: "string \<Rightarrow> string \<Rightarrow> encrypt_options \<Rightarrow> bool" where
  "encrypt_value option value options \<longleftrightarrow>
     (if option = ''--text'' then en_has_plaintext options \<and> en_plaintext options = bytes_from_text value
      else if option = ''--in'' then en_has_plaintext options
      else if option = ''--key-hex'' then en_has_key options \<and> hex_decode value = Inr (en_key options)
      else if option = ''--key-file'' then en_has_key options
      else if option = ''--aad-text'' then en_has_aad options \<and> en_aad options = bytes_from_text value
      else if option = ''--aad-hex'' then en_has_aad options \<and> hex_decode value = Inr (en_aad options)
      else if option = ''--out'' then en_has_output options \<and> en_output options = value
      else False)"

definition decrypt_value :: "string \<Rightarrow> string \<Rightarrow> decrypt_options \<Rightarrow> bool" where
  "decrypt_value option value options \<longleftrightarrow>
     (if option = ''--packet-hex'' then de_has_packet options \<and> hex_decode value = Inr (de_packet options)
      else if option = ''--packet-file'' then de_has_packet options
      else if option = ''--key-hex'' then de_has_key options \<and> hex_decode value = Inr (de_key options)
      else if option = ''--key-file'' then de_has_key options
      else if option = ''--aad-text'' then de_has_aad options \<and> de_aad options = bytes_from_text value
      else if option = ''--aad-hex'' then de_has_aad options \<and> hex_decode value = Inr (de_aad options)
      else if option = ''--out'' then de_has_output options \<and> de_output options = value
      else False)"

text \<open>The loop keeps what its steps have established.\<close>

lemma parse_pairs_values:
  assumes step: "\<And>option value options s options' s'. step option value options s = (Inr options', s') \<Longrightarrow>
      K option value options' \<and> (\<forall>option' value'. K option' value' options \<longrightarrow> K option' value' options') \<and> (I options \<longrightarrow> I options')"
  shows "parse_pairs step args d s = (Inr options, s') \<Longrightarrow> I d \<Longrightarrow>
    list_all (\<lambda>(option, value). K option value options) (argument_pairs args) \<and> I options \<and>
    (\<forall>option' value'. K option' value' d \<longrightarrow> K option' value' options)"
proof (induction args arbitrary: d s rule: argument_pairs.induct)
  case (1 option "value" rest)
  from 1(2) obtain options1 s1 where a: "step option value d s = (Inr options1, s1)"
    and b: "parse_pairs step rest options1 s1 = (Inr options, s')" by (auto simp: act_InrD)
  from step [OF a] 1(3) have "I options1" by blast
  with 1(1) [OF b] step [OF a] show ?case by simp
qed auto

text \<open>The same for a parser, with additional data that is empty unless it is given.\<close>

definition all_values :: "(string \<Rightarrow> string \<Rightarrow> 'o \<Rightarrow> bool) \<Rightarrow> string list \<Rightarrow> 'o \<Rightarrow> bool" where
  "all_values K argv options \<longleftrightarrow> list_all (\<lambda>(option, value). K option value options) (argument_pairs (drop 2 argv))"

lemma parsed_and:
  assumes "parsed P s r" and "\<And>options s'. r = (Inr options, s') \<Longrightarrow> Q options"
  shows "parsed (\<lambda>options. P options \<and> Q options) s r"
  using assms by (auto simp: parsed_def)

section \<open>The steps\<close>

lemma library_result_Inr: "library_result r s = (Inr a, s') \<longleftrightarrow> r = Inr a \<and> s' = s"
  by (cases r) (auto simp: library_result_def)

lemmas source_defs = key_from_option_def wrapping_key_from_option_def aad_from_option_def packet_source_def library_result_Inr is_standard_stream_marker_def

lemma file_command_values_step:
  assumes "file_command_options_step req option value options s = (Inr options', s')"
  shows "file_command_value option value options' \<and>
    (\<forall>option' value'. file_command_value option' value' options \<longrightarrow> file_command_value option' value' options') \<and> (fc_has_aad options \<or> fc_aad options = [] \<longrightarrow> fc_has_aad options' \<or> fc_aad options' = [])"
  using assms unfolding file_command_options_step_def
  by (elim if_branch disjE; clarsimp simp: file_command_value_def step_rules source_defs dest!: key_from_hex_Inr)

lemma password_file_command_values_step:
  assumes "password_file_command_options_step req option value options s = (Inr options', s')"
  shows "password_file_command_value option value options' \<and>
    (\<forall>option' value'. password_file_command_value option' value' options \<longrightarrow> password_file_command_value option' value' options') \<and> (pf_has_aad options \<or> pf_aad options = [] \<longrightarrow> pf_has_aad options' \<or> pf_aad options' = [])"
  using assms unfolding password_file_command_options_step_def
  by (elim if_branch disjE; clarsimp simp: password_file_command_value_def step_rules source_defs dest!: key_from_hex_Inr)

lemma wrap_key_values_step:
  assumes "wrap_key_options_step option value options s = (Inr options', s')"
  shows "wrap_key_value option value options' \<and>
    (\<forall>option' value'. wrap_key_value option' value' options \<longrightarrow> wrap_key_value option' value' options') \<and> (True \<longrightarrow> True)"
  using assms unfolding wrap_key_options_step_def
  by (elim if_branch disjE; clarsimp simp: wrap_key_value_def step_rules source_defs dest!: key_from_hex_Inr)

lemma unwrap_key_values_step:
  assumes "unwrap_key_options_step option value options s = (Inr options', s')"
  shows "unwrap_key_value option value options' \<and>
    (\<forall>option' value'. unwrap_key_value option' value' options \<longrightarrow> unwrap_key_value option' value' options') \<and> (True \<longrightarrow> True)"
  using assms unfolding unwrap_key_options_step_def
  by (elim if_branch disjE; clarsimp simp: unwrap_key_value_def step_rules source_defs dest!: key_from_hex_Inr)

lemma encrypt_values_step:
  assumes "encrypt_options_step option value options s = (Inr options', s')"
  shows "encrypt_value option value options' \<and>
    (\<forall>option' value'. encrypt_value option' value' options \<longrightarrow> encrypt_value option' value' options') \<and> (en_has_aad options \<or> en_aad options = [] \<longrightarrow> en_has_aad options' \<or> en_aad options' = [])"
  using assms unfolding encrypt_options_step_def
  by (elim if_branch disjE; clarsimp simp: encrypt_value_def step_rules source_defs dest!: key_from_hex_Inr)

lemma decrypt_values_step:
  assumes "decrypt_options_step option value options s = (Inr options', s')"
  shows "decrypt_value option value options' \<and>
    (\<forall>option' value'. decrypt_value option' value' options \<longrightarrow> decrypt_value option' value' options') \<and> (de_has_aad options \<or> de_aad options = [] \<longrightarrow> de_has_aad options' \<or> de_aad options' = [])"
  using assms unfolding decrypt_options_step_def
  by (elim if_branch disjE; clarsimp simp: decrypt_value_def step_rules source_defs dest!: key_from_hex_Inr)

section \<open>The parsers\<close>

lemma file_command_values:
  assumes "parse_file_command_options argv s = (Inr options, s')"
  shows "all_values file_command_value argv options \<and> (fc_has_aad options \<or> fc_aad options = [])"
proof -
  note run = parser_Inr(1) [OF assms [unfolded parse_file_command_options_def Let_def]]
  have "list_all (\<lambda>(option, value). file_command_value option value options) (argument_pairs (drop 2 argv)) \<and> (\<lambda>options. fc_has_aad options \<or> fc_aad options = []) options \<and>
      (\<forall>option' value'. file_command_value option' value' file_command_options_default \<longrightarrow> file_command_value option' value' options)"
    by (rule parse_pairs_values [where I = "\<lambda>options. fc_has_aad options \<or> fc_aad options = []", OF _ run], erule file_command_values_step) (simp add: file_command_options_default_def)
  then show ?thesis by (simp add: all_values_def)
qed

lemma password_file_command_values:
  assumes "parse_password_file_command_options argv s = (Inr options, s')"
  shows "all_values password_file_command_value argv options \<and> (pf_has_aad options \<or> pf_aad options = [])"
proof -
  note run = parser_Inr(1) [OF assms [unfolded parse_password_file_command_options_def Let_def]]
  have "list_all (\<lambda>(option, value). password_file_command_value option value options) (argument_pairs (drop 2 argv)) \<and> (\<lambda>options. pf_has_aad options \<or> pf_aad options = []) options \<and>
      (\<forall>option' value'. password_file_command_value option' value' password_file_command_options_default \<longrightarrow> password_file_command_value option' value' options)"
    by (rule parse_pairs_values [where I = "\<lambda>options. pf_has_aad options \<or> pf_aad options = []", OF _ run], erule password_file_command_values_step) (simp add: password_file_command_options_default_def)
  then show ?thesis by (simp add: all_values_def)
qed

lemma wrap_key_values:
  assumes "parse_wrap_key_options argv s = (Inr options, s')"
  shows "all_values wrap_key_value argv options"
proof -
  note run = parser_Inr(1) [OF assms [unfolded parse_wrap_key_options_def Let_def]]
  have "list_all (\<lambda>(option, value). wrap_key_value option value options) (argument_pairs (drop 2 argv)) \<and> (\<lambda>_. True) options \<and>
      (\<forall>option' value'. wrap_key_value option' value' wrap_key_options_default \<longrightarrow> wrap_key_value option' value' options)"
    by (rule parse_pairs_values [where I = "\<lambda>_. True", OF _ run], erule wrap_key_values_step) (simp add: wrap_key_options_default_def)
  then show ?thesis by (simp add: all_values_def)
qed

lemma unwrap_key_values:
  assumes "parse_unwrap_key_options argv s = (Inr options, s')"
  shows "all_values unwrap_key_value argv options"
proof -
  note run = parser_Inr(1) [OF assms [unfolded parse_unwrap_key_options_def Let_def]]
  have "list_all (\<lambda>(option, value). unwrap_key_value option value options) (argument_pairs (drop 2 argv)) \<and> (\<lambda>_. True) options \<and>
      (\<forall>option' value'. unwrap_key_value option' value' unwrap_key_options_default \<longrightarrow> unwrap_key_value option' value' options)"
    by (rule parse_pairs_values [where I = "\<lambda>_. True", OF _ run], erule unwrap_key_values_step) (simp add: unwrap_key_options_default_def)
  then show ?thesis by (simp add: all_values_def)
qed

lemma encrypt_values:
  assumes "parse_encrypt_options argv s = (Inr options, s')"
  shows "all_values encrypt_value argv options \<and> (en_has_aad options \<or> en_aad options = [])"
proof -
  note run = parser_Inr(1) [OF assms [unfolded parse_encrypt_options_def Let_def]]
  have "list_all (\<lambda>(option, value). encrypt_value option value options) (argument_pairs (drop 2 argv)) \<and> (\<lambda>options. en_has_aad options \<or> en_aad options = []) options \<and>
      (\<forall>option' value'. encrypt_value option' value' encrypt_options_default \<longrightarrow> encrypt_value option' value' options)"
    by (rule parse_pairs_values [where I = "\<lambda>options. en_has_aad options \<or> en_aad options = []", OF _ run], erule encrypt_values_step) (simp add: encrypt_options_default_def)
  then show ?thesis by (simp add: all_values_def)
qed

lemma decrypt_values:
  assumes "parse_decrypt_options argv s = (Inr options, s')"
  shows "all_values decrypt_value argv options \<and> (de_has_aad options \<or> de_aad options = [])"
proof -
  note run = parser_Inr(1) [OF assms [unfolded parse_decrypt_options_def Let_def]]
  have "list_all (\<lambda>(option, value). decrypt_value option value options) (argument_pairs (drop 2 argv)) \<and> (\<lambda>options. de_has_aad options \<or> de_aad options = []) options \<and>
      (\<forall>option' value'. decrypt_value option' value' decrypt_options_default \<longrightarrow> decrypt_value option' value' options)"
    by (rule parse_pairs_values [where I = "\<lambda>options. de_has_aad options \<or> de_aad options = []", OF _ run], erule decrypt_values_step) (simp add: decrypt_options_default_def)
  then show ?thesis by (simp add: all_values_def)
qed

section \<open>Properties\<close>

text \<open>
  C24: What the six option parsers accept, for every argument list and every state of the files they
  read. An accepted command line names every required source exactly once (one of the
  alternatives, never two), every optional one at most once, with the flag telling which; a verifying command has no
  output; every key has 32 bytes and a password is never empty. No argument is anything else: each is an option of
  the command with its value, which the result holds as it is, or decoded (hexadecimal keys, packets and
  additional data); additional data that is not given is empty. Parsing changes nothing but reading files.
\<close>

theorem parsed_options:
  "parsed (\<lambda>options. (is_key256 (fc_key options) \<and>
       given argv [''--in''] = 1 \<and>
       given argv [''--out''] = of_bool (argv ! 1 \<noteq> ''verify-file'') \<and>
       given argv [''--key-hex'', ''--key-file''] = 1 \<and>
       given argv [''--aad-text'', ''--aad-hex''] = of_bool (fc_has_aad options)) \<and>
       all_values file_command_value argv options \<and>
       (fc_has_aad options \<or> fc_aad options = []))
     s (parse_file_command_options argv s) \<and>
   parsed (\<lambda>options. (pf_password options \<noteq> [] \<and>
       given argv [''--in''] = 1 \<and>
       given argv [''--out''] = of_bool (argv ! 1 \<noteq> ''verify-file-password'') \<and>
       given argv [''--password-file''] = 1 \<and>
       given argv [''--aad-text'', ''--aad-hex''] = of_bool (pf_has_aad options)) \<and>
       all_values password_file_command_value argv options \<and>
       (pf_has_aad options \<or> pf_aad options = []))
     s (parse_password_file_command_options argv s) \<and>
   parsed (\<lambda>options. (is_key256 (wk_key options) \<and>
       is_key256 (wk_wrapping_key options) \<and>
       given argv [''--key-hex'', ''--key-file''] = 1 \<and>
       given argv [''--wrapping-key-hex'', ''--wrapping-key-file''] = 1 \<and>
       given argv [''--out''] = of_bool (wk_has_output options)) \<and>
       all_values wrap_key_value argv options)
     s (parse_wrap_key_options argv s) \<and>
   parsed (\<lambda>options. (is_key256 (uk_wrapping_key options) \<and>
       given argv [''--packet-hex'', ''--packet-file''] = 1 \<and>
       given argv [''--wrapping-key-hex'', ''--wrapping-key-file''] = 1 \<and>
       given argv [''--out''] = of_bool (uk_has_output options)) \<and>
       all_values unwrap_key_value argv options)
     s (parse_unwrap_key_options argv s) \<and>
   parsed (\<lambda>options. (is_key256 (en_key options) \<and>
       given argv [''--text'', ''--in''] = 1 \<and>
       given argv [''--key-hex'', ''--key-file''] = 1 \<and>
       given argv [''--aad-text'', ''--aad-hex''] = of_bool (en_has_aad options) \<and>
       given argv [''--out''] = of_bool (en_has_output options)) \<and>
       all_values encrypt_value argv options \<and>
       (en_has_aad options \<or> en_aad options = []))
     s (parse_encrypt_options argv s) \<and>
   parsed (\<lambda>options. (is_key256 (de_key options) \<and>
       given argv [''--packet-hex'', ''--packet-file''] = 1 \<and>
       given argv [''--key-hex'', ''--key-file''] = 1 \<and>
       given argv [''--aad-text'', ''--aad-hex''] = of_bool (de_has_aad options) \<and>
       given argv [''--out''] = of_bool (de_has_output options)) \<and>
       all_values decrypt_value argv options \<and>
       (de_has_aad options \<or> de_aad options = []))
     s (parse_decrypt_options argv s)"
  by (intro conjI; rule parsed_and,
      rule parsed_file_command parsed_password_file_command parsed_wrap_key parsed_unwrap_key parsed_encrypt parsed_decrypt,
      erule file_command_values password_file_command_values wrap_key_values unwrap_key_values encrypt_values decrypt_values)

end
