(* ===== verification/Cli_Output.thy ===== *)
theory Cli_Output
  imports Cli_Options
begin

text \<open>
  \<^verbatim>\<open>src/cli/commands.cpp\<close>, writing files: a new output is written under a temporary
  name and linked to its own, and the commands that stream between files and the standard streams.
\<close>

section \<open>std::ofstream\<close>

text \<open>
  The stream and the file it is open on. What it has accepted is in the file once it is closed;
  when closing fails, some part of it.
\<close>

record ofstream =
  obuf :: ostream
  otarget :: "file_id option"

definition ofstream_default :: ofstream where
  "ofstream_default = \<lparr>obuf = ostream_empty, otarget = None\<rparr>"

text \<open>
  \<^verbatim>\<open>open(path, std::ios::trunc)\<close>: creates the file or empties the one that is
  there; the fail bit if that does not work or the stream is open already.
\<close>

definition ofstream_open :: "path \<Rightarrow> ofstream \<times> file_system \<Rightarrow> ofstream \<times> file_system" where
  "ofstream_open p = (\<lambda>(out, fs).
     let t = clock fs;
         empty = ostream_empty\<lparr>room := stream_limit fs t\<rparr>
     in case syscall fs of (failed, fs1) \<Rightarrow>
       if failed \<or> otarget out \<noteq> None then (out\<lparr>obuf := (obuf out)\<lparr>ofail := True\<rparr>\<rparr>, fs1)
       else case entries fs1 p of
           None \<Rightarrow>
             (\<lparr>obuf = empty, otarget = Some (Own (next_own fs1))\<rparr>,
              (new_file p [] (Own (next_own fs1)) fs1)\<lparr>next_own := Suc (next_own fs1)\<rparr>)
         | Some n \<Rightarrow>
             (\<lparr>obuf = empty, otarget = Some n\<rparr>, fs1\<lparr>contents := (contents fs1)(n := [])\<rparr>))"

definition ofstream_close :: "ofstream \<times> file_system \<Rightarrow> ofstream \<times> file_system" where
  "ofstream_close = (\<lambda>(out, fs).
     case otarget out of
       None \<Rightarrow> (out\<lparr>obuf := (obuf out)\<lparr>ofail := True\<rparr>\<rparr>, fs)
     | Some n \<Rightarrow>
         let t = clock fs
         in case syscall fs of (failed, fs1) \<Rightarrow>
           (\<lparr>obuf = (obuf out)\<lparr>ofail := ofail (obuf out) \<or> failed\<rparr>, otarget = None\<rparr>,
            fs1\<lparr>contents := (contents fs1)(n :=
              if failed then take (drains fs t) (written (obuf out)) else written (obuf out))\<rparr>))"

section \<open>Local variables\<close>

text \<open>
  The locals of \<^verbatim>\<open>write_new_output_file\<close> and, with a flag,
  of \<^verbatim>\<open>run_streaming_file_command\<close>.
\<close>

record output_locals =
  out_stream :: ofstream
  out_temp :: path

record streaming_locals = output_locals +
  uses_temp_output :: bool

definition with_locals :: "'l \<Rightarrow> (cli_error, 'l \<times> 'w cli_state, 'a) act \<Rightarrow> ('w, 'a) cli_act" where
  "with_locals l m = (\<lambda>s. case m (l, s) of (r, (_, s')) \<Rightarrow> (r, s'))"

definition on_stream ::
  "(ofstream \<times> file_system \<Rightarrow> ofstream \<times> file_system) \<Rightarrow>
   'l output_locals_scheme \<times> 'w cli_state \<Rightarrow> 'l output_locals_scheme \<times> 'w cli_state" where
  "on_stream f = (\<lambda>(l, (c, w)). case f (out_stream l, cli_fs c) of (out, fs) \<Rightarrow>
     (l\<lparr>out_stream := out\<rparr>, (c\<lparr>cli_fs := fs\<rparr>, w)))"

text \<open>\<^verbatim>\<open>if (!out) throw std::runtime_error("failed to write output file");\<close>\<close>

definition check_stream :: "(cli_error, 'l output_locals_scheme \<times> 'w cli_state, unit) act" where
  "check_stream =
     bindM (gets (\<lambda>(l, s). ofail (obuf (out_stream l)))) (\<lambda>failed.
     throw_if failed (std_exception ''failed to write output file''))"

section \<open>The code\<close>

definition ensure_output_file_does_not_exist :: "path \<Rightarrow> ('w, unit) cli_act" where
  "ensure_output_file_does_not_exist p =
     bindM (on_files (fs_exists p)) (\<lambda>r.
     case r of
       None \<Rightarrow> bindM (gets (\<lambda>(c, w). status_what c p)) (\<lambda>message. throw (std_exception message))
     | Some exists \<Rightarrow> throw_if exists (std_exception ''Output file already exists''))"

definition open_cli_input_file :: "path \<Rightarrow> ('w, istream) cli_act" where
  "open_cli_input_file p =
     bindM (on_files (ifstream_open p)) (\<lambda>r.
     case r of
       None \<Rightarrow> throw (std_exception ''failed to open input file'')
     | Some input \<Rightarrow> ret input)"

text \<open>The suffix is spelled out in the code again; it is the one of \<^verbatim>\<open>src/file_io.cpp\<close>.\<close>

definition temporary_output_path_for :: "('w, 'c, 'd) openssl \<Rightarrow> path \<Rightarrow> ('w, path) cli_act" where
  "temporary_output_path_for ossl p =
     bindM (library (random_bytes ossl 16)) (\<lambda>token. ret (p @ temp_suffix token))"

definition remove_file_quietly :: "path \<Rightarrow> ('w, unit) cli_act" where
  "remove_file_quietly p = on_files (\<lambda>fs. ((), fs_remove p fs))"

text \<open>One attempt per recursion.\<close>

primrec open_output_attempts ::
  "('w, 'c, 'd) openssl \<Rightarrow> nat \<Rightarrow> path \<Rightarrow> (cli_error, 'l output_locals_scheme \<times> 'w cli_state, unit) act" where
  "open_output_attempts ossl 0 p = throw (std_exception ''failed to open output file'')"
| "open_output_attempts ossl (Suc n) p =
     bindM (on_snd (temporary_output_path_for ossl p)) (\<lambda>temp_path.
     thenM (modify (\<lambda>(l, s). (l\<lparr>out_temp := temp_path\<rparr>, s)))
    (bindM (on_snd (on_files (fs_exists temp_path))) (\<lambda>r.
     if r \<noteq> Some False then open_output_attempts ossl n p
     else thenM (modify (on_stream (ofstream_open temp_path)))
         (bindM (gets (\<lambda>(l, s). ofail (obuf (out_stream l)))) (\<lambda>failed.
          if \<not> failed then ret () else open_output_attempts ossl n p)))))"

definition open_cli_output_file ::
  "('w, 'c, 'd) openssl \<Rightarrow> path \<Rightarrow> (cli_error, 'l output_locals_scheme \<times> 'w cli_state, unit) act" where
  "open_cli_output_file ossl p = open_output_attempts ossl 32 p"

definition commit_output_file :: "path \<Rightarrow> path \<Rightarrow> ('w, unit) cli_act" where
  "commit_output_file temp_path p =
     bindM (on_files (sys_link temp_path p)) (\<lambda>ec.
     if ec = None then remove_file_quietly temp_path
     else bindM (on_files (fs_exists p)) (\<lambda>r.
          if r = Some True then throw (std_exception ''Output file already exists'')
          else throw (std_exception ''failed to write output file'')))"

text \<open>Close the stream if it is open, and remove the temporary file under a condition.\<close>

definition abandon ::
  "('l output_locals_scheme \<Rightarrow> bool) \<Rightarrow> 'l output_locals_scheme \<times> 'w cli_state \<Rightarrow> 'l output_locals_scheme \<times> 'w cli_state" where
  "abandon removes = (\<lambda>(l, s).
     let (l1, s1) = (if otarget (out_stream l) \<noteq> None then on_stream ofstream_close (l, s) else (l, s))
     in (l1, if removes l1 then snd (remove_file_quietly (out_temp l1) s1) else s1))"

definition write_new_output_file ::
  "('w, 'c, 'd) openssl \<Rightarrow> path \<Rightarrow> (cli_error, ostream, unit) act \<Rightarrow> ('w, unit) cli_act" where
  "write_new_output_file ossl p writer =
     thenM (ensure_output_file_does_not_exist p)
    (with_locals \<lparr>out_stream = ofstream_default, out_temp = []\<rparr>
    (on_throw
      (thenM (open_cli_output_file ossl p)
      (thenM (\<lambda>(l, s). case writer (obuf (out_stream l)) of (r, o1) \<Rightarrow>
                (r, (l\<lparr>out_stream := (out_stream l)\<lparr>obuf := o1\<rparr>\<rparr>, s)))
      (thenM check_stream
      (thenM (modify (on_stream ofstream_close))
      (thenM check_stream
      (bindM (gets (\<lambda>(l, s). out_temp l)) (\<lambda>temp_path.
        on_snd (commit_output_file temp_path p))))))))
      (abandon (\<lambda>l. out_temp l \<noteq> []))))"

definition write_binary_file :: "('w, 'c, 'd) openssl \<Rightarrow> path \<Rightarrow> bytes \<Rightarrow> ('w, unit) cli_act" where
  "write_binary_file ossl p data = write_new_output_file ossl p (modify (ostream_write data))"

definition write_key_file :: "('w, 'c, 'd) openssl \<Rightarrow> path \<Rightarrow> key256 \<Rightarrow> ('w, unit) cli_act" where
  "write_key_file ossl p key =
     write_new_output_file ossl p
       (bindM (lift_result (map_sum library_error id (hex_encode key))) (\<lambda>text.
        thenM (modify (ostream_write (bytes_from_text text))) (modify (ostream_write (bytes_from_text newline)))))"

definition write_generated_key :: "('w, 'c, 'd) openssl \<Rightarrow> path \<Rightarrow> ('w, unit) cli_act" where
  "write_generated_key ossl p = bindM (library (generate_key ossl)) (write_key_file ossl p)"

section \<open>Commands that stream\<close>

text \<open>Making a standard stream binary has no effect on POSIX systems.\<close>

text \<open>The operation of a command on the chosen streams; a local input stream is gone afterwards.\<close>

definition run_operation ::
  "bool \<Rightarrow> bool \<Rightarrow> (error, (ostream, 'w) file_state, unit) act \<Rightarrow> istream \<Rightarrow>
   (cli_error, 'l output_locals_scheme \<times> 'w cli_state, unit) act" where
  "run_operation input_is_stdin output_is_stdout operation input = (\<lambda>(l, (c, w)).
     case operation (input, if output_is_stdout then cout c else obuf (out_stream l), w) of (r, (i1, o1, w1)) \<Rightarrow>
       (map_sum library_error id r,
        (if output_is_stdout then l else l\<lparr>out_stream := (out_stream l)\<lparr>obuf := o1\<rparr>\<rparr>,
         (c\<lparr>cin := if input_is_stdin then i1 else cin c, cout := if output_is_stdout then o1 else cout c\<rparr>, w1))))"

definition flush_cout :: "('w, unit) cli_act" where
  "flush_cout = modify (\<lambda>(c, w). (if flush_fault c then c\<lparr>cout := (cout c)\<lparr>ofail := True\<rparr>\<rparr> else c, w))"

definition run_streaming_file_command ::
  "('w, 'c, 'd) openssl \<Rightarrow> bool \<Rightarrow> path \<Rightarrow> bool \<Rightarrow> path \<Rightarrow> (error, (ostream, 'w) file_state, unit) act \<Rightarrow>
   ('w, unit) cli_act" where
  "run_streaming_file_command ossl input_is_stdin input output_is_stdout output operation =
     with_locals \<lparr>out_stream = ofstream_default, out_temp = [], uses_temp_output = False\<rparr>
    (on_throw
      (bindM (if input_is_stdin then gets (\<lambda>(l, (c, w)). cin c) else on_snd (open_cli_input_file input)) (\<lambda>in_stream.
       thenM (if output_is_stdout then ret ()
              else thenM (on_snd (ensure_output_file_does_not_exist output))
                  (thenM (open_cli_output_file ossl output)
                         (modify (\<lambda>(l, s). (l\<lparr>uses_temp_output := True\<rparr>, s)))))
      (thenM (run_operation input_is_stdin output_is_stdout operation in_stream)
      (if output_is_stdout
       then thenM (on_snd flush_cout)
           (bindM (gets (\<lambda>(l, (c, w)). ofail (cout c))) (\<lambda>failed.
            throw_if failed (std_exception ''failed to write output file'')))
       else thenM (modify (on_stream ofstream_close))
           (thenM check_stream
           (bindM (gets (\<lambda>(l, s). out_temp l)) (\<lambda>temp_path.
            thenM (on_snd (commit_output_file temp_path output))
                  (modify (\<lambda>(l, s). (l\<lparr>uses_temp_output := False\<rparr>, s))))))))))
      (abandon uses_temp_output))"

text \<open>\<^verbatim>\<open>discard_stream_buffer\<close>: takes every byte and keeps none; here it keeps what is dropped.\<close>

definition discard_stream :: ostream where
  "discard_stream = ostream_empty"

definition run_verify_file_command ::
  "bool \<Rightarrow> path \<Rightarrow> (error, (ostream, 'w) file_state, unit) act \<Rightarrow> ('w, unit) cli_act" where
  "run_verify_file_command input_is_stdin input operation =
     bindM (if input_is_stdin then gets (\<lambda>(c, w). cin c) else open_cli_input_file input) (\<lambda>in_stream.
     (\<lambda>(c, w). case operation (in_stream, discard_stream, w) of (r, (i1, _, w1)) \<Rightarrow>
        (map_sum library_error id r, (c\<lparr>cin := if input_is_stdin then i1 else cin c\<rparr>, w1))))"

section \<open>Lemmas: the temporary file\<close>

lemma wp_on_files [wp_simps]:
  "wp (on_files f) Q E (c, w) = (\<forall>a fs. f (cli_fs c) = (a, fs) \<longrightarrow> Q a (c\<lparr>cli_fs := fs\<rparr>, w))"
  by (auto simp: on_files_def wp_def split: prod.splits)

lemma wp_library [wp_simps]:
  "wp (library m) Q E (c, w) = wp m (\<lambda>a w'. Q a (c, w')) (\<lambda>e w'. E (library_error e) (c, w')) w"
  by (auto simp: library_def wp_def split: prod.splits sum.splits)

lemma wp_with_locals [wp_simps]:
  "wp (with_locals l m) Q E s = wp m (\<lambda>a (l', s'). Q a s') (\<lambda>e (l', s'). E e s') (l, s)"
  by (auto simp: with_locals_def wp_def split: prod.splits sum.splits)

lemma cli_fs_update [simp]: "c\<lparr>cli_fs := cli_fs c\<rparr> = c"
  by simp

text \<open>Sequences below a binder, where the state is not written.\<close>

lemma wp_sequence:
  "wp (thenM m n) Q E = wp m (\<lambda>_. wp n Q E) E" "wp (bindM k f) Q E = wp k (\<lambda>a. wp (f a) Q E) E"
  by (simp_all add: fun_eq_iff wp_thenM wp_bindM)

lemma fs_only_trans:
  "c1 = c\<lparr>cli_fs := cli_fs c1\<rparr> \<Longrightarrow> c2 = c1\<lparr>cli_fs := cli_fs c2\<rparr> \<Longrightarrow> c2 = c\<lparr>cli_fs := cli_fs c2\<rparr>"
  by (cases c; cases c1; cases c2) simp

lemma fs_onlyD: "c' = c\<lparr>cli_fs := cli_fs c'\<rparr> \<Longrightarrow> cout c' = cout c \<and> cerr c' = cerr c \<and> cin c' = cin c"
  by (cases c; cases c') simp

text \<open>The temporary names of an output are unused and nobody uses them.\<close>

definition temps_free :: "file_system \<Rightarrow> path \<Rightarrow> bool" where
  "temps_free fs p \<longleftrightarrow> (\<forall>q. is_temp p q \<longrightarrow> entries fs q = None \<and> (\<forall>t b. (q, b) \<notin> set (others fs t)))"

lemma temps_free_extends: "temps_free fs0 p \<Longrightarrow> extends fs0 {} fs \<Longrightarrow> is_temp p q \<Longrightarrow> entries fs q = None"
proof (rule ccontr)
  assume 1: "temps_free fs0 p" "extends fs0 {} fs" "is_temp p q" "entries fs q \<noteq> None"
  then obtain m where m: "entries fs q = Some m" by auto
  from 1 have "entries fs0 q = None" "\<forall>t b. (q, b) \<notin> set (others fs0 t)" by (simp_all add: temps_free_def)
  with m 1(2) show False unfolding extends_def by (cases m) (metis empty_iff option.distinct(1))+
qed

text \<open>The stream is open on the temporary file \<open>n\<close>, or closed.\<close>

abbreviation temp_file :: "file_system \<Rightarrow> path \<Rightarrow> nat \<Rightarrow> file_system \<Rightarrow> bool" where
  "temp_file fs0 tp n fs \<equiv> temp_open fs0 tp n (output_default, fs)"

text \<open>\<open>limited\<close>: some stream that is opened breaks.\<close>

definition limited :: "file_system \<Rightarrow> bool" where
  "limited fs \<longleftrightarrow> (\<exists>t. stream_limit fs t \<noteq> None)"

definition fresh_stream :: "file_system \<Rightarrow> nat \<Rightarrow> ofstream \<Rightarrow> bool" where
  "fresh_stream fs0 n out \<longleftrightarrow>
     otarget out = Some (Own n) \<and> written (obuf out) = [] \<and> \<not> ofail (obuf out) \<and> (room (obuf out) = None \<or> limited fs0)"

lemma ofstream_open_effect:
  assumes "extends fs0 {} fs" and "entries fs p = None" and "\<forall>t b. (p, b) \<notin> set (others fs t)"
    and "otarget out = None" and "ofstream_open p (out, fs) = (out', fs')"
  shows "if ofail (obuf out') then extends fs0 {} fs' \<and> otarget out' = None \<and> \<not> quiet fs
    else \<exists>n. temp_file fs0 p n fs' \<and> fresh_stream fs0 n out'"
proof -
  obtain failed fs1 where c: "syscall fs = (failed, fs1)" by fastforce
  note c' = syscall_arrived [OF c]
  have ext1: "extends fs0 {} fs1" using extends_arrived [OF assms(1)] c' by blast
  have free: "entries fs1 p = None"
    using arrived_new [of fs fs1 p] assms(2, 3) c' by (metis not_None_eq option.distinct(1))
  show ?thesis
  proof (cases failed)
    case True
    then have "extends fs0 {} fs' \<and> otarget out' = None \<and> ofail (obuf out')"
      using assms(4, 5) c ext1 by (auto simp: ofstream_open_def Let_def)
    moreover have "\<not> quiet fs" using c' True by auto
    ultimately show ?thesis by simp
  next
    case False
    define fs2 where "fs2 = (new_file p [] (Own (next_own fs1)) fs1)\<lparr>next_own := Suc (next_own fs1)\<rparr>"
    have o: "out' = \<lparr>obuf = ostream_empty\<lparr>room := stream_limit fs (clock fs)\<rparr>, otarget = Some (Own (next_own fs1))\<rparr>" "fs' = fs2"
      using assms(4, 5) c False free by (auto simp: ofstream_open_def Let_def fs2_def)
    have ext2: "extends fs0 {(p, next_own fs1)} fs2"
      unfolding fs2_def using extends_new_file [OF ext1] free by simp
    have "entries fs0 p = None" using ext1 free by (metis extends_def not_None_eq)
    moreover have "next_own fs0 \<le> next_own fs1" using ext1 by (simp add: extends_def)
    ultimately have "temp_file fs0 p (next_own fs1) fs2"
      using ext2 by (simp add: temp_open_def output_default_def) (simp add: fs2_def new_file_def)
    moreover have "fresh_stream fs0 (next_own fs1) out'"
    proof -
      have "stream_limit fs = stream_limit fs0" using assms(1) by (simp add: extends_def)
      then show ?thesis by (auto simp: o fresh_stream_def ostream_empty_def limited_def)
    qed
    moreover have "\<not> ofail (obuf out')" by (simp add: o ostream_empty_def)
    ultimately show ?thesis using o(2) by auto
  qed
qed

lemma ofstream_close_effect:
  assumes "temp_file fs0 tp n fs" and "otarget out = Some (Own n)" and "ofstream_close (out, fs) = (out', fs')"
  shows "temp_file fs0 tp n fs'" and "otarget out' = None"
    and "\<not> ofail (obuf out') \<Longrightarrow> \<not> ofail (obuf out) \<and> contents fs' (Own n) = written (obuf out)"
    and "quiet fs \<Longrightarrow> quiet fs' \<and> ofail (obuf out') = ofail (obuf out)"
proof -
  obtain failed fs1 where c: "syscall fs = (failed, fs1)" by fastforce
  note c' = syscall_arrived [OF c]
  have o: "out' = \<lparr>obuf = (obuf out)\<lparr>ofail := ofail (obuf out) \<or> failed\<rparr>, otarget = None\<rparr>"
    "fs' = fs1\<lparr>contents := (contents fs1)(Own n :=
       if failed then take (drains fs (clock fs)) (written (obuf out)) else written (obuf out))\<rparr>"
    using assms(2, 3) c by (auto simp: ofstream_close_def Let_def)
  show "temp_file fs0 tp n fs'"
    unfolding o(2) by (intro temp_open_write temp_open_arrived [OF assms(1)]) (use c' in blast)
  show "otarget out' = None" and "\<not> ofail (obuf out') \<Longrightarrow> \<not> ofail (obuf out) \<and> contents fs' (Own n) = written (obuf out)"
    by (auto simp: o)
  show "quiet fs' \<and> ofail (obuf out') = ofail (obuf out)" if "quiet fs"
    using quiet_call [of fs fs1] c' that by (auto simp: o quiet_def)
qed

text \<open>Only the file system, the stream and the temporary name have changed.\<close>

definition same_but :: "'l output_locals_scheme \<Rightarrow> cli \<Rightarrow> 'l output_locals_scheme \<Rightarrow> cli \<Rightarrow> bool" where
  "same_but l0 c0 l c \<longleftrightarrow> l = l0\<lparr>out_stream := out_stream l, out_temp := out_temp l\<rparr> \<and> c = c0\<lparr>cli_fs := cli_fs c\<rparr>"

lemma same_but_refl [simp]: "same_but l c l c"
  by (cases l) (simp add: same_but_def)

lemma same_but_step [simp]:
  "same_but l0 c0 (l\<lparr>out_stream := out\<rparr>) c = same_but l0 c0 l c"
  "same_but l0 c0 (l\<lparr>out_temp := t\<rparr>) c = same_but l0 c0 l c"
  "same_but l0 c0 l (c\<lparr>cli_fs := fs\<rparr>) = same_but l0 c0 l c"
  by (cases l0; cases l; cases c0; cases c; simp add: same_but_def)+

lemma same_but_trans: "same_but l0 c0 l1 c1 \<Longrightarrow> same_but l1 c1 l c \<Longrightarrow> same_but l0 c0 l c"
  by (cases l0; cases l1; cases l; cases c0; cases c1; cases c) (simp add: same_but_def)

lemma fs_exists_effect:
  "fs_exists p fs = (r, fs') \<Longrightarrow> arrived fs fs' \<and> (r = None \<longrightarrow> \<not> quiet fs) \<and> (\<forall>b. r = Some b \<longrightarrow> b = (entries fs' p \<noteq> None))"
  using syscall_arrived [of fs] by (auto simp: fs_exists_def split: prod.splits if_splits)

text \<open>Where opening may leave a stream that is not open.\<close>

definition not_opened :: "file_system \<Rightarrow> path \<Rightarrow> 'l output_locals_scheme \<Rightarrow> cli \<Rightarrow> bool" where
  "not_opened fs0 p l c \<longleftrightarrow>
     extends fs0 {} (cli_fs c) \<and> otarget (out_stream l) = None \<and> (out_temp l = [] \<or> is_temp p (out_temp l))"

definition opened_on :: "file_system \<Rightarrow> path \<Rightarrow> nat \<Rightarrow> 'l output_locals_scheme \<Rightarrow> cli \<Rightarrow> bool" where
  "opened_on fs0 p n l c \<longleftrightarrow>
     is_temp p (out_temp l) \<and> temp_file fs0 (out_temp l) n (cli_fs c) \<and> fresh_stream fs0 n (out_stream l)"

lemma temporary_output_path_for_wp:
  "wp (temporary_output_path_for ossl p) (\<lambda>q (c', w'). is_temp p q \<and> c' = c) (\<lambda>e (c', w'). \<not> rand_available ossl \<and> c' = c) (c, w)"
proof -
  have "wp (random_bytes ossl 16) (\<lambda>token _. length token = 16) (\<lambda>e _. \<not> rand_available ossl) w"
    by (rule wpI) (auto dest: random_bytes_length random_bytes_fault)
  then show ?thesis
    unfolding temporary_output_path_for_def wp_bindM wp_library by (rule wp_mono) (auto simp: wp_simps is_temp_def)
qed

lemma open_output_attempts_wp:
  "temps_free fs0 p \<Longrightarrow> not_opened fs0 p l c \<Longrightarrow> wp (open_output_attempts ossl m p)
    (\<lambda>_ (l', (c', w')). same_but l c l' c' \<and> (\<exists>n. opened_on fs0 p n l' c'))
    (\<lambda>e (l', (c', w')). same_but l c l' c' \<and> not_opened fs0 p l' c' \<and> (m = 0 \<or> \<not> quiet fs0 \<or> \<not> rand_available ossl))
    (l, (c, w))"
proof (induction m arbitrary: l c w)
  case 0
  then show ?case by (simp add: wp_def)
next
  case (Suc m)
  have again: "wp (open_output_attempts ossl m p)
      (\<lambda>_ (l', (c', w')). same_but l c l' c' \<and> (\<exists>n. opened_on fs0 p n l' c'))
      (\<lambda>e (l', (c', w')). same_but l c l' c' \<and> not_opened fs0 p l' c' \<and> (Suc m = 0 \<or> \<not> quiet fs0 \<or> \<not> rand_available ossl))
      (l1, (c1, w1))"
    if "same_but l c l1 c1" "not_opened fs0 p l1 c1" "\<not> quiet fs0" for l1 c1 w1
    by (rule wp_mono [OF Suc.IH [OF Suc.prems(1) that(2)]]) (use that same_but_trans in auto)
  have step: "wp (bindM (on_snd (on_files (fs_exists q))) (\<lambda>r.
       if r \<noteq> Some False then open_output_attempts ossl m p
       else thenM (modify (on_stream (ofstream_open q)))
         (bindM (gets (\<lambda>(l, s). ofail (obuf (out_stream l)))) (\<lambda>failed.
          if \<not> failed then ret () else open_output_attempts ossl m p))))
      (\<lambda>_ (l', (c', w')). same_but l c l' c' \<and> (\<exists>n. opened_on fs0 p n l' c'))
      (\<lambda>e (l', (c', w')). same_but l c l' c' \<and> not_opened fs0 p l' c' \<and> (Suc m = 0 \<or> \<not> quiet fs0 \<or> \<not> rand_available ossl))
      (l\<lparr>out_temp := q\<rparr>, (c, w1))" if q: "is_temp p q" for q w1
  proof -
    obtain r fs1 where x: "fs_exists q (cli_fs c) = (r, fs1)" by fastforce
    note x' = fs_exists_effect [OF x]
    from Suc.prems(2) have ext: "extends fs0 {} (cli_fs c)" and closed: "otarget (out_stream l) = None"
      by (simp_all add: not_opened_def)
    have ext1: "extends fs0 {} fs1" using extends_arrived [OF ext] x' by blast
    note free = temps_free_extends [OF Suc.prems(1) ext1 q]
    have "others fs1 = others fs0" using ext1 by (simp add: extends_def)
    then have names: "\<forall>t b. (q, b) \<notin> set (others fs1 t)"
      using Suc.prems(1) q by (simp add: temps_free_def)
    obtain out fs2 where o: "ofstream_open q (out_stream l, fs1) = (out, fs2)" by fastforce
    note o' = ofstream_open_effect [OF ext1 free names closed o]
    have nq: "\<not> quiet (cli_fs c) \<Longrightarrow> \<not> quiet fs0" "\<not> quiet fs1 \<Longrightarrow> \<not> quiet fs0"
      using extends_quiet [OF ext] extends_quiet [OF ext1] by blast+
    show ?thesis
    proof (cases "r = Some False")
      case False
      then have "\<not> quiet fs0" using x' free nq(1) by (cases r) auto
      moreover have "not_opened fs0 p (l\<lparr>out_temp := q\<rparr>) (c\<lparr>cli_fs := fs1\<rparr>)"
        using ext1 closed q by (simp add: not_opened_def)
      ultimately show ?thesis using again False x by (simp add: wp_simps)
    next
      case True
      show ?thesis
      proof (cases "ofail (obuf out)")
        case False
        then obtain n where "opened_on fs0 p n (l\<lparr>out_temp := q, out_stream := out\<rparr>) (c\<lparr>cli_fs := fs2\<rparr>)"
          using o' q by (auto simp: opened_on_def)
        then show ?thesis using True x o False by (auto simp: wp_simps on_stream_def)
      next
        case fail: True
        then have "not_opened fs0 p (l\<lparr>out_temp := q, out_stream := out\<rparr>) (c\<lparr>cli_fs := fs2\<rparr>)" "\<not> quiet fs0"
          using o' q nq(2) by (simp_all add: not_opened_def)
        then show ?thesis using True fail x o again by (simp add: wp_simps on_stream_def)
      qed
    qed
  qed
  show ?case
    unfolding open_output_attempts.simps wp_bindM [of "on_snd (temporary_output_path_for ossl p)"] wp_on_snd
  proof (rule wp_conseq [OF temporary_output_path_for_wp], goal_cases)
    case (1 q s)
    then obtain w1 where s: "s = (c, w1)" "is_temp p q" by (cases s) auto
    show ?case
      unfolding wp_thenM wp_modify s(1) prod.case by (rule step [OF s(2)])
  next
    case (2 e s)
    then show ?case using Suc.prems by (cases s) simp
  qed
qed

section \<open>Lemmas: committing and abandoning\<close>

text \<open>The output is a new file of this program with content \<open>d\<close>.\<close>

definition created :: "file_system \<Rightarrow> path \<Rightarrow> nat \<Rightarrow> bytes \<Rightarrow> file_system \<Rightarrow> bool" where
  "created fs0 p n d fs \<longleftrightarrow>
     entries fs0 p = None \<and> entries fs p = Some (Own n) \<and> next_own fs0 \<le> n \<and> n < next_own fs \<and> contents fs (Own n) = d"

lemma commit_output_file_wp:
  assumes "temp_file fs0 tp n (cli_fs c)" and "contents (cli_fs c) (Own n) = d" and "is_temp p tp"
  shows "wp (commit_output_file tp p)
    (\<lambda>_ (c', w'). c' = c\<lparr>cli_fs := cli_fs c'\<rparr> \<and> w' = w \<and> created fs0 p n d (cli_fs c') \<and> left_over fs0 p {(p, n)} (cli_fs c'))
    (\<lambda>e (c', w'). c' = c\<lparr>cli_fs := cli_fs c'\<rparr> \<and> w' = w \<and> temp_file fs0 tp n (cli_fs c') \<and>
       (e = std_exception ''Output file already exists'' \<and> entries (cli_fs c') p \<noteq> None \<or>
        e = std_exception ''failed to write output file'' \<and> \<not> quiet (cli_fs c))) (c, w)"
proof -
  obtain r fs2 where link: "sys_link tp p (cli_fs c) = (r, fs2)" by fastforce
  note e = sys_link_effect [OF assms(1, 3) link]
  show ?thesis
  proof (cases r)
    case None
    then have l: "linked fs0 tp p n (cli_fs c) (remove_quietly tp fs2)" using e by simp
    have "left_over fs0 p {(p, n)} (remove_quietly tp fs2)"
      by (rule linked_left_over [OF l temp_open_quiet [OF assms(1)] assms(3)]) (use l in \<open>simp_all add: linked_def\<close>)
    moreover have "created fs0 p n d (remove_quietly tp fs2)" using l assms(2) by (simp add: linked_def created_def)
    ultimately show ?thesis
      using link None by (simp add: commit_output_file_def wp_simps remove_file_quietly_def remove_quietly_def)
  next
    case (Some err)
    obtain r2 fs3 where x: "fs_exists p fs2 = (r2, fs3)" by fastforce
    note x' = fs_exists_effect [OF x]
    have inv: "temp_file fs0 tp n fs3" using e Some temp_open_arrived x' by fastforce
    have "entries fs2 p \<noteq> None \<Longrightarrow> entries fs3 p \<noteq> None" using arrived_entry [of fs2 fs3 p] x' by auto
    then show ?thesis
      using e Some link x x' inv by (auto simp: commit_output_file_def wp_simps)
  qed
qed

lemma abandon_temp:
  assumes "temp_file fs0 (out_temp l) n (cli_fs c)" and "is_temp p (out_temp l)" and "removes l"
    and "otarget (out_stream l) = None \<or> otarget (out_stream l) = Some (Own n)"
    and "\<And>out. removes (l\<lparr>out_stream := out\<rparr>) = removes l"
    and "abandon removes (l, (c, w)) = (l', (c', w'))"
  shows "left_over fs0 p {} (cli_fs c')" and "c' = c\<lparr>cli_fs := cli_fs c'\<rparr>" and "w' = w"
    and "entries (cli_fs c) p \<noteq> None \<Longrightarrow> entries (cli_fs c') p \<noteq> None"
proof -
  obtain out fs1 where cl: "ofstream_close (out_stream l, cli_fs c) = (out, fs1)" by fastforce
  define fs2 where "fs2 = (if otarget (out_stream l) = None then cli_fs c else fs1)"
  have t: "temp_file fs0 (out_temp l) n fs2"
    using assms(1, 4) ofstream_close_effect(1) [OF assms(1) _ cl] by (auto simp: fs2_def)
  have res: "c' = c\<lparr>cli_fs := remove_quietly (out_temp l) fs2\<rparr> \<and> w' = w"
    using assms(3, 5, 6) cl
    by (auto simp: abandon_def on_stream_def fs2_def remove_file_quietly_def on_files_def remove_quietly_def)
  then show "c' = c\<lparr>cli_fs := cli_fs c'\<rparr>" "w' = w" by simp_all
  have cu: "clean_up (out_temp l) (output_default, fs2) = remove_quietly (out_temp l) fs2"
    by (simp add: clean_up_def output_discard_def output_destroy_def close_quietly_def output_default_def)
  show "left_over fs0 p {} (cli_fs c')" using clean_up_temp(1) [OF t assms(2)] res by (simp add: cu)
  have keep: "entries (cli_fs c) p \<noteq> None \<Longrightarrow> entries fs2 p \<noteq> None"
  proof -
    assume e: "entries (cli_fs c) p \<noteq> None"
    show "entries fs2 p \<noteq> None"
    proof (cases "otarget (out_stream l)")
      case (Some m)
      obtain failed fs3 where s: "syscall (cli_fs c) = (failed, fs3)" by fastforce
      then have "entries fs1 = entries fs3" using cl Some by (auto simp: ofstream_close_def Let_def)
      then show ?thesis using e arrived_entry [of "cli_fs c" fs3 p] syscall_arrived [OF s] Some by (auto simp: fs2_def)
    qed (use e in \<open>simp add: fs2_def\<close>)
  qed
  show "entries (cli_fs c') p \<noteq> None" if "entries (cli_fs c) p \<noteq> None"
    using clean_up_temp(2) [OF t assms(2)] keep [OF that] res by (simp add: cu)
qed

lemma abandon_unopened:
  assumes "not_opened fs0 p l c" and "temps_free fs0 p" and "abandon removes (l, (c, w)) = (l', (c', w'))"
    and "removes l \<Longrightarrow> out_temp l \<noteq> []"
  shows "extends fs0 {} (cli_fs c')" and "c' = c\<lparr>cli_fs := cli_fs c'\<rparr>" and "w' = w"
    and "entries (cli_fs c) p \<noteq> None \<Longrightarrow> entries (cli_fs c') p \<noteq> None"
proof -
  have res: "c' = (if removes l then c\<lparr>cli_fs := remove_quietly (out_temp l) (cli_fs c)\<rparr> else c) \<and> w' = w"
    using assms(1, 3) by (auto simp: not_opened_def abandon_def remove_file_quietly_def on_files_def remove_quietly_def)
  then show "c' = c\<lparr>cli_fs := cli_fs c'\<rparr>" "w' = w" by simp_all
  have ext: "extends fs0 {} (cli_fs c)" using assms(1) by (simp add: not_opened_def)
  show "extends fs0 {} (cli_fs c')"
  proof (cases "removes l")
    case True
    then have "entries fs0 (out_temp l) = None" using assms(1, 2, 4) by (auto simp: not_opened_def temps_free_def)
    from remove_effect(1) [OF ext this] show ?thesis using res True by simp
  qed (use ext res in simp)
  show "entries (cli_fs c') p \<noteq> None" if e: "entries (cli_fs c) p \<noteq> None"
  proof (cases "removes l")
    case True
    then have t: "is_temp p (out_temp l)" using assms(1, 4) by (auto simp: not_opened_def)
    then have "entries fs0 (out_temp l) = None" using assms(2) by (auto simp: temps_free_def)
    from remove_effect(3) [OF ext this] is_temp_ne [OF t] e res True show ?thesis by force
  qed (use e res in simp)
qed

text \<open>Where a body can throw: before the temporary file is open, or with it.\<close>

definition in_progress :: "file_system \<Rightarrow> path \<Rightarrow> 'l output_locals_scheme \<Rightarrow> cli \<Rightarrow> bool" where
  "in_progress fs0 p l c \<longleftrightarrow>
     (\<exists>n. is_temp p (out_temp l) \<and> temp_file fs0 (out_temp l) n (cli_fs c) \<and>
       (otarget (out_stream l) = None \<or> otarget (out_stream l) = Some (Own n)))"

lemma abandon_left_over:
  assumes "in_progress fs0 p l c \<and> removes l \<or> not_opened fs0 p l c \<and> (removes l \<longrightarrow> out_temp l \<noteq> [])" and "temps_free fs0 p"
    and "\<And>out. removes (l\<lparr>out_stream := out\<rparr>) = removes l" and "abandon removes (l, (c, w)) = (l', (c', w'))"
  shows "left_over fs0 p {} (cli_fs c')" and "c' = c\<lparr>cli_fs := cli_fs c'\<rparr>" and "w' = w"
    and "entries (cli_fs c) p \<noteq> None \<Longrightarrow> entries (cli_fs c') p \<noteq> None"
proof -
  have "left_over fs0 p {} (cli_fs c') \<and> c' = c\<lparr>cli_fs := cli_fs c'\<rparr> \<and> w' = w \<and>
    (entries (cli_fs c) p \<noteq> None \<longrightarrow> entries (cli_fs c') p \<noteq> None)"
  proof (cases "in_progress fs0 p l c \<and> removes l")
    case True
    then obtain n where n: "is_temp p (out_temp l)" "temp_file fs0 (out_temp l) n (cli_fs c)"
      "otarget (out_stream l) = None \<or> otarget (out_stream l) = Some (Own n)" by (auto simp: in_progress_def)
    note a = abandon_temp [OF n(2, 1) _ n(3) assms(3, 4)]
    from True a show ?thesis by blast
  next
    case False
    with assms(1) have n: "not_opened fs0 p l c" "removes l \<Longrightarrow> out_temp l \<noteq> []" by blast+
    note a = abandon_unopened [OF n(1) assms(2, 4) n(2)]
    from a left_overI [OF a(1)] show ?thesis by blast
  qed
  then show "left_over fs0 p {} (cli_fs c')" "c' = c\<lparr>cli_fs := cli_fs c'\<rparr>" "w' = w"
    "entries (cli_fs c) p \<noteq> None \<Longrightarrow> entries (cli_fs c') p \<noteq> None" by blast+
qed

lemma ensure_output_file_wp:
  "wp (ensure_output_file_does_not_exist p)
    (\<lambda>_ (c', w'). c' = c\<lparr>cli_fs := cli_fs c'\<rparr> \<and> w' = w \<and> arrived (cli_fs c) (cli_fs c') \<and> entries (cli_fs c') p = None)
    (\<lambda>e (c', w'). c' = c\<lparr>cli_fs := cli_fs c'\<rparr> \<and> w' = w \<and> arrived (cli_fs c) (cli_fs c') \<and>
       (e = std_exception (status_what c p) \<and> \<not> quiet (cli_fs c) \<or>
        e = std_exception ''Output file already exists'' \<and> entries (cli_fs c') p \<noteq> None)) (c, w)"
proof -
  obtain r fs1 where x: "fs_exists p (cli_fs c) = (r, fs1)" by fastforce
  from fs_exists_effect [OF x] x show ?thesis
    by (cases r) (auto simp: ensure_output_file_does_not_exist_def wp_simps)
qed

text \<open>Closing the stream and looking at its state.\<close>

lemma close_check_wp:
  assumes "temp_file fs0 (out_temp l) n (cli_fs c)" and "otarget (out_stream l) = Some (Own n)"
  shows "wp (thenM (modify (on_stream ofstream_close)) check_stream)
    (\<lambda>_ (l', (c', w')). same_but l c l' c' \<and> out_temp l' = out_temp l \<and> w' = w \<and> otarget (out_stream l') = None \<and>
       temp_file fs0 (out_temp l) n (cli_fs c') \<and> contents (cli_fs c') (Own n) = written (obuf (out_stream l)) \<and>
       \<not> ofail (obuf (out_stream l)) \<and> (quiet (cli_fs c) \<longrightarrow> quiet (cli_fs c')))
    (\<lambda>e (l', (c', w')). same_but l c l' c' \<and> out_temp l' = out_temp l \<and> w' = w \<and> otarget (out_stream l') = None \<and>
       temp_file fs0 (out_temp l) n (cli_fs c') \<and> e = std_exception ''failed to write output file'' \<and>
       (ofail (obuf (out_stream l)) \<or> \<not> quiet (cli_fs c))) (l, (c, w))"
proof -
  obtain out fs1 where cl: "ofstream_close (out_stream l, cli_fs c) = (out, fs1)" by fastforce
  note e = ofstream_close_effect [OF assms cl]
  show ?thesis
    using e cl by (cases "ofail (obuf out)") (auto simp: wp_simps on_stream_def check_stream_def)
qed

section \<open>Lemmas: a new output\<close>

text \<open>
  Why there is no output: a failing call, no randomness, an output that exists, or the reason
  \<open>F\<close> of the code that writes.
\<close>

definition output_fault ::
  "('w, 'c, 'd) openssl \<Rightarrow> file_system \<Rightarrow> path \<Rightarrow> (cli_error \<Rightarrow> bool) \<Rightarrow> file_system \<Rightarrow> cli_error \<Rightarrow> bool" where
  "output_fault ossl fs0 p F fs e \<longleftrightarrow>
     \<not> quiet fs0 \<or> \<not> rand_available ossl \<or> e = std_exception ''Output file already exists'' \<and> entries fs p \<noteq> None \<or> F e"

definition fresh_buffer :: "file_system \<Rightarrow> ostream \<Rightarrow> bool" where
  "fresh_buffer fs0 o1 \<longleftrightarrow> written o1 = [] \<and> \<not> ofail o1 \<and> (room o1 = None \<or> limited fs0)"

lemma fresh_stream_buffer: "fresh_stream fs0 n out \<Longrightarrow> fresh_buffer fs0 (obuf out) \<and> otarget out = Some (Own n)"
  by (auto simp: fresh_stream_def fresh_buffer_def)

text \<open>From an open stream to the committed output.\<close>

lemma finish_output_wp:
  assumes "is_temp p (out_temp l)" and "temp_file fs0 (out_temp l) n (cli_fs c)" and "otarget (out_stream l) = Some (Own n)"
  shows "wp (thenM (thenM (modify (on_stream ofstream_close)) check_stream)
      (bindM (gets (\<lambda>(l, s). out_temp l)) (\<lambda>temp_path. on_snd (commit_output_file temp_path p))))
    (\<lambda>_ (l', (c', w')). same_but l c l' c' \<and> w' = w \<and> \<not> ofail (obuf (out_stream l)) \<and> otarget (out_stream l') = None \<and>
       created fs0 p n (written (obuf (out_stream l))) (cli_fs c') \<and> left_over fs0 p {(p, n)} (cli_fs c'))
    (\<lambda>e (l', (c', w')). same_but l c l' c' \<and> w' = w \<and> in_progress fs0 p l' c' \<and>
       output_fault ossl fs0 p (\<lambda>e. ofail (obuf (out_stream l))) (cli_fs c') e) (l, (c, w))"
  unfolding wp_thenM [of "thenM _ _"] wp_bindM wp_gets
proof (rule wp_conseq [OF close_check_wp [OF assms(2, 3)]], goal_cases)
  case (1 u s)
  obtain l1 c1 w1 where s: "s = (l1, (c1, w1))" by (metis prod_cases3)
  from 1 have b: "same_but l c l1 c1" "out_temp l1 = out_temp l" "w1 = w" "otarget (out_stream l1) = None"
    "temp_file fs0 (out_temp l) n (cli_fs c1)" "contents (cli_fs c1) (Own n) = written (obuf (out_stream l))"
    "\<not> ofail (obuf (out_stream l))" by (simp_all add: s)
  have q: "\<not> quiet (cli_fs c1) \<Longrightarrow> \<not> quiet fs0" using temp_open_quiet [OF b(5)] by blast
  have keep: "same_but l c l1 (c1\<lparr>cli_fs := fs\<rparr>)" for fs using b(1) by simp
  show ?case
    unfolding s prod.case wp_on_snd b(2)
  proof (rule wp_conseq [OF commit_output_file_wp [OF b(5, 6) assms(1)]], goal_cases)
    case (1 u s2)
    obtain c2 w2 where s2: "s2 = (c2, w2)" by fastforce
    from 1 have "c2 = c1\<lparr>cli_fs := cli_fs c2\<rparr>" by (simp add: s2)
    then have "same_but l c l1 c2" using keep by metis
    then show ?case using 1 b(3, 4, 7) by (simp add: s2)
  next
    case (2 e s2)
    obtain c2 w2 where s2: "s2 = (c2, w2)" by fastforce
    from 2 have "c2 = c1\<lparr>cli_fs := cli_fs c2\<rparr>" by (simp add: s2)
    then have "same_but l c l1 c2" using keep by metis
    moreover have "in_progress fs0 p l1 c2" using 2 assms(1) b(2, 4) by (auto simp: s2 in_progress_def)
    moreover have "output_fault ossl fs0 p F (cli_fs c2) e" for F using 2 q by (auto simp: s2 output_fault_def)
    ultimately show ?case using 2 b(3) by (simp add: s2)
  qed
next
  case (2 e s)
  then show ?case
    using assms(1) temp_open_quiet [OF assms(2)] by (cases s) (auto simp: in_progress_def output_fault_def)
qed

text \<open>What writing a new file leaves: the committed output of the writer, or no output of this program and a reason.\<close>

definition new_output :: "cli \<Rightarrow> path \<Rightarrow> (cli_error, ostream, unit) act \<Rightarrow> cli \<Rightarrow> bool" where
  "new_output c p writer c' \<longleftrightarrow> c' = c\<lparr>cli_fs := cli_fs c'\<rparr> \<and>
     (\<exists>n o1 o2. fresh_buffer (cli_fs c) o1 \<and> writer o1 = (Inr (), o2) \<and> \<not> ofail o2 \<and>
        created (cli_fs c) p n (written o2) (cli_fs c') \<and> left_over (cli_fs c) p {(p, n)} (cli_fs c'))"

definition writer_fault :: "cli \<Rightarrow> (cli_error, ostream, unit) act \<Rightarrow> cli_error \<Rightarrow> bool" where
  "writer_fault c writer e \<longleftrightarrow> (\<exists>o1 o2. fresh_buffer (cli_fs c) o1 \<and>
     (writer o1 = (Inl e, o2) \<or> writer o1 = (Inr (), o2) \<and> ofail o2))"

definition no_output ::
  "('w, 'c, 'd) openssl \<Rightarrow> cli \<Rightarrow> path \<Rightarrow> (cli_error, ostream, unit) act \<Rightarrow> cli_error \<Rightarrow> cli \<Rightarrow> bool" where
  "no_output ossl c p writer e c' \<longleftrightarrow> c' = c\<lparr>cli_fs := cli_fs c'\<rparr> \<and> left_over (cli_fs c) p {} (cli_fs c') \<and>
     output_fault ossl (cli_fs c) p (writer_fault c writer) (cli_fs c') e"

lemma output_fault_mono: "output_fault ossl fs0 p F fs e \<Longrightarrow> (F e \<Longrightarrow> G e) \<Longrightarrow> output_fault ossl fs0 p G fs e"
  by (auto simp: output_fault_def)

lemma new_output_handler:
  fixes l :: output_locals
  assumes "temps_free (cli_fs c) p" and "c' = c\<lparr>cli_fs := cli_fs c'\<rparr>"
    and "in_progress (cli_fs c) p l c' \<or> not_opened (cli_fs c) p l c'"
    and "output_fault ossl (cli_fs c) p (writer_fault c writer) (cli_fs c') e"
  shows "case abandon (\<lambda>l. out_temp l \<noteq> []) (l, (c', w')) of (l'', (c'', w'')) \<Rightarrow> no_output ossl c p writer e c''"
proof -
  obtain l2 c2 w2 where a: "abandon (\<lambda>l. out_temp l \<noteq> []) (l, (c', w')) = (l2, (c2, w2))" by (metis prod_cases3)
  have "is_temp p q \<Longrightarrow> q \<noteq> []" for q by (auto simp: is_temp_def temp_suffix_def)
  then have "in_progress (cli_fs c) p l c' \<and> out_temp l \<noteq> [] \<or>
      not_opened (cli_fs c) p l c' \<and> (out_temp l \<noteq> [] \<longrightarrow> out_temp l \<noteq> [])"
    using assms(3) by (auto simp: in_progress_def)
  note b = abandon_left_over [OF this assms(1) _ a]
  have "c2 = c\<lparr>cli_fs := cli_fs c2\<rparr>" using fs_only_trans [OF assms(2) b(2)] by simp
  moreover have "output_fault ossl (cli_fs c) p (writer_fault c writer) (cli_fs c2) e"
    using assms(4) b(4) by (auto simp: output_fault_def)
  ultimately show ?thesis using a b(1) by (simp add: no_output_def)
qed

text \<open>The stream is checked, closed and committed; then the writer with what follows it.\<close>

abbreviation finish_new_output :: "path \<Rightarrow> (cli_error, output_locals \<times> 'w cli_state, unit) act" where
  "finish_new_output p \<equiv>
     thenM check_stream
    (thenM (modify (on_stream ofstream_close))
    (thenM check_stream
    (bindM (gets (\<lambda>(l, s). out_temp l)) (\<lambda>temp_path. on_snd (commit_output_file temp_path p)))))"

lemma finish_new_output_wp:
  assumes free: "temps_free (cli_fs c) p" and c2: "c2 = c\<lparr>cli_fs := cli_fs c2\<rparr>"
    and l: "is_temp p (out_temp l)" "temp_file (cli_fs c) (out_temp l) n (cli_fs c2)" "otarget (out_stream l) = Some (Own n)"
    and w: "fresh_buffer (cli_fs c) o1" "writer o1 = (Inr (), obuf (out_stream l))"
  shows "wp (finish_new_output p) (\<lambda>_ (l', (c', w')). new_output c p writer c')
    (\<lambda>e t. case abandon (\<lambda>l. out_temp l \<noteq> []) t of (l', (c', w')) \<Rightarrow> no_output ossl c p writer e c') (l, (c2, w2))"
    (is "wp _ ?Q ?E _")
proof (cases "ofail (obuf (out_stream l))")
  case True
  then have "output_fault ossl (cli_fs c) p (writer_fault c writer) (cli_fs c2) e" for e
    using w by (auto simp: output_fault_def writer_fault_def)
  moreover have "in_progress (cli_fs c) p l c2" using l by (auto simp: in_progress_def)
  ultimately have "?E e (l, (c2, w2))" for e
    unfolding prod.case by (intro new_output_handler [OF free c2] disjI1)
  then show ?thesis
    unfolding wp_thenM [of check_stream] check_stream_def wp_bindM wp_gets using True by (simp add: wp_simps)
next
  case False
  have "wp (thenM (thenM (modify (on_stream ofstream_close)) check_stream)
      (bindM (gets (\<lambda>(l, s). out_temp l)) (\<lambda>temp_path. on_snd (commit_output_file temp_path p)))) ?Q ?E (l, (c2, w2))"
  proof (rule wp_conseq [OF finish_output_wp [OF l, where ossl = ossl]], goal_cases)
    case (1 u s)
    obtain l4 c4 w4 where s: "s = (l4, (c4, w4))" by (metis prod_cases3)
    from 1 have b: "same_but l c2 l4 c4" "created (cli_fs c) p n (written (obuf (out_stream l))) (cli_fs c4)"
      "left_over (cli_fs c) p {(p, n)} (cli_fs c4)" by (simp_all add: s)
    have "c4 = c\<lparr>cli_fs := cli_fs c4\<rparr>" using b(1) fs_only_trans [OF c2] unfolding same_but_def by blast
    then show ?case using b(2, 3) w False unfolding s prod.case new_output_def by blast
  next
    case (2 e s)
    obtain l4 c4 w4 where s: "s = (l4, (c4, w4))" by (metis prod_cases3)
    from 2 have b: "same_but l c2 l4 c4" "in_progress (cli_fs c) p l4 c4" "output_fault ossl (cli_fs c) p (\<lambda>e. False) (cli_fs c4) e"
      by (simp_all add: s False)
    have "c4 = c\<lparr>cli_fs := cli_fs c4\<rparr>" using b(1) fs_only_trans [OF c2] unfolding same_but_def by blast
    from new_output_handler [OF free this disjI1 [OF b(2)] output_fault_mono [OF b(3)]] show ?case by (simp add: s)
  qed
  then show ?thesis
    unfolding wp_thenM [of check_stream] check_stream_def wp_bindM wp_gets using False by (simp add: wp_simps)
qed

lemma fill_new_output_wp:
  assumes free: "temps_free (cli_fs c) p" and c2: "c2 = c\<lparr>cli_fs := cli_fs c2\<rparr>" and op: "opened_on (cli_fs c) p n l c2"
  shows "wp (thenM (\<lambda>(l, s). case writer (obuf (out_stream l)) of (r, o1) \<Rightarrow>
        (r, (l\<lparr>out_stream := (out_stream l)\<lparr>obuf := o1\<rparr>\<rparr>, s))) (finish_new_output p))
    (\<lambda>_ (l', (c', w')). new_output c p writer c')
    (\<lambda>e t. case abandon (\<lambda>l. out_temp l \<noteq> []) t of (l', (c', w')) \<Rightarrow> no_output ossl c p writer e c') (l, (c2, w2))"
proof -
  obtain r o2 where wr: "writer (obuf (out_stream l)) = (r, o2)" by fastforce
  define l3 where "l3 = l\<lparr>out_stream := (out_stream l)\<lparr>obuf := o2\<rparr>\<rparr>"
  have fb: "fresh_buffer (cli_fs c) (obuf (out_stream l))" "otarget (out_stream l) = Some (Own n)"
    using op fresh_stream_buffer by (auto simp: opened_on_def)
  have l3: "is_temp p (out_temp l3)" "temp_file (cli_fs c) (out_temp l3) n (cli_fs c2)" "otarget (out_stream l3) = Some (Own n)"
    "obuf (out_stream l3) = o2" using op fb by (simp_all add: l3_def opened_on_def)
  have step: "wp (\<lambda>(l, s). case writer (obuf (out_stream l)) of (r, o1) \<Rightarrow>
      (r, (l\<lparr>out_stream := (out_stream l)\<lparr>obuf := o1\<rparr>\<rparr>, s))) Q E (l, (c2, w2)) =
    (case r of Inl e \<Rightarrow> E e (l3, (c2, w2)) | Inr a \<Rightarrow> Q a (l3, (c2, w2)))" for Q E
    using wr by (cases r) (simp_all add: wp_def l3_def)
  show ?thesis
  proof (cases r)
    case (Inl e)
    then have "output_fault ossl (cli_fs c) p (writer_fault c writer) (cli_fs c2) e"
      using wr fb(1) by (auto simp: output_fault_def writer_fault_def)
    moreover have "in_progress (cli_fs c) p l3 c2" using l3 by (auto simp: in_progress_def)
    ultimately show ?thesis unfolding wp_thenM step Inl sum.case by (intro new_output_handler [OF free c2]) auto
  next
    case (Inr u)
    then have "writer (obuf (out_stream l)) = (Inr (), obuf (out_stream l3))" using wr l3(4) by simp
    from finish_new_output_wp [where writer = writer, OF free c2 l3(1-3) fb(1) this] show ?thesis
      by (subst wp_thenM) (simp only: step Inr sum.case)
  qed
qed

lemma write_new_output_file_wp:
  assumes "temps_free (cli_fs c) p"
  shows "wp (write_new_output_file ossl p writer) (\<lambda>_ (c', w'). new_output c p writer c')
    (\<lambda>e (c', w'). no_output ossl c p writer e c') (c, w)"
  unfolding write_new_output_file_def wp_thenM [of "ensure_output_file_does_not_exist p"]
proof (rule wp_conseq [OF ensure_output_file_wp], goal_cases)
  case (2 e s)
  then show ?case by (cases s) (auto simp: no_output_def output_fault_def left_overI extends_arrived [OF extends_refl])
next
  case (1 u s)
  obtain c1 w1 where s: "s = (c1, w1)" by fastforce
  let ?fs0 = "cli_fs c" and ?l0 = "\<lparr>out_stream = ofstream_default, out_temp = []\<rparr>"
  from 1 have c1: "c1 = c\<lparr>cli_fs := cli_fs c1\<rparr>" and ext: "extends ?fs0 {} (cli_fs c1)"
    using extends_arrived [OF extends_refl] by (simp_all add: s)
  have start: "not_opened ?fs0 p ?l0 c1" using ext by (simp add: not_opened_def ofstream_default_def)
  have only_fs: "same_but l c1 l' c' \<Longrightarrow> c' = c\<lparr>cli_fs := cli_fs c'\<rparr>" for l l' :: output_locals and c'
    using fs_only_trans [OF c1] unfolding same_but_def by blast
  show ?case
    unfolding s wp_with_locals wp_on_throw open_cli_output_file_def
  proof (subst wp_thenM, rule wp_conseq [OF open_output_attempts_wp [OF assms start]], goal_cases)
    case (2 e s')
    obtain l2 c2 w2 where s': "s' = (l2, (c2, w2))" by (metis prod_cases3)
    from 2 have b: "same_but ?l0 c1 l2 c2" "not_opened ?fs0 p l2 c2" "\<not> quiet ?fs0 \<or> \<not> rand_available ossl"
      by (simp_all add: s')
    then have "output_fault ossl ?fs0 p (writer_fault c writer) (cli_fs c2) e" by (auto simp: output_fault_def)
    from new_output_handler [OF assms only_fs [OF b(1)] disjI2 [OF b(2)] this] show ?case by (simp add: s')
  next
    case (1 u s')
    obtain l2 c2 w2 where s': "s' = (l2, (c2, w2))" by (metis prod_cases3)
    from 1 obtain n where sb: "same_but ?l0 c1 l2 c2" and op: "opened_on ?fs0 p n l2 c2" by (auto simp: s')
    from fill_new_output_wp [OF assms only_fs [OF sb] op] show ?case unfolding s' .
  qed
qed

section \<open>Lemmas: streaming into a file\<close>

lemma open_cli_input_file_wp:
  "wp (open_cli_input_file p)
    (\<lambda>i (c', w'). c' = c\<lparr>cli_fs := cli_fs c'\<rparr> \<and> arrived (cli_fs c) (cli_fs c') \<and> reads_file (cli_fs c) p i)
    (\<lambda>e (c', w'). c' = c\<lparr>cli_fs := cli_fs c'\<rparr> \<and> arrived (cli_fs c) (cli_fs c')) (c, w)"
proof -
  obtain r fs1 where o: "ifstream_open p (cli_fs c) = (r, fs1)" by fastforce
  have "r = Some i \<Longrightarrow> reads_file (cli_fs c) p i" for i
    using open_input_wp [OF extends_refl, where p = p and fs = "cli_fs c"] o by (simp add: open_input_def wp_simps)
  then show ?thesis
    using o ifstream_open_arrived [OF o] by (cases r) (auto simp: open_cli_input_file_def wp_simps)
qed

text \<open>The input of a command: the standard input or a stream on a file.\<close>

definition is_input :: "cli \<Rightarrow> bool \<Rightarrow> path \<Rightarrow> istream \<Rightarrow> bool" where
  "is_input c input_is_stdin input i \<longleftrightarrow> (if input_is_stdin then i = cin c else reads_file (cli_fs c) input i)"

text \<open>\<open>op_wp R op\<close>: the operation writes something that is in relation \<open>R\<close> to its input.\<close>

definition writes :: "(istream \<Rightarrow> bytes \<Rightarrow> bool) \<Rightarrow> (error, (ostream, 'w) file_state, unit) act \<Rightarrow> bool" where
  "writes R op \<longleftrightarrow> (\<forall>i o1 w. good i \<longrightarrow>
     wp op (\<lambda>_ (i', o2, w'). \<exists>d. written o2 = written o1 @ d \<and> R i d) (\<lambda>_ _. True) (i, o1, w))"

lemma run_operation_file_wp:
  assumes "writes R op" and "good i" and "written (obuf (out_stream l)) = []"
  shows "wp (run_operation input_is_stdin False op i)
    (\<lambda>_ (l', (c', w')). \<exists>o2. l' = l\<lparr>out_stream := (out_stream l)\<lparr>obuf := o2\<rparr>\<rparr> \<and> cli_fs c' = cli_fs c \<and> cout c' = cout c \<and>
       cerr c' = cerr c \<and> R i (written o2))
    (\<lambda>e (l', (c', w')). \<exists>o2. l' = l\<lparr>out_stream := (out_stream l)\<lparr>obuf := o2\<rparr>\<rparr> \<and> cli_fs c' = cli_fs c \<and> cout c' = cout c \<and>
       cerr c' = cerr c) (l, (c, w))"
proof -
  obtain r i1 o2 w1 where o: "op (i, obuf (out_stream l), w) = (r, (i1, o2, w1))" by (metis prod_cases4)
  have "wp op (\<lambda>_ (i', o2, w'). \<exists>d. written o2 = written (obuf (out_stream l)) @ d \<and> R i d) (\<lambda>_ _. True) (i, obuf (out_stream l), w)"
    using assms(1, 2) by (simp add: writes_def)
  then have "r = Inr () \<Longrightarrow> R i (written o2)" using o assms(3) by (auto simp: wp_def)
  then show ?thesis using o by (cases r) (auto simp: run_operation_def wp_def)
qed

text \<open>What a command that writes a file leaves: the committed output, or no output of this program.\<close>

definition streamed_into :: "cli \<Rightarrow> (istream \<Rightarrow> bytes \<Rightarrow> bool) \<Rightarrow> bool \<Rightarrow> path \<Rightarrow> path \<Rightarrow> cli \<Rightarrow> bool" where
  "streamed_into c R input_is_stdin input p c' \<longleftrightarrow> cout c' = cout c \<and> cerr c' = cerr c \<and>
     (\<exists>n d i. is_input c input_is_stdin input i \<and> R i d \<and>
        created (cli_fs c) p n d (cli_fs c') \<and> left_over (cli_fs c) p {(p, n)} (cli_fs c'))"

definition nothing_streamed :: "cli \<Rightarrow> path \<Rightarrow> cli \<Rightarrow> bool" where
  "nothing_streamed c p c' \<longleftrightarrow> cout c' = cout c \<and> cerr c' = cerr c \<and> left_over (cli_fs c) p {} (cli_fs c')"

text \<open>The state in which the handler is entered.\<close>

definition streaming_at :: "cli \<Rightarrow> path \<Rightarrow> streaming_locals \<Rightarrow> cli \<Rightarrow> bool" where
  "streaming_at c p l c' \<longleftrightarrow> cout c' = cout c \<and> cerr c' = cerr c \<and>
     (in_progress (cli_fs c) p l c' \<and> uses_temp_output l \<or> not_opened (cli_fs c) p l c' \<and> \<not> uses_temp_output l)"

lemma streaming_handler:
  assumes "temps_free (cli_fs c) p" and "streaming_at c p l c'"
  shows "case abandon uses_temp_output (l, (c', w')) of (l'', (c'', w'')) \<Rightarrow> nothing_streamed c p c''"
proof -
  obtain l2 c2 w2 where a: "abandon uses_temp_output (l, (c', w')) = (l2, (c2, w2))" by (metis prod_cases3)
  note b = abandon_left_over [OF _ assms(1) _ a]
  have "left_over (cli_fs c) p {} (cli_fs c2) \<and> c2 = c'\<lparr>cli_fs := cli_fs c2\<rparr>"
    using b(1, 2) assms(2) by (auto simp: streaming_at_def)
  then show ?thesis using a assms(2) by (cases c'; cases c2) (simp add: streaming_at_def nothing_streamed_def)
qed

text \<open>What follows the operation, and the operation with what follows it.\<close>

abbreviation finish_streaming :: "path \<Rightarrow> (cli_error, streaming_locals \<times> 'w cli_state, unit) act" where
  "finish_streaming p \<equiv>
     thenM (modify (on_stream ofstream_close))
    (thenM check_stream
    (bindM (gets (\<lambda>(l, s). out_temp l)) (\<lambda>temp_path.
     thenM (on_snd (commit_output_file temp_path p)) (modify (\<lambda>(l, s). (l\<lparr>uses_temp_output := False\<rparr>, s))))))"

lemma finish_streaming_wp:
  assumes free: "temps_free (cli_fs c) p"
    and l: "is_temp p (out_temp l)" "temp_file (cli_fs c) (out_temp l) n (cli_fs c2)" "otarget (out_stream l) = Some (Own n)"
      "uses_temp_output l"
    and same: "cout c2 = cout c" "cerr c2 = cerr c"
    and R: "is_input c ins input i" "R i (written (obuf (out_stream l)))"
  shows "wp (finish_streaming p) (\<lambda>_ (l', (c', w')). streamed_into c R ins input p c')
    (\<lambda>e t. case abandon uses_temp_output t of (l', (c', w')) \<Rightarrow> nothing_streamed c p c') (l, (c2, w2))"
    (is "wp _ ?Q ?E _")
proof -
  have "wp (thenM (thenM (modify (on_stream ofstream_close)) check_stream)
      (bindM (gets (\<lambda>(l, s). out_temp l)) (\<lambda>temp_path. on_snd (commit_output_file temp_path p))))
    (\<lambda>_. wp (modify (\<lambda>(l, s). (l\<lparr>uses_temp_output := False\<rparr>, s))) ?Q ?E) ?E (l, (c2, w2))"
  proof (rule wp_conseq [OF finish_output_wp [OF l(1-3), where ossl = sample_ossl]], goal_cases)
    case (1 v s)
    obtain l3 c3 w3 where s: "s = (l3, (c3, w3))" by (metis prod_cases3)
    from 1 have "cout c3 = cout c" "cerr c3 = cerr c"
      using same by (cases c2; cases c3; simp add: s same_but_def)+
    then show ?case using 1 R by (auto simp: s wp_modify streamed_into_def)
  next
    case (2 e s)
    obtain l3 c3 w3 where s: "s = (l3, (c3, w3))" by (metis prod_cases3)
    from 2 have sb: "same_but l c2 l3 c3" and ip: "in_progress (cli_fs c) p l3 c3" by (simp_all add: s)
    have "cout c3 = cout c" "cerr c3 = cerr c" "uses_temp_output l3"
      using sb same l(4) by (cases c2; cases c3; cases l; cases l3; simp add: same_but_def)+
    then show ?case using streaming_handler [OF free, of l3 c3 w3] ip by (simp add: s streaming_at_def)
  qed
  then show ?thesis by (simp only: wp_sequence)
qed

lemma stream_opened_wp:
  assumes free: "temps_free (cli_fs c) p" and op: "writes R op"
    and i: "is_input c ins input i" "good i" and op1: "opened_on (cli_fs c) p n l c1" and u: "uses_temp_output l"
    and same: "cout c1 = cout c" "cerr c1 = cerr c"
  shows "wp (thenM (run_operation ins False op i) (finish_streaming p)) (\<lambda>_ (l', (c', w')). streamed_into c R ins input p c')
    (\<lambda>e t. case abandon uses_temp_output t of (l', (c', w')) \<Rightarrow> nothing_streamed c p c') (l, (c1, w1))"
proof -
  have fb: "written (obuf (out_stream l)) = []" "otarget (out_stream l) = Some (Own n)"
    using op1 by (auto simp: opened_on_def fresh_stream_def)
  show ?thesis
  proof (subst wp_thenM, rule wp_conseq [OF run_operation_file_wp [OF op i(2) fb(1)]], goal_cases)
    case (2 e s)
    obtain l2 c2 w2 where s: "s = (l2, (c2, w2))" by (metis prod_cases3)
    from 2 have "streaming_at c p l2 c2"
      using op1 u same fb(2) by (auto simp: s in_progress_def opened_on_def streaming_at_def)
    then show ?case using streaming_handler [OF free, of l2 c2 w2] by (simp add: s)
  next
    case (1 v s)
    obtain l2 c2 w2 where s: "s = (l2, (c2, w2))" by (metis prod_cases3)
    from 1 have "is_temp p (out_temp l2)" "temp_file (cli_fs c) (out_temp l2) n (cli_fs c2)" "otarget (out_stream l2) = Some (Own n)"
      "uses_temp_output l2" "cout c2 = cout c" "cerr c2 = cerr c" "R i (written (obuf (out_stream l2)))"
      using op1 u same fb(2) by (auto simp: s opened_on_def)
    from finish_streaming_wp [where R = R, OF free this(1-6) i(1) this(7)] show ?case unfolding s .
  qed
qed

text \<open>From the input on, before the output is opened.\<close>

lemma stream_into_file_wp:
  fixes l0 :: streaming_locals
  defines "l0 \<equiv> \<lparr>out_stream = ofstream_default, out_temp = [], uses_temp_output = False\<rparr>"
  assumes free: "temps_free (cli_fs c) p" and op: "writes R op"
    and i: "is_input c ins input i" "good i" and c1: "c1 = c\<lparr>cli_fs := cli_fs c1\<rparr>" "arrived (cli_fs c) (cli_fs c1)"
  shows "wp (thenM (thenM (on_snd (ensure_output_file_does_not_exist p))
        (thenM (open_cli_output_file ossl p) (modify (\<lambda>(l, s). (l\<lparr>uses_temp_output := True\<rparr>, s)))))
      (thenM (run_operation ins False op i) (finish_streaming p)))
    (\<lambda>_ (l', (c', w')). streamed_into c R ins input p c')
    (\<lambda>e t. case abandon uses_temp_output t of (l', (c', w')) \<Rightarrow> nothing_streamed c p c') (l0, (c1, w1))"
  unfolding wp_thenM [of "thenM (on_snd _) _"] wp_thenM [of "on_snd _"] wp_on_snd
proof (rule wp_conseq [OF ensure_output_file_wp], goal_cases)
  case (2 e s)
  obtain c2 w2 where s: "s = (c2, w2)" by fastforce
  from 2 have c2: "c2 = c\<lparr>cli_fs := cli_fs c2\<rparr>" "arrived (cli_fs c1) (cli_fs c2)"
    using fs_only_trans [OF c1(1), of c2] by (simp_all add: s)
  have "not_opened (cli_fs c) p l0 c2"
    using extends_arrived [OF extends_refl arrived_trans [OF c1(2) c2(2)]] by (simp add: not_opened_def ofstream_default_def l0_def)
  then have "streaming_at c p l0 c2" using fs_onlyD [OF c2(1)] by (simp add: streaming_at_def l0_def)
  from streaming_handler [OF free this, of w2] show ?case by (simp add: s)
next
  case (1 u s)
  obtain c2 w2 where s: "s = (c2, w2)" by fastforce
  from 1 have c2: "c2 = c\<lparr>cli_fs := cli_fs c2\<rparr>" "arrived (cli_fs c1) (cli_fs c2)"
    using fs_only_trans [OF c1(1), of c2] by (simp_all add: s)
  have start: "not_opened (cli_fs c) p l0 c2"
    using extends_arrived [OF extends_refl arrived_trans [OF c1(2) c2(2)]] by (simp add: not_opened_def ofstream_default_def l0_def)
  have only: "cout c3 = cout c \<and> cerr c3 = cerr c" if "same_but l0 c2 l3 c3" for l3 c3
  proof -
    have "c3 = c\<lparr>cli_fs := cli_fs c3\<rparr>" using that fs_only_trans [OF c2(1), of c3] by (simp add: same_but_def)
    then show ?thesis using fs_onlyD by blast
  qed
  show ?case
    unfolding s prod.case open_cli_output_file_def
  proof (subst wp_thenM, rule wp_conseq [OF open_output_attempts_wp [OF free start]], goal_cases)
    case (1 u s)
    obtain l3 c3 w3 where s: "s = (l3, (c3, w3))" by (metis prod_cases3)
    from 1 obtain n where sb: "same_but l0 c2 l3 c3" and op3: "opened_on (cli_fs c) p n l3 c3" by (auto simp: s)
    have "opened_on (cli_fs c) p n (l3\<lparr>uses_temp_output := True\<rparr>) c3" using op3 by (simp add: opened_on_def)
    from stream_opened_wp [OF free op i this] only [OF sb] show ?case unfolding s wp_modify by simp
  next
    case (2 e s)
    obtain l3 c3 w3 where s: "s = (l3, (c3, w3))" by (metis prod_cases3)
    from 2 have sb: "same_but l0 c2 l3 c3" and op3: "not_opened (cli_fs c) p l3 c3" by (simp_all add: s)
    have "\<not> uses_temp_output l3" using sb by (cases l3) (simp add: same_but_def l0_def)
    then have "streaming_at c p l3 c3" using only [OF sb] op3 by (simp add: streaming_at_def)
    from streaming_handler [OF free this, of w3] show ?case by (simp add: s)
  qed
qed

lemma streaming_to_file_wp:
  assumes free: "temps_free (cli_fs c) p" and op: "writes R op" and gd: "good (cin c)"
  shows "wp (run_streaming_file_command ossl ins input False p op)
    (\<lambda>_ (c', w'). streamed_into c R ins input p c') (\<lambda>e (c', w'). nothing_streamed c p c') (c, w)"
proof (cases ins)
  case True
  then have "is_input c ins input (cin c)" by (simp add: is_input_def)
  from stream_into_file_wp [OF free op this gd _ arrived_refl] True show ?thesis
    unfolding run_streaming_file_command_def wp_with_locals wp_on_throw by (simp add: wp_bindM wp_gets)
next
  case False
  let ?l0 = "\<lparr>out_stream = ofstream_default, out_temp = [], uses_temp_output = False\<rparr>"
  have "wp (on_snd (open_cli_input_file input))
    (\<lambda>i (l, (c', w')). l = ?l0 \<and> c' = c\<lparr>cli_fs := cli_fs c'\<rparr> \<and> arrived (cli_fs c) (cli_fs c') \<and> reads_file (cli_fs c) input i)
    (\<lambda>e (l, (c', w')). l = ?l0 \<and> c' = c\<lparr>cli_fs := cli_fs c'\<rparr> \<and> arrived (cli_fs c) (cli_fs c')) (?l0, (c, w))"
    unfolding wp_on_snd by (rule wp_conseq [OF open_cli_input_file_wp]) auto
  then show ?thesis
    using False
    unfolding run_streaming_file_command_def wp_with_locals wp_on_throw
  proof (simp only: if_False, subst wp_bindM, elim wp_conseq, goal_cases)
    case (1 i s)
    obtain c1 w1 where s: "s = (?l0, (c1, w1))" using 1 by (cases s) auto
    from 1 have "is_input c ins input i" "good i" "c1 = c\<lparr>cli_fs := cli_fs c1\<rparr>" "arrived (cli_fs c) (cli_fs c1)"
      using False by (simp_all add: s is_input_def reads_file_def)
    from stream_into_file_wp [OF free op this, of ossl w1] show ?case using False unfolding s by simp
  next
    case (2 e s)
    obtain c1 w1 where s: "s = (?l0, (c1, w1))" using 2 by (cases s) auto
    from 2 have c1: "c1 = c\<lparr>cli_fs := cli_fs c1\<rparr>" "not_opened (cli_fs c) p ?l0 c1"
      using extends_arrived [OF extends_refl] by (simp_all add: s not_opened_def ofstream_default_def)
    then have "streaming_at c p ?l0 c1" using fs_onlyD [OF c1(1)] by (simp add: streaming_at_def)
    from streaming_handler [OF free this, of w1] show ?case by (simp add: s)
  qed
qed

section \<open>Lemmas: reading back\<close>

lemma read_file_quiet:
  assumes "quiet (cli_fs c)" and "stream_limit (cli_fs c) = (\<lambda>_. None)" and "entries (cli_fs c) p = Some n"
    and "known (cli_fs c) n"
  shows "\<exists>c'. read_file p (c, w) = (Inr (contents (cli_fs c) n), (c', w))"
proof -
  obtain r fs1 where o: "ifstream_open p (cli_fs c) = (r, fs1)" by fastforce
  have "\<exists>i. r = Some i \<and> reads_file (cli_fs c) p i"
    using open_input_wp [OF extends_refl, where p = p and fs = "cli_fs c"] o assms(1, 3)
    by (cases r) (simp_all add: open_input_def wp_simps)
  then obtain i where i: "r = Some i" "good i" "\<not> faulty i" "remaining i = contents (cli_fs c) n"
    using assms(2-4) by (auto simp: reads_file_def)
  then show ?thesis
    by (simp add: read_file_def act_simps on_files_def o split: option.split)
qed

lemma hex_key_text:
  assumes "is_key256 key"
  shows "hex_encode key = Inr (hex_encode_loop key)" and "list_all is_hex_digit (hex_encode_loop key)"
    and "length (hex_encode_loop key) = 64" and "hex_decode (hex_encode_loop key) = Inr key"
proof -
  show "hex_encode key = Inr (hex_encode_loop key)"
    using assms by (simp add: hex_encode_def is_key256_def string_max_size_def)
  show d: "hex_decode (hex_encode_loop key) = Inr key" by (rule hex_decode_encode)
  then show "list_all is_hex_digit (hex_encode_loop key)" using hex_decode_iff [of "hex_encode_loop key"] by auto
  show "length (hex_encode_loop key) = 64" using assms by (simp add: is_key256_def)
qed

lemma key_from_file_text:
  assumes "read_file p s = (Inr (bytes_from_text (hex_encode_loop key @ newline)), s')" and "is_key256 key"
  shows "key_from_file p s = (Inr key, s')"
proof -
  note h = hex_key_text [OF assms(2)]
  have "hex_encode_loop key \<noteq> []" using h(3) by (metis list.size(3) zero_neq_numeral)
  from trim_key_line [OF h(2) this] h show ?thesis
    by (simp add: key_from_file_def act_simps assms(1) key_from_hex_apply)
qed

text \<open>What the writers do to a stream that takes everything.\<close>

lemma ostream_write_ok: "\<not> ofail (ostream_write data o1) \<Longrightarrow> written (ostream_write data o1) = written o1 @ data \<and> \<not> ofail o1"
  by (auto simp: ostream_write_def split: if_splits option.splits)

lemma ostream_write_room: "room o1 = None \<Longrightarrow> \<not> ofail o1 \<Longrightarrow> \<not> ofail (ostream_write data o1) \<and> room (ostream_write data o1) = None"
  by (simp add: ostream_write_def)

lemma undisturbed_temps: "undisturbed fs p \<Longrightarrow> temps_free fs p"
  by (simp add: undisturbed_def temps_free_def)

text \<open>Nothing fails: the output is written.\<close>

lemma write_new_output_file_returns:
  assumes "quiet (cli_fs c)" and "stream_limit (cli_fs c) = (\<lambda>_. None)" and "rand_available ossl" and "undisturbed (cli_fs c) p"
    and "\<And>o1. room o1 = None \<Longrightarrow> \<not> ofail o1 \<Longrightarrow> \<exists>o2. writer o1 = (Inr (), o2) \<and> \<not> ofail o2 \<and> written o2 = written o1 @ d"
  shows "\<exists>c' w' n. write_new_output_file ossl p writer (c, w) = (Inr (), (c', w')) \<and>
    created (cli_fs c) p n d (cli_fs c') \<and> extends (cli_fs c) {(p, n)} (cli_fs c')"
proof -
  obtain r c' w' where run: "write_new_output_file ossl p writer (c, w) = (r, (c', w'))" by (metis prod_cases3)
  have fresh: "\<exists>o2. writer o1 = (Inr (), o2) \<and> \<not> ofail o2 \<and> written o2 = d" if "fresh_buffer (cli_fs c) o1" for o1
    using assms(5) [of o1] that assms(2) by (auto simp: fresh_buffer_def limited_def)
  note out = write_new_output_file_wp [OF undisturbed_temps [OF assms(4)], of ossl writer w,
    unfolded new_output_def no_output_def writer_fault_def]
  show ?thesis
  proof (cases r)
    case (Inl e)
    from wp_InlD [OF out run [unfolded Inl]] have left: "left_over (cli_fs c) p {} (cli_fs c')"
      and fault: "output_fault ossl (cli_fs c) p (\<lambda>e. \<exists>o1 o2. fresh_buffer (cli_fs c) o1 \<and>
         (writer o1 = (Inl e, o2) \<or> writer o1 = (Inr (), o2) \<and> ofail o2)) (cli_fs c') e" by simp_all
    from left assms(1) have "extends (cli_fs c) {} (cli_fs c')" by (auto simp: left_over_def)
    then have "undisturbed (cli_fs c') p" by (rule undisturbed_after [OF assms(4)]) simp
    then have "entries (cli_fs c') p = None" by (simp add: undisturbed_def)
    with fault assms(1, 3) obtain o1 o2 where "fresh_buffer (cli_fs c) o1"
      "writer o1 = (Inl e, o2) \<or> writer o1 = (Inr (), o2) \<and> ofail o2" by (auto simp: output_fault_def)
    with fresh [of o1] show ?thesis by auto
  next
    case (Inr u)
    from wp_InrD [OF out run [unfolded Inr]] obtain n o1 o2 where "fresh_buffer (cli_fs c) o1" "writer o1 = (Inr (), o2)"
      "created (cli_fs c) p n (written o2) (cli_fs c')" "left_over (cli_fs c) p {(p, n)} (cli_fs c')" by auto
    with fresh [of o1] assms(1) run Inr show ?thesis by (fastforce simp: left_over_def)
  qed
qed

lemma writers:
  "room o1 = None \<Longrightarrow> \<not> ofail o1 \<Longrightarrow>
     \<exists>o2. modify (ostream_write data) o1 = (Inr (), o2) \<and> \<not> ofail o2 \<and> written o2 = written o1 @ data"
  "room o1 = None \<Longrightarrow> \<not> ofail o1 \<Longrightarrow>
     \<exists>o2. thenM (modify (ostream_write a)) (modify (ostream_write b)) o1 = (Inr (), o2) \<and> \<not> ofail o2 \<and> written o2 = written o1 @ a @ b"
  by (auto simp: act_simps ostream_write_def)

text \<open>The operations of the commands write what the sealed formats say.\<close>

lemma writesI:
  assumes "\<And>i o1 w. good i \<Longrightarrow> wp op (Q i o1) (E i o1) (i, o1, w)"
    and "\<And>i o1 a i' o2 w'. Q i o1 a (i', o2, w') \<Longrightarrow> \<exists>d. written o2 = written o1 @ d \<and> R i d"
  shows "writes R op"
  unfolding writes_def
proof (intro allI impI)
  fix i o1 w assume "good i"
  from assms(1) [OF this]
  show "wp op (\<lambda>_ (i', o2, w'). \<exists>d. written o2 = written o1 @ d \<and> R i d) (\<lambda>_ _. True) (i, o1, w)"
    by (rule wp_conseq) (use assms(2) in auto)
qed

lemma stream_writes:
  assumes "gcm_documented ossl view ks tg" and "kdf_documented ossl kdf scrypt"
  shows "writes (\<lambda>i d. skf1_file ks tg kdf key aad d (split_chunks 1048576 (remaining i))) (seal_file_stream ossl key aad)"
    and "writes (\<lambda>i d. \<exists>chunks. skf1_file ks tg kdf key aad (remaining i) chunks \<and> d = concat chunks) (open_file_stream ossl key aad)"
    and "pw \<noteq> [] \<Longrightarrow>
      writes (\<lambda>i d. skp1_file ks tg scrypt pw aad d (split_chunks 1048576 (remaining i))) (seal_password_stream ossl pw aad)"
    and "pw \<noteq> [] \<Longrightarrow>
      writes (\<lambda>i d. \<exists>chunks. skp1_file ks tg scrypt pw aad (remaining i) chunks \<and> d = concat chunks) (open_password_stream ossl pw aad)"
proof -
  note w = stream_sink.seal_file_wp [OF assms, where key = key and aad = aad]
    stream_sink.open_file_wp [OF assms, where key = key and aad = aad]
    stream_sink.seal_password_wp [OF assms, where pw = pw and aad = aad]
    stream_sink.open_password_wp [OF assms, where pw = pw and aad = aad]
  show "writes (\<lambda>i d. skf1_file ks tg kdf key aad d (split_chunks 1048576 (remaining i))) (seal_file_stream ossl key aad)"
    unfolding stream_functions by (rule writesI, erule w(1)) auto
  show "writes (\<lambda>i d. \<exists>chunks. skf1_file ks tg kdf key aad (remaining i) chunks \<and> d = concat chunks) (open_file_stream ossl key aad)"
    unfolding stream_functions by (rule writesI, erule w(2)) auto
  show "writes (\<lambda>i d. skp1_file ks tg scrypt pw aad d (split_chunks 1048576 (remaining i))) (seal_password_stream ossl pw aad)"
    if "pw \<noteq> []"
    unfolding stream_functions thenM_require_password [OF that] by (rule writesI, erule w(3) [OF _ that]) auto
  show "writes (\<lambda>i d. \<exists>chunks. skp1_file ks tg scrypt pw aad (remaining i) chunks \<and> d = concat chunks) (open_password_stream ossl pw aad)"
    if "pw \<noteq> []"
    unfolding stream_functions thenM_require_password [OF that] by (rule writesI, erule w(4) [OF _ that]) auto
qed

text \<open>The number of calls an attempt loop makes.\<close>

lemma syscall_clock: "clock (snd (syscall fs)) = Suc (clock fs)"
  using syscall_arrived [of fs] by (cases "syscall fs") simp

lemma try_open_clock:
  assumes "try_open_output_exclusive p (output_default, fs) = (r, out, fs')"
  shows "clock fs' \<le> clock fs + (if r = already_exists then 1 else 3) \<and> (r \<noteq> opened \<longrightarrow> ofile out = None)"
proof -
  obtain b1 fs1 where 1: "syscall fs = (b1, fs1)" by fastforce
  define fs2 where "fs2 = (new_file p [] (Own (next_own fs1)) fs1)\<lparr>next_own := Suc (next_own fs1)\<rparr>"
  obtain b2 fs3 where 2: "syscall fs2 = (b2, fs3)" by fastforce
  obtain b3 fs4 where 3: "syscall fs3 = (b3, fs4)" by fastforce
  have "clock fs1 = Suc (clock fs)" "clock fs3 = Suc (clock fs1)" "clock fs4 = Suc (clock fs3)"
    using syscall_arrived [OF 1] syscall_arrived [OF 2] syscall_arrived [OF 3] by (simp_all add: fs2_def new_file_def)
  then show ?thesis
    using assms 1 2 3
    by (cases "b1 \<or> entries fs1 p \<noteq> None"; cases b1; cases b2)
      (auto simp: try_open_output_exclusive_def sys_open_excl_def sys_plain_def output_assign_def close_quietly_def
        output_default_def output_open_def fs2_def [symmetric])
qed

lemma open_temp_attempts_clock:
  "wp (open_temp_attempts ossl m p) (\<lambda>_ (fs', w'). clock fs' \<le> clock fs + m + 2)
     (\<lambda>_ (fs', w'). clock fs' \<le> clock fs + m + 2) (fs, w)"
proof (induction m arbitrary: fs w)
  case (Suc m)
  show ?case
    unfolding open_temp_attempts.simps
  proof (subst wp_bindM, subst wp_on_snd, rule wpI, goal_cases)
    case (1 tp w1)
    obtain r out fs1 where t: "try_open_output_exclusive tp (output_default, fs) = (r, out, fs1)" by (metis prod_cases3)
    note c = try_open_clock [OF t]
    have "r \<noteq> opened \<Longrightarrow> output_destroy (out, fs1) = fs1" using c by (simp add: output_destroy_def close_quietly_def)
    moreover have "r = already_exists \<Longrightarrow> wp (open_temp_attempts ossl m p) (\<lambda>_ (fs', w'). clock fs' \<le> clock fs + Suc m + 2)
        (\<lambda>_ (fs', w'). clock fs' \<le> clock fs + Suc m + 2) (fs1, w1)"
      by (rule wp_conseq [OF Suc.IH]) (use c in auto)
    ultimately show ?case using t c by (cases r) (auto simp: wp_simps)
  qed simp
qed (simp add: wp_def)

lemma open_output_attempts_clock:
  "wp (open_output_attempts ossl m p) (\<lambda>_ (l', (c', w')). clock (cli_fs c') \<le> clock (cli_fs c) + 2 * m)
     (\<lambda>_ (l', (c', w')). clock (cli_fs c') \<le> clock (cli_fs c) + 2 * m) (l :: 'l output_locals_scheme, (c, w))"
proof (induction m arbitrary: l c w)
  case (Suc m)
  let ?B = "\<lambda>_ (l', (c', w')). clock (cli_fs c') \<le> clock (cli_fs c) + 2 * Suc m"
  show ?case
    unfolding open_output_attempts.simps
  proof (subst wp_bindM, subst wp_on_snd, rule wp_conseq [OF temporary_output_path_for_wp], goal_cases)
    case (1 q s)
    obtain w1 where s: "s = (c, w1)" using 1 by (cases s) auto
    obtain r fs1 where x: "fs_exists q (cli_fs c) = (r, fs1)" by fastforce
    obtain b1 where "syscall (cli_fs c) = (b1, fs1)" using x by (auto simp: fs_exists_def split: prod.splits)
    with syscall_arrived have k1: "clock fs1 = Suc (clock (cli_fs c))" by blast
    obtain out fs2 where o: "ofstream_open q (out_stream l, fs1) = (out, fs2)" by fastforce
    obtain b2 fs3 where 2: "syscall fs1 = (b2, fs3)" by fastforce
    have k2: "clock fs2 = Suc (clock fs1)"
      using o 2 syscall_arrived [OF 2] by (auto simp: ofstream_open_def Let_def new_file_def split: if_splits option.splits)
    have again: "wp (open_output_attempts ossl m p) ?B ?B (l', (c', w'))"
      if "clock (cli_fs c') \<le> clock (cli_fs c) + 2" for l' :: "'l output_locals_scheme" and c' w'
      by (rule wp_conseq [OF Suc.IH]) (use that in auto)
    show ?case
      unfolding s using x o k1 k2 again
      by (simp add: wp_simps on_stream_def)
  next
    case (2 e s)
    then show ?case by (cases s) simp
  qed
qed (simp add: wp_def)

section \<open>Properties\<close>

text \<open>A state for the witnesses: the file system of before, empty standard streams.\<close>

definition sample_cli :: cli where
  "sample_cli =
     \<lparr>cli_fs = sample_fs, cin = istream_of [], cout = ostream_empty, cerr = [], buffer_fault = None,
      status_what = (\<lambda>_. ''status''), build_version = ''0'', flush_fault = False\<rparr>"

lemma sample_cli_simps [simp]:
  "cli_fs sample_cli = sample_fs" "cin sample_cli = istream_of []" "cout sample_cli = ostream_empty" "cerr sample_cli = []"
  by (simp_all add: sample_cli_def)

lemma sample_fs_outside: "stream_limit sample_fs = (\<lambda>_. None)"
  by simp

text \<open>
  C37: The attempt loops for a temporary file end after a bounded number of calls of the operating
  system, whatever these return: 34 in the library, 64 in the command line program.
\<close>

theorem temporary_attempts_bounded:
  "(case open_unique_temp_output ossl p (fs, w) of (_, (fs', _)) \<Rightarrow> clock fs' \<le> clock fs + 34) \<and>
   (case open_cli_output_file ossl p (l, (c, v)) of (_, (_, (c', _))) \<Rightarrow> clock (cli_fs c') \<le> clock (cli_fs c) + 64)"
proof
  obtain r fs' w' where 1: "open_temp_attempts ossl 32 p (fs, w) = (r, (fs', w'))" by (metis prod_cases3)
  from wp_result [where P = "\<lambda>_ (fs', w'). clock fs' \<le> clock fs + 32 + 2", OF open_temp_attempts_clock 1]
  show "case open_unique_temp_output ossl p (fs, w) of (_, (fs', _)) \<Rightarrow> clock fs' \<le> clock fs + 34"
    by (simp add: open_unique_temp_output_def 1)
  obtain r l' c' w' where 2: "open_output_attempts ossl 32 p (l, (c, v)) = (r, (l', (c', w')))" by (metis prod_cases4)
  from wp_result [where P = "\<lambda>_ (l', (c', w')). clock (cli_fs c') \<le> clock (cli_fs c) + 2 * 32", OF open_output_attempts_clock 2]
  show "case open_cli_output_file ossl p (l, (c, v)) of (_, (_, (c', _))) \<Rightarrow> clock (cli_fs c') \<le> clock (cli_fs c) + 64"
    by (simp add: open_cli_output_file_def 2)
qed

text \<open>
  C14: Writing a new file from the command line is all or nothing, as long as no other program uses the
  random temporary names. On success the output is a new file with exactly the
  data; on failure there is no output of this program. Nothing that existed changes, a temporary file stays behind
  only after a fault, and when no call fails the only reason is that the output exists.
\<close>

theorem new_output_atomic:
  assumes "temps_free (cli_fs c) p"
  shows "case write_binary_file ossl p data (c, w) of
      (Inr _, (c', _)) \<Rightarrow> \<exists>n. created (cli_fs c) p n data (cli_fs c') \<and> left_over (cli_fs c) p {(p, n)} (cli_fs c')
    | (Inl e, (c', _)) \<Rightarrow> left_over (cli_fs c) p {} (cli_fs c') \<and>
        (\<not> quiet (cli_fs c) \<or> \<not> rand_available ossl \<or> limited (cli_fs c) \<or>
         e = std_exception ''Output file already exists'' \<and> entries (cli_fs c') p \<noteq> None)"
proof -
  obtain r c' w' where run: "write_new_output_file ossl p (modify (ostream_write data)) (c, w) = (r, (c', w'))" by (metis prod_cases3)
  note out = write_new_output_file_wp [OF assms, of ossl "modify (ostream_write data)" w,
    unfolded new_output_def no_output_def writer_fault_def]
  show ?thesis
  proof (cases r)
    case (Inl e)
    have "limited (cli_fs c)" if "fresh_buffer (cli_fs c) o1" "ofail (ostream_write data o1)" for o1
      using that ostream_write_room [of o1 data] by (auto simp: fresh_buffer_def)
    then show ?thesis
      using wp_InlD [OF out run [unfolded Inl]] run Inl by (auto simp: write_binary_file_def output_fault_def)
  next
    case (Inr u)
    from wp_InrD [OF out run [unfolded Inr]] obtain n o1 where "fresh_buffer (cli_fs c) o1" "\<not> ofail (ostream_write data o1)"
      "created (cli_fs c) p n (written (ostream_write data o1)) (cli_fs c')" "left_over (cli_fs c) p {(p, n)} (cli_fs c')" by auto
    then show ?thesis using ostream_write_ok [of data o1] run Inr by (auto simp: write_binary_file_def fresh_buffer_def)
  qed
qed

theorem new_output_atomic_witness:
  "\<exists>c' w' n. write_binary_file sample_ossl ''o'' [1, 2] (sample_cli, 0) = (Inr (), (c', w')) \<and>
     created sample_fs ''o'' n [1, 2] (cli_fs c') \<and> left_over sample_fs ''o'' {(''o'', n)} (cli_fs c')"
proof -
  have free: "undisturbed sample_fs ''o''" by (simp add: sample_undisturbed)
  then have "temps_free (cli_fs sample_cli) ''o''" using undisturbed_temps by simp
  note all_or_nothing = new_output_atomic [OF this, of sample_ossl "[1, 2]" 0]
  have "\<exists>c' w' n. write_new_output_file sample_ossl ''o'' (modify (ostream_write [1, 2])) (sample_cli, 0) = (Inr (), (c', w')) \<and>
      created (cli_fs sample_cli) ''o'' n [1, 2] (cli_fs c') \<and> extends (cli_fs sample_cli) {(''o'', n)} (cli_fs c')"
    by (rule write_new_output_file_returns [OF _ _ sample_rand_available])
      (simp_all add: free, auto dest: writers(1))
  then obtain c' w' where "write_binary_file sample_ossl ''o'' [1, 2] (sample_cli, 0) = (Inr (), (c', w'))"
    by (auto simp: write_binary_file_def)
  with all_or_nothing show ?thesis by simp
qed

text \<open>
  C26: A key file reads back: when no call fails and the names are free, \<^verbatim>\<open>write_key_file\<close>
  returns, the file is the 64 lower-case digits of the key and a newline, and \<^verbatim>\<open>key_from_file\<close> of it returns
  the key.
\<close>

theorem key_file_roundtrip:
  assumes "is_key256 key" and "rand_available ossl" and "quiet (cli_fs c)" and "stream_limit (cli_fs c) = (\<lambda>_. None)"
    and "undisturbed (cli_fs c) p"
  shows "\<exists>c' w' n s. write_key_file ossl p key (c, w) = (Inr (), (c', w')) \<and>
    entries (cli_fs c') p = Some n \<and> contents (cli_fs c') n = bytes_from_text (hex_encode_loop key @ newline) \<and>
    key_from_file p (c', w') = (Inr key, s)"
proof -
  let ?writer = "thenM (modify (ostream_write (bytes_from_text (hex_encode_loop key)))) (modify (ostream_write (bytes_from_text newline)))"
  let ?d = "bytes_from_text (hex_encode_loop key @ newline)"
  have as_new: "write_key_file ossl p key = write_new_output_file ossl p ?writer"
    by (simp add: write_key_file_def hex_key_text(1) [OF assms(1)] bindM_def thenM_def)
  have d: "?d = bytes_from_text (hex_encode_loop key) @ bytes_from_text newline" by (simp add: bytes_from_text_def)
  obtain c' w' n where run: "write_new_output_file ossl p ?writer (c, w) = (Inr (), (c', w'))"
    and cr: "created (cli_fs c) p n ?d (cli_fs c')" and ext: "extends (cli_fs c) {(p, n)} (cli_fs c')"
    using write_new_output_file_returns [OF assms(3, 4, 2, 5), of ?writer ?d w] writers(2) unfolding d by blast
  have fs': "entries (cli_fs c') p = Some (Own n)" "known (cli_fs c') (Own n)" "contents (cli_fs c') (Own n) = ?d"
    using cr by (simp_all add: created_def known_def)
  have "stream_limit (cli_fs c') = (\<lambda>_. None)" using ext assms(4) by (simp add: extends_def)
  from read_file_quiet [OF extends_quiet [OF ext assms(3)] this fs'(1, 2)] fs'(3)
  obtain c'' where "read_file p (c', w') = (Inr ?d, (c'', w'))" by metis
  from key_from_file_text [OF this assms(1)] show ?thesis using as_new run fs' by auto
qed

theorem key_file_roundtrip_witness:
  "\<exists>c' w' s. write_key_file sample_ossl ''k'' (replicate 32 0xab) (sample_cli, 0) = (Inr (), (c', w')) \<and>
     key_from_file ''k'' (c', w') = (Inr (replicate 32 0xab), s)"
  using key_file_roundtrip [where ossl = sample_ossl and key = "replicate 32 0xab" and c = sample_cli and p = "''k''" and w = 0]
    sample_rand_available
  by (auto simp: is_key256_def sample_undisturbed simp del: replicate.simps)

text \<open>Nothing goes to the standard output, and an output of this program has the property or is not there.\<close>

definition streamed :: "cli \<Rightarrow> path \<Rightarrow> (bytes \<Rightarrow> bool) \<Rightarrow> (cli_error + unit) \<times> 'w cli_state \<Rightarrow> bool" where
  "streamed c p P res =
     (case res of
        (Inr _, (c', _)) \<Rightarrow> cout c' = cout c \<and>
          (\<exists>n d. P d \<and> created (cli_fs c) p n d (cli_fs c') \<and> left_over (cli_fs c) p {(p, n)} (cli_fs c'))
      | (Inl _, (c', _)) \<Rightarrow> cout c' = cout c \<and> left_over (cli_fs c) p {} (cli_fs c'))"

lemma streamedI:
  assumes "temps_free (cli_fs c) p" and "good (cin c)" and "writes R op"
  shows "streamed c p (R (cin c)) (run_streaming_file_command ossl True input False p op (c, w))"
proof -
  obtain r c' w' where run: "run_streaming_file_command ossl True input False p op (c, w) = (r, (c', w'))" by (metis prod_cases3)
  note wp' = streaming_to_file_wp [OF assms(1, 3, 2), of ossl True input w]
  show ?thesis
  proof (cases r)
    case (Inl e)
    then show ?thesis using wp_InlD [OF wp' run [unfolded Inl]] run by (simp add: streamed_def nothing_streamed_def)
  next
    case (Inr u)
    then show ?thesis using wp_InrD [OF wp' run [unfolded Inr]] run by (auto simp: streamed_def streamed_into_def is_input_def)
  qed
qed

text \<open>
  C9: Commands that read the standard input and write a file. The output appears only after the whole
  operation has succeeded, so \<^verbatim>\<open>open-file --in -\<close> publishes authenticated plaintext and nothing
  else, and \<^verbatim>\<open>seal-file --in -\<close> a file that seals all of the input; otherwise no
  output of this program is there. Nothing goes to the standard output.
\<close>

theorem streamed_outputs:
  assumes "gcm_documented ossl view ks tg" and "kdf_documented ossl kdf scrypt"
    and "temps_free (cli_fs c) p" and "good (cin c)" and "pw \<noteq> []"
  shows "streamed c p (\<lambda>d. \<exists>chunks. skf1_file ks tg kdf key aad (remaining (cin c)) chunks \<and> d = concat chunks)
      (run_streaming_file_command ossl True input False p (open_file_stream ossl key aad) (c, w)) \<and>
    streamed c p (\<lambda>d. \<exists>chunks. skp1_file ks tg scrypt pw aad (remaining (cin c)) chunks \<and> d = concat chunks)
      (run_streaming_file_command ossl True input False p (open_password_stream ossl pw aad) (c, w)) \<and>
    streamed c p (\<lambda>d. skf1_file ks tg kdf key aad d (split_chunks 1048576 (remaining (cin c))))
      (run_streaming_file_command ossl True input False p (seal_file_stream ossl key aad) (c, w)) \<and>
    streamed c p (\<lambda>d. skp1_file ks tg scrypt pw aad d (split_chunks 1048576 (remaining (cin c))))
      (run_streaming_file_command ossl True input False p (seal_password_stream ossl pw aad) (c, w))"
  by (intro conjI streamedI [OF assms(3, 4)] stream_writes(1, 2) [OF assms(1, 2)] stream_writes(3, 4) [OF assms(1, 2, 5)])

theorem streamed_outputs_witness:
  "streamed sample_cli ''o'' (\<lambda>d. skf1_file sample_ks sample_tag sample_kdf (replicate 32 1) [5] d [[]])
     (run_streaming_file_command sample_ossl True ''-'' False ''o'' (seal_file_stream sample_ossl (replicate 32 1) [5]) (sample_cli, 0))"
  using streamed_outputs [OF sample_documented sample_kdf_documented, where c = sample_cli and p = "''o''" and pw = "[9]"
      and key = "replicate 32 1" and aad = "[5]" and input = "''-''" and w = 0]
    undisturbed_temps [OF sample_undisturbed, of "''o''"]
  by (simp add: split_chunks_last del: replicate.simps)

end
