(* ===== verification/Cli.thy ===== *)
theory Cli
  imports Cli_Output Base64 Aead
begin

text \<open>
  \<^verbatim>\<open>securekit::cli::run\<close>: the dispatch on the arguments, group by group in the order
  of the code, and the handlers around it. An argument list stands for \<^verbatim>\<open>argv\<close>, its
  length for \<^verbatim>\<open>argc\<close>. Where C++ leaves the order in which the arguments of a call are
  evaluated open, they are evaluated from left to right.
\<close>

section \<open>The code\<close>

definition is_arg :: "string \<Rightarrow> string \<Rightarrow> bool" where
  "is_arg arg expected \<longleftrightarrow> arg = expected"

text \<open>\<^verbatim>\<open>std::cout << securekit::hex_encode(bytes) << newline\<close>\<close>

definition print_hex :: "bytes \<Rightarrow> ('w, unit) cli_act" where
  "print_hex b = bindM (library_result (hex_encode b)) print_line"

definition run_help :: "string list \<Rightarrow> ('w, int) cli_act \<Rightarrow> ('w, int) cli_act" where
  "run_help argv otherwise =
     (let argc = length argv in
      if argc = 1 then thenM print_help (ret 0)
      else if argc = 2 \<and> (argv ! 1 = ''help'' \<or> argv ! 1 = ''--help'') then thenM print_help (ret 0)
      else if argc = 2 \<and> (argv ! 1 = ''version'' \<or> argv ! 1 = ''--version'') then thenM print_version (ret 0)
      else if argc = 3 \<and> is_arg (argv ! 1) ''help'' then
        bindM (print_command_help (argv ! 2)) (\<lambda>known_command.
        if known_command then ret 0 else fail ''unsupported command'')
      else if 2 \<le> argc \<and> is_arg (argv ! 1) ''version'' then fail version_usage
      else otherwise)"

definition run_digests ::
  "('w, 'c, 'd) openssl \<Rightarrow> string list \<Rightarrow> ('w, int) cli_act \<Rightarrow> ('w, int) cli_act" where
  "run_digests ossl argv otherwise =
     (let argc = length argv in
      if argc = 3 \<and> is_arg (argv ! 1) ''token'' then
        bindM (parse_size (argv ! 2)) (\<lambda>size.
        bindM (library (random_token ossl size)) (\<lambda>token. thenM (print_line token) (ret 0)))
      else if 2 \<le> argc \<and> is_arg (argv ! 1) ''token'' then fail token_usage
      else if argc = 4 \<and> is_arg (argv ! 1) ''sha256'' \<and> is_arg (argv ! 2) ''--text'' then
        bindM (library (sha256 ossl (bytes_from_text (argv ! 3)))) (\<lambda>d. thenM (print_hex d) (ret 0))
      else if argc = 4 \<and> is_arg (argv ! 1) ''sha256'' \<and> is_arg (argv ! 2) ''--file'' then
        bindM (read_file (argv ! 3)) (\<lambda>data.
        bindM (library (sha256 ossl data)) (\<lambda>d. thenM (print_hex d) (ret 0)))
      else if 2 \<le> argc \<and> is_arg (argv ! 1) ''sha256'' then fail sha256_usage
      else if argc = 6 \<and> is_arg (argv ! 1) ''hmac-sha256'' \<and> is_arg (argv ! 2) ''--key-hex'' \<and>
        is_arg (argv ! 4) ''--text'' then
        bindM (library_result (hex_decode (argv ! 3))) (\<lambda>key.
        bindM (library (hmac_sha256 ossl key (bytes_from_text (argv ! 5)))) (\<lambda>d. thenM (print_hex d) (ret 0)))
      else if argc = 6 \<and> is_arg (argv ! 1) ''hmac-sha256'' \<and> is_arg (argv ! 2) ''--key-hex'' \<and>
        is_arg (argv ! 4) ''--file'' then
        bindM (library_result (hex_decode (argv ! 3))) (\<lambda>key.
        bindM (read_file (argv ! 5)) (\<lambda>data.
        bindM (library (hmac_sha256 ossl key data)) (\<lambda>d. thenM (print_hex d) (ret 0))))
      else if 2 \<le> argc \<and> is_arg (argv ! 1) ''hmac-sha256'' then fail hmac_sha256_usage
      else if argc = 10 \<and> is_arg (argv ! 1) ''hkdf-sha256'' \<and> is_arg (argv ! 2) ''--key-hex'' \<and>
        is_arg (argv ! 4) ''--salt-hex'' \<and> is_arg (argv ! 8) ''--out-size'' \<and>
        (is_arg (argv ! 6) ''--info-hex'' \<or> is_arg (argv ! 6) ''--info-text'') then
        bindM (if is_arg (argv ! 6) ''--info-hex'' then library_result (hex_decode (argv ! 7))
               else ret (bytes_from_text (argv ! 7))) (\<lambda>info.
        bindM (library_result (hex_decode (argv ! 3))) (\<lambda>key.
        bindM (library_result (hex_decode (argv ! 5))) (\<lambda>salt_bytes.
        bindM (parse_size (argv ! 9)) (\<lambda>size.
        bindM (library (hkdf_sha256 ossl key salt_bytes info size)) (\<lambda>d. thenM (print_hex d) (ret 0))))))
      else if 2 \<le> argc \<and> is_arg (argv ! 1) ''hkdf-sha256'' then fail hkdf_sha256_usage
      else otherwise)"

definition run_encodings :: "string list \<Rightarrow> ('w, int) cli_act \<Rightarrow> ('w, int) cli_act" where
  "run_encodings argv otherwise =
     (let argc = length argv in
      if argc = 4 \<and> is_arg (argv ! 1) ''hex-encode'' \<and> is_arg (argv ! 2) ''--text'' then
        thenM (print_hex (bytes_from_text (argv ! 3))) (ret 0)
      else if 2 \<le> argc \<and> is_arg (argv ! 1) ''hex-encode'' then fail hex_encode_usage
      else if argc = 4 \<and> is_arg (argv ! 1) ''hex-decode'' \<and> is_arg (argv ! 2) ''--text'' then
        bindM (library_result (hex_decode (argv ! 3))) (\<lambda>b. thenM (write_bytes b) (ret 0))
      else if 2 \<le> argc \<and> is_arg (argv ! 1) ''hex-decode'' then fail hex_decode_usage
      else if argc = 4 \<and> is_arg (argv ! 1) ''base64url-encode'' \<and> is_arg (argv ! 2) ''--text'' then
        bindM (library_result (base64url_encode (bytes_from_text (argv ! 3)))) (\<lambda>text. thenM (print_line text) (ret 0))
      else if 2 \<le> argc \<and> is_arg (argv ! 1) ''base64url-encode'' then fail base64url_encode_usage
      else if argc = 4 \<and> is_arg (argv ! 1) ''base64url-decode'' \<and> is_arg (argv ! 2) ''--text'' then
        bindM (library_result (base64url_decode (argv ! 3))) (\<lambda>b. thenM (write_bytes b) (ret 0))
      else if 2 \<le> argc \<and> is_arg (argv ! 1) ''base64url-decode'' then fail base64url_decode_usage
      else otherwise)"

definition run_keys ::
  "('w, 'c, 'd) openssl \<Rightarrow> string list \<Rightarrow> ('w, int) cli_act \<Rightarrow> ('w, int) cli_act" where
  "run_keys ossl argv otherwise =
     (let argc = length argv in
      if argc = 4 \<and> is_arg (argv ! 1) ''keygen'' \<and> is_arg (argv ! 2) ''--out'' then
        thenM (write_generated_key ossl (argv ! 3)) (ret 0)
      else if 2 \<le> argc \<and> is_arg (argv ! 1) ''keygen'' then fail keygen_usage
      else if 2 \<le> argc \<and> is_arg (argv ! 1) ''wrap-key'' then
        bindM (parse_wrap_key_options argv) (\<lambda>options.
        bindM (library (wrap_key ossl (wk_key options) (wk_wrapping_key options) [])) (\<lambda>packet.
        thenM (if wk_has_output options then write_binary_file ossl (wk_output options) packet else print_hex packet)
              (ret 0)))
      else if 2 \<le> argc \<and> is_arg (argv ! 1) ''unwrap-key'' then
        bindM (parse_unwrap_key_options argv) (\<lambda>options.
        bindM (library (unwrap_key ossl (uk_packet options) (uk_wrapping_key options) [])) (\<lambda>key.
        thenM (if uk_has_output options then write_key_file ossl (uk_output options) key else print_hex key)
              (ret 0)))
      else otherwise)"

definition run_packets ::
  "('w, 'c, 'd) openssl \<Rightarrow> string list \<Rightarrow> ('w, int) cli_act \<Rightarrow> ('w, int) cli_act" where
  "run_packets ossl argv otherwise =
     (let argc = length argv in
      if 2 \<le> argc \<and> is_arg (argv ! 1) ''encrypt'' then
        bindM (parse_encrypt_options argv) (\<lambda>options.
        bindM (library (encrypt ossl (en_plaintext options) (en_key options) (en_aad options))) (\<lambda>packet.
        thenM (if en_has_output options then write_binary_file ossl (en_output options) packet else print_hex packet)
              (ret 0)))
      else if 2 \<le> argc \<and> is_arg (argv ! 1) ''decrypt'' then
        bindM (parse_decrypt_options argv) (\<lambda>options.
        bindM (library (decrypt ossl (de_packet options) (de_key options) (de_aad options))) (\<lambda>plaintext.
        thenM (if de_has_output options then write_binary_file ossl (de_output options) plaintext else write_bytes plaintext)
              (ret 0)))
      else otherwise)"

definition run_files ::
  "('w, 'c, 'd) openssl \<Rightarrow> string list \<Rightarrow> ('w, int) cli_act \<Rightarrow> ('w, int) cli_act" where
  "run_files ossl argv otherwise =
     (let argc = length argv in
      if 2 \<le> argc \<and> (is_arg (argv ! 1) ''seal-file'' \<or> is_arg (argv ! 1) ''open-file'' \<or> is_arg (argv ! 1) ''verify-file'') then
        bindM (parse_file_command_options argv) (\<lambda>options.
        let uses_standard_stream = fc_input_is_stdin options \<or> fc_output_is_stdout options;
            streaming = run_streaming_file_command ossl (fc_input_is_stdin options) (fc_input options)
              (fc_output_is_stdout options) (fc_output options)
        in thenM
          (if is_arg (argv ! 1) ''seal-file'' then
             if uses_standard_stream then streaming (seal_file_stream ossl (fc_key options) (fc_aad options))
             else on_paths (seal_file ossl (fc_input options) (fc_output options) (fc_key options) (fc_aad options))
           else if is_arg (argv ! 1) ''open-file'' then
             if uses_standard_stream then streaming (open_file_stream ossl (fc_key options) (fc_aad options))
             else on_paths (open_file ossl (fc_input options) (fc_output options) (fc_key options) (fc_aad options))
           else run_verify_file_command (fc_input_is_stdin options) (fc_input options)
                  (open_file_stream ossl (fc_key options) (fc_aad options)))
          (ret 0))
      else otherwise)"

definition run_password_files ::
  "('w, 'c, 'd) openssl \<Rightarrow> string list \<Rightarrow> ('w, int) cli_act \<Rightarrow> ('w, int) cli_act" where
  "run_password_files ossl argv otherwise =
     (let argc = length argv in
      if 2 \<le> argc \<and> (is_arg (argv ! 1) ''seal-file-password'' \<or> is_arg (argv ! 1) ''open-file-password'' \<or>
         is_arg (argv ! 1) ''verify-file-password'') then
        bindM (parse_password_file_command_options argv) (\<lambda>options.
        let uses_standard_stream = pf_input_is_stdin options \<or> pf_output_is_stdout options;
            streaming = run_streaming_file_command ossl (pf_input_is_stdin options) (pf_input options)
              (pf_output_is_stdout options) (pf_output options)
        in thenM
          (if is_arg (argv ! 1) ''seal-file-password'' then
             if uses_standard_stream then streaming (seal_password_stream ossl (pf_password options) (pf_aad options))
             else on_paths (seal_file_with_password ossl (pf_input options) (pf_output options) (pf_password options) (pf_aad options))
           else if is_arg (argv ! 1) ''open-file-password'' then
             if uses_standard_stream then streaming (open_password_stream ossl (pf_password options) (pf_aad options))
             else on_paths (open_file_with_password ossl (pf_input options) (pf_output options) (pf_password options) (pf_aad options))
           else run_verify_file_command (pf_input_is_stdin options) (pf_input options)
                  (open_password_stream ossl (pf_password options) (pf_aad options)))
          (ret 0))
      else otherwise)"

text \<open>The body of the \<^verbatim>\<open>try\<close> block.\<close>

definition run_body :: "('w, 'c, 'd) openssl \<Rightarrow> string list \<Rightarrow> ('w, int) cli_act" where
  "run_body ossl argv =
     run_help argv
    (run_digests ossl argv
    (run_encodings argv
    (run_keys ossl argv
    (run_packets ossl argv
    (run_files ossl argv
    (run_password_files ossl argv
    (fail ''unsupported command'')))))))"

text \<open>Both handlers print the message and return 1.\<close>

definition run :: "('w, 'c, 'd) openssl \<Rightarrow> string list \<Rightarrow> ('w, int) cli_act" where
  "run ossl argv = (\<lambda>s.
     case run_body ossl argv s of
       (Inl e, t) \<Rightarrow> fail (cli_what e) t
     | (Inr exit_code, t) \<Rightarrow> (Inr exit_code, t))"

section \<open>Lemmas: the standard streams\<close>

text \<open>
  Nothing but \<^verbatim>\<open>fail\<close> writes to the error stream, which holds \<open>e0\<close>. The standard
  output is \<open>o\<close> when the second argument is \<open>Some o\<close>.
\<close>

definition silent :: "string \<Rightarrow> ostream option \<Rightarrow> 'w cli_state \<Rightarrow> bool" where
  "silent e0 o0 s \<longleftrightarrow> cerr (fst s) = e0 \<and> (\<forall>o1. o0 = Some o1 \<longrightarrow> cout (fst s) = o1)"

definition silent_locals :: "string \<Rightarrow> ostream option \<Rightarrow> 'l \<times> 'w cli_state \<Rightarrow> bool" where
  "silent_locals e0 o0 s \<longleftrightarrow> silent e0 o0 (snd s)"

lemma preserves_modify: "(\<And>s. I s \<Longrightarrow> I (f s)) \<Longrightarrow> preserves I (modify f)"
  by (simp add: preserves_iff)

lemma silent_None: "silent e0 o0 s \<Longrightarrow> silent e0 None s"
  by (simp add: silent_def)

lemma reads_only_silent: "reads_only s t \<Longrightarrow> silent e0 o0 s \<Longrightarrow> silent e0 o0 t"
  unfolding reads_only_def silent_def using fs_onlyD by metis

lemma silent_reads: "(\<And>s0. preserves (reads_only s0) m) \<Longrightarrow> preserves (silent e0 o0) m"
  unfolding preserves_iff using reads_only_refl reads_only_silent by metis

lemma silent_calls [preserves_intros]:
  "preserves (silent e0 o0) (library k)" "preserves (silent e0 o0) (on_paths q)" "preserves (silent e0 o0) (on_files f)"
  by (auto simp: preserves_iff silent_def library_def on_paths_def on_files_def split: prod.splits)

lemma silent_put [preserves_intros]: "preserves (silent e0 None) (put_bytes b)"
  unfolding put_bytes_def by (rule preserves_modify) (simp add: silent_def case_prod_beta)

lemma silent_write_bytes_loop [preserves_intros]: "preserves (silent e0 None) (write_bytes_loop b)"
  by (induction b) (simp_all only: write_bytes_loop.simps, (intro preserves_intros | assumption)+)

lemma silent_printing [preserves_intros]:
  "preserves (silent e0 None) (put_text text)" "preserves (silent e0 None) (print_line text)"
  "preserves (silent e0 None) (write_bytes b)" "preserves (silent e0 None) print_help" "preserves (silent e0 None) print_version"
  unfolding put_text_def print_line_def write_bytes_def print_help_def print_version_def
  by (intro preserves_intros)+

lemma silent_parse_size [preserves_intros]: "preserves (silent e0 o0) (parse_size text)"
  by (simp add: preserves_iff parse_size_apply)

lemmas silent_parsers [preserves_intros] = reads_only_parsers [THEN silent_reads] reads_only_input(1) [THEN silent_reads]

text \<open>Inside the functions with local variables.\<close>

lemma silent_with_locals [preserves_intros]:
  "preserves (silent_locals e0 o0) m \<Longrightarrow> preserves (silent e0 o0) (with_locals l m)"
  unfolding preserves_iff silent_locals_def with_locals_def by (auto simp: case_prod_beta)

lemma silent_on_snd [preserves_intros]: "preserves (silent e0 o0) m \<Longrightarrow> preserves (silent_locals e0 o0) (on_snd m)"
  by (fastforce simp: preserves_iff silent_locals_def on_snd_def split: prod.splits)

lemma silent_local_steps [preserves_intros]:
  "preserves (silent_locals e0 o0) (modify (on_stream f))"
  "preserves (silent_locals e0 o0) (modify (\<lambda>(l, s). (g l, s)))"
  "preserves (silent_locals e0 None) (run_operation a b op i)"
  "preserves (silent_locals e0 o0) (run_operation a False op i)"
  by (auto simp: preserves_iff silent_locals_def silent_def on_stream_def run_operation_def split: prod.splits)

lemma silent_abandon: "silent_locals e0 o0 s \<Longrightarrow> silent_locals e0 o0 (abandon removes s)"
proof -
  have "cerr (fst (snd (abandon removes s))) = cerr (fst (snd s)) \<and> cout (fst (snd (abandon removes s))) = cout (fst (snd s))"
    by (auto simp: abandon_def on_stream_def remove_file_quietly_def on_files_def split: prod.splits)
  then show "silent_locals e0 o0 s \<Longrightarrow> ?thesis" by (simp add: silent_locals_def silent_def)
qed

lemma silent_open_attempts [preserves_intros]: "preserves (silent_locals e0 o0) (open_output_attempts ossl m p)"
  by (induction m)
    (simp_all only: open_output_attempts.simps temporary_output_path_for_def, (intro preserves_intros | assumption)+)

lemma silent_files [preserves_intros]:
  "preserves (silent e0 o0) (ensure_output_file_does_not_exist p)" "preserves (silent e0 o0) (open_cli_input_file p)"
  "preserves (silent e0 o0) (remove_file_quietly p)" "preserves (silent e0 o0) (commit_output_file t p)"
  "preserves (silent_locals e0 o0) (open_cli_output_file ossl p)" "preserves (silent_locals e0 o0) check_stream"
  unfolding ensure_output_file_does_not_exist_def open_cli_input_file_def remove_file_quietly_def commit_output_file_def
    open_cli_output_file_def check_stream_def
  by (intro preserves_intros)+

lemma silent_write_new [preserves_intros]: "preserves (silent e0 o0) (write_new_output_file ossl p writer)"
proof -
  have "preserves (silent_locals e0 o0) (\<lambda>(l, s). case writer (obuf (out_stream l)) of (r, o1) \<Rightarrow> (r, (g l o1, s)))"
    for g :: "'x output_locals_scheme \<Rightarrow> ostream \<Rightarrow> 'x output_locals_scheme"
    by (auto simp: preserves_iff silent_locals_def split: prod.splits)
  then show ?thesis
    unfolding write_new_output_file_def by (intro preserves_intros silent_abandon)
qed

lemma silent_output_files [preserves_intros]:
  "preserves (silent e0 o0) (write_binary_file ossl p data)" "preserves (silent e0 o0) (write_key_file ossl p key)"
  "preserves (silent e0 o0) (write_generated_key ossl p)"
  unfolding write_binary_file_def write_key_file_def write_generated_key_def by (intro preserves_intros)+

lemma silent_streaming:
  "preserves (silent e0 None) (run_streaming_file_command ossl a input b p op)"
  "preserves (silent e0 o0) (run_streaming_file_command ossl a input False p op)"
proof -
  have "preserves (silent e0 None) flush_cout"
    unfolding flush_cout_def by (rule preserves_modify) (simp add: silent_def case_prod_beta)
  then show "preserves (silent e0 None) (run_streaming_file_command ossl a input b p op)"
    unfolding run_streaming_file_command_def by (intro preserves_intros silent_abandon)
  show "preserves (silent e0 o0) (run_streaming_file_command ossl a input False p op)"
    unfolding run_streaming_file_command_def if_False by (intro preserves_intros silent_abandon)
qed

lemma silent_verify [preserves_intros]: "preserves (silent e0 o0) (run_verify_file_command a input op)"
proof -
  have "preserves (silent e0 o0) (\<lambda>(c, w). case op (i, discard_stream, w) of (r, (i1, _, w1)) \<Rightarrow> (h r, (c\<lparr>cin := k c i1\<rparr>, w1)))" for i h k
    by (auto simp: preserves_iff silent_def split: prod.splits)
  then show ?thesis
    unfolding run_verify_file_command_def by (intro preserves_intros)
qed

section \<open>Lemmas: exit codes\<close>

text \<open>
  The last step of a command: it may print, but a throw has printed nothing, unless \<open>streams\<close> says
  that the standard output is a file of the command.
\<close>

definition finishing :: "bool \<Rightarrow> ('w, unit) cli_act \<Rightarrow> bool" where
  "finishing streams m \<longleftrightarrow>
     (\<forall>e0 o0. (streams \<longrightarrow> o0 = None) \<longrightarrow> triple (silent e0 o0) m (\<lambda>_. silent e0 None) (\<lambda>_. silent e0 o0))"

text \<open>The computation exits with 0, with 1 and a message, or throws, where a failure has printed nothing.\<close>

definition exits :: "bool \<Rightarrow> ('w, int) cli_act \<Rightarrow> bool" where
  "exits streams m \<longleftrightarrow> (\<forall>e0 o0. (streams \<longrightarrow> o0 = None) \<longrightarrow> triple (silent e0 o0) m
     (\<lambda>exit_code s. exit_code = 0 \<and> silent e0 None s \<or> exit_code = 1 \<and> (\<exists>message. silent (e0 @ message @ newline) o0 s))
     (\<lambda>_. silent e0 o0))"

named_theorems exits_intros \<open>branches of the dispatch\<close>

lemma finishing_preserves: "(\<And>e0 o0. (streams \<longrightarrow> o0 = None) \<Longrightarrow> preserves (silent e0 o0) m) \<Longrightarrow> finishing streams m"
  unfolding finishing_def preserves_def by (blast intro: triple_weaken silent_None)

lemma finishing_prints:
  fixes m :: "('w, unit) cli_act"
  assumes "\<And>e0. preserves (silent e0 None) m" and "\<And>s. \<exists>t. m s = (Inr (), t)"
  shows "finishing streams m"
  unfolding finishing_def triple_def
proof (intro allI impI)
  fix e0 o0 and s :: "'w cli_state"
  assume "silent e0 o0 s"
  moreover obtain t where t: "m s = (Inr (), t)" using assms(2) by blast
  ultimately have "silent e0 None t" using preservesD [OF assms(1) silent_None t] by blast
  then show "case m s of (Inl e, t) \<Rightarrow> silent e0 o0 t | (Inr a, t) \<Rightarrow> silent e0 None t" by (simp add: t)
qed

lemma put_text_Inr: "\<exists>t. put_text text s = (Inr (), t)"
  by (simp add: put_text_def put_bytes_def act_simps)

lemma print_line_Inr: "\<exists>t. print_line text s = (Inr (), t)"
  unfolding print_line_def thenM_Inr using put_text_Inr by blast

lemma write_bytes_Inr: "\<exists>t. write_bytes b s = (Inr (), t)"
proof -
  have "\<exists>t. write_bytes_loop b s = (Inr (), t)"
    by (induction b arbitrary: s) (simp_all add: thenM_Inr put_bytes_def)
  then show ?thesis unfolding write_bytes_def thenM_Inr using put_text_Inr by blast
qed

lemma bindM_lift_Inr: "bindM (lift_result (Inr a)) f = f a"
  by (simp add: bindM_def fun_eq_iff)

lemma finishing_printing [exits_intros]:
  "finishing streams (print_line text)" "finishing streams (write_bytes b)" "finishing streams print_help"
  "finishing streams print_version" "finishing streams (print_hex b)"
proof -
  show line: "finishing streams (print_line x)" for x
    by (rule finishing_prints) (intro preserves_intros print_line_Inr)+
  show "finishing streams (write_bytes b)" by (rule finishing_prints) (intro preserves_intros write_bytes_Inr)+
  show "finishing streams print_help"
    unfolding print_help_def by (rule finishing_prints) (intro preserves_intros put_text_Inr)+
  show "finishing streams print_version"
    by (rule finishing_prints, intro preserves_intros) (simp add: print_version_def act_simps put_text_def put_bytes_def)
  show "finishing streams (print_hex b)"
  proof (cases "hex_encode b")
    case (Inl e)
    then show ?thesis by (simp add: finishing_def print_hex_def library_result_def triple_def act_simps)
  qed (simp add: print_hex_def library_result_def bindM_lift_Inr line)
qed

lemma finishing_files [exits_intros]:
  "finishing streams (on_paths q)" "finishing streams (write_binary_file ossl p data)" "finishing streams (write_key_file ossl p key)"
  "finishing streams (write_generated_key ossl p)" "finishing streams (run_verify_file_command a input op)"
  by (rule finishing_preserves, intro preserves_intros)+

lemma finishing_streaming: "(b \<longrightarrow> streams) \<Longrightarrow> finishing streams (run_streaming_file_command ossl a input b p op)"
  by (cases b) (auto intro!: finishing_preserves silent_streaming)

lemma finishing_if [exits_intros]:
  "(b \<Longrightarrow> finishing streams m) \<Longrightarrow> (\<not> b \<Longrightarrow> finishing streams n) \<Longrightarrow> finishing streams (if b then m else n)"
  by simp

lemma exits_if [exits_intros]:
  "(b \<Longrightarrow> exits streams m) \<Longrightarrow> (\<not> b \<Longrightarrow> exits streams n) \<Longrightarrow> exits streams (if b then m else n)"
  by simp

lemma exits_fail [exits_intros]: "exits streams (fail message)"
  by (auto simp: exits_def triple_def fail_def act_simps silent_def)

lemma exits_finish [exits_intros]: "finishing streams m \<Longrightarrow> exits streams (thenM m (ret 0))"
  unfolding exits_def finishing_def by (intro allI impI, rule triple_thenM, blast) (simp add: triple_def)

lemma exits_parse:
  assumes "\<And>e0 o0. preserves (silent e0 o0) m" and "\<And>s a t. m s = (Inr a, t) \<Longrightarrow> exits streams (f a)"
  shows "exits streams (bindM m f)"
  unfolding exits_def
proof (intro allI impI)
  fix e0 and o0 :: "ostream option"
  assume o0: "streams \<longrightarrow> o0 = None"
  have "triple (silent e0 o0) m (\<lambda>a s. (\<exists>s0. m s0 = (Inr a, s)) \<and> silent e0 o0 s) (\<lambda>_. silent e0 o0)"
    using preservesD [OF assms(1) [of e0 o0]] by (intro tripleI) blast+
  moreover have "triple (\<lambda>s. (\<exists>s0. m s0 = (Inr a, s)) \<and> silent e0 o0 s) (f a)
      (\<lambda>exit_code s. exit_code = 0 \<and> silent e0 None s \<or> exit_code = 1 \<and> (\<exists>message. silent (e0 @ message @ newline) o0 s))
      (\<lambda>_. silent e0 o0)" (is "triple ?P _ ?Q ?E") for a
  proof (cases "\<exists>s0 s. m s0 = (Inr a, s)")
    case True
    then have "triple (silent e0 o0) (f a) ?Q ?E" using assms(2) o0 unfolding exits_def by blast
    then show ?thesis by (rule triple_weaken) auto
  qed (simp add: triple_def)
  ultimately show "triple (silent e0 o0) (bindM m f)
      (\<lambda>exit_code s. exit_code = 0 \<and> silent e0 None s \<or> exit_code = 1 \<and> (\<exists>message. silent (e0 @ message @ newline) o0 s))
      (\<lambda>_. silent e0 o0)" by (rule triple_bindM)
qed

lemma exits_bindM [exits_intros]:
  "(\<And>e0 o0. preserves (silent e0 o0) m) \<Longrightarrow> (\<And>a. exits streams (f a)) \<Longrightarrow> exits streams (bindM m f)"
  by (rule exits_parse)

lemma exits_command_help [exits_intros]:
  "exits streams (bindM (print_command_help command) (\<lambda>known_command. if known_command then ret 0 else fail message))"
proof (cases "command_usage command")
  case None
  then show ?thesis using exits_fail [of streams message] by (simp add: print_command_help_def bindM_def exits_def triple_def)
next
  case (Some usage)
  have "bindM (print_command_help command) (\<lambda>known_command. if known_command then ret 0 else fail message) =
      thenM (print_line usage) (ret 0)"
    using Some by (simp add: print_command_help_def fun_eq_iff act_simps split: prod.split sum.split)
  then show ?thesis using exits_finish [OF finishing_printing(1)] by metis
qed

text \<open>The commands whose standard output is a file of theirs.\<close>

definition streams_to_cout :: "string list \<Rightarrow> bool" where
  "streams_to_cout argv \<longleftrightarrow> 2 \<le> length argv \<and>
     argv ! 1 \<in> {''seal-file'', ''open-file'', ''seal-file-password'', ''open-file-password''} \<and>
     (''--out'', ''-'') \<in> set (argument_pairs (drop 2 argv))"

lemma exits_groups [exits_intros]:
  "exits streams otherwise \<Longrightarrow> exits streams (run_help argv otherwise)"
  "exits streams otherwise \<Longrightarrow> exits streams (run_digests ossl argv otherwise)"
  "exits streams otherwise \<Longrightarrow> exits streams (run_encodings argv otherwise)"
  "exits streams otherwise \<Longrightarrow> exits streams (run_keys ossl argv otherwise)"
  "exits streams otherwise \<Longrightarrow> exits streams (run_packets ossl argv otherwise)"
  unfolding run_help_def run_digests_def run_encodings_def run_keys_def run_packets_def Let_def
  by ((rule exits_intros preserves_intros | assumption)+)

lemma exits_file_groups [exits_intros]:
  "exits (streams_to_cout argv) otherwise \<Longrightarrow> exits (streams_to_cout argv) (run_files ossl argv otherwise)"
  "exits (streams_to_cout argv) otherwise \<Longrightarrow> exits (streams_to_cout argv) (run_password_files ossl argv otherwise)"
proof -
  have keep: "preserves (silent e0 o0) (parse_file_command_options argv)"
    "preserves (silent e0 o0) (parse_password_file_command_options argv)" for e0 o0 by (intro preserves_intros)+
  assume "exits (streams_to_cout argv) otherwise"
  then show "exits (streams_to_cout argv) (run_files ossl argv otherwise)"
    unfolding run_files_def Let_def
    by (intro exits_if exits_parse [OF keep(1)] exits_finish finishing_if finishing_files finishing_streaming)
      (auto simp: is_arg_def streams_to_cout_def dest: output_is_stdout_given(1))
next
  have keep: "preserves (silent e0 o0) (parse_file_command_options argv)"
    "preserves (silent e0 o0) (parse_password_file_command_options argv)" for e0 o0 by (intro preserves_intros)+
  assume "exits (streams_to_cout argv) otherwise"
  then show "exits (streams_to_cout argv) (run_password_files ossl argv otherwise)"
    unfolding run_password_files_def Let_def
    by (intro exits_if exits_parse [OF keep(2)] exits_finish finishing_if finishing_files finishing_streaming)
      (auto simp: is_arg_def streams_to_cout_def dest: output_is_stdout_given(2))
qed

lemma exits_body: "exits (streams_to_cout argv) (run_body ossl argv)"
  unfolding run_body_def by (intro exits_intros)

section \<open>Lemmas: two commands followed through\<close>

lemma throw_if_False [simp]: "thenM (throw_if False e) m = m"
  by (simp add: fun_eq_iff thenM_apply throw_if_apply)

lemma parse_verify_arguments:
  "parse_file_command_options [prog, ''verify-file'', ''--in'', p, ''--key-hex'', k] s =
     (case fst (key_from_hex k s) of
        Inl e \<Rightarrow> (Inl e, s)
      | Inr key \<Rightarrow>
          (Inr (file_command_options_default\<lparr>fc_input := p, fc_input_is_stdin := p = ''-'', fc_has_input := True,
             fc_key := key, fc_has_key := True\<rparr>), s))"
  by (simp add: parse_file_command_options_def file_command_options_step_def file_command_options_default_def
      act_simps reject_duplicate_def reject_conflict_def is_standard_stream_marker_def key_from_option_def
      key_from_hex_apply split: sum.splits)

lemma run_verify_arguments:
  "run_body ossl [prog, ''verify-file'', ''--in'', p, ''--key-hex'', k] =
     bindM (parse_file_command_options [prog, ''verify-file'', ''--in'', p, ''--key-hex'', k]) (\<lambda>options.
       thenM (run_verify_file_command (fc_input_is_stdin options) (fc_input options)
         (open_file_stream ossl (fc_key options) (fc_aad options))) (ret 0))"
  by (simp add: run_body_def run_help_def run_digests_def run_encodings_def run_keys_def run_packets_def run_files_def
      is_arg_def Let_def)

text \<open>A verification reads a file and otherwise leaves the state alone.\<close>

lemma verify_file_wp:
  assumes "quiet (cli_fs c)" and "stream_limit (cli_fs c) = (\<lambda>_. None)" and "entries (cli_fs c) p = Some m"
    and "known (cli_fs c) m"
  shows "\<exists>i c1. good i \<and> \<not> faulty i \<and> remaining i = contents (cli_fs c) m \<and> c1 = c\<lparr>cli_fs := cli_fs c1\<rparr> \<and>
    arrived (cli_fs c) (cli_fs c1) \<and>
    run_verify_file_command False p op (c, w) =
      (case op (i, discard_stream, w) of (r, (_, _, w1)) \<Rightarrow> (map_sum library_error id r, (c1, w1)))"
proof -
  obtain r fs1 where o: "ifstream_open p (cli_fs c) = (r, fs1)" by fastforce
  have "\<exists>i. r = Some i \<and> reads_file (cli_fs c) p i"
    using open_input_wp [OF extends_refl, where p = p and fs = "cli_fs c"] o assms(1, 3)
    by (cases r) (simp_all add: open_input_def wp_simps)
  then obtain i where i: "r = Some i" "good i" "\<not> faulty i" "remaining i = contents (cli_fs c) m"
    using assms(2-4) by (auto simp: reads_file_def)
  have "c\<lparr>cli_fs := fs1, cin := cin c\<rparr> = c\<lparr>cli_fs := fs1\<rparr>" by simp
  then show ?thesis
    using o i ifstream_open_arrived [OF o]
    by (intro exI [of _ i] exI [of _ "c\<lparr>cli_fs := fs1\<rparr>"])
      (simp add: run_verify_file_command_def open_cli_input_file_def act_simps on_files_def split: prod.split)
qed

lemma key_from_hex_result:
  "(\<exists>key. fst (key_from_hex k s) = Inr key) \<longleftrightarrow> length k = 64 \<and> list_all is_hex_digit k"
  "fst (key_from_hex k s) = Inr key \<Longrightarrow> hex_decode k = Inr key \<and> is_key256 key"
proof -
  show "(\<exists>key. fst (key_from_hex k s) = Inr key) \<longleftrightarrow> length k = 64 \<and> list_all is_hex_digit k"
    using hex_digits_decode [of k] by (auto simp: key_from_hex_apply)
  assume "fst (key_from_hex k s) = Inr key"
  then have "key_from_hex k s = (Inr key, s)" by (simp add: key_from_hex_apply split: if_splits)
  then show "hex_decode k = Inr key \<and> is_key256 key" using key_from_hex_Inr by blast
qed

text \<open>Encrypting and decrypting without files.\<close>

lemma run_encrypt_arguments:
  "run_body ossl [prog, ''encrypt'', ''--text'', t, ''--key-hex'', k] =
     bindM (parse_encrypt_options [prog, ''encrypt'', ''--text'', t, ''--key-hex'', k]) (\<lambda>options.
       bindM (library (encrypt ossl (en_plaintext options) (en_key options) (en_aad options))) (\<lambda>packet.
       thenM (if en_has_output options then write_binary_file ossl (en_output options) packet else print_hex packet) (ret 0)))"
  "run_body ossl [prog, ''decrypt'', ''--packet-hex'', x, ''--key-hex'', k] =
     bindM (parse_decrypt_options [prog, ''decrypt'', ''--packet-hex'', x, ''--key-hex'', k]) (\<lambda>options.
       bindM (library (decrypt ossl (de_packet options) (de_key options) (de_aad options))) (\<lambda>plaintext.
       thenM (if de_has_output options then write_binary_file ossl (de_output options) plaintext else write_bytes plaintext)
         (ret 0)))"
  by (simp_all add: run_body_def run_help_def run_digests_def run_encodings_def run_keys_def run_packets_def is_arg_def Let_def)

lemma parse_encrypt_arguments:
  assumes "key_from_hex k s = (Inr key, s)"
  shows "parse_encrypt_options [prog, ''encrypt'', ''--text'', t, ''--key-hex'', k] s =
     (Inr (encrypt_options_default\<lparr>en_plaintext := bytes_from_text t, en_has_plaintext := True, en_key := key, en_has_key := True\<rparr>), s)"
  by (simp add: parse_encrypt_options_def encrypt_options_step_def encrypt_options_default_def
      act_simps reject_duplicate_def reject_conflict_def key_from_option_def assms)

lemma parse_decrypt_arguments:
  assumes "key_from_hex k s = (Inr key, s)" and "hex_decode x = Inr packet"
  shows "parse_decrypt_options [prog, ''decrypt'', ''--packet-hex'', x, ''--key-hex'', k] s =
     (Inr (decrypt_options_default\<lparr>de_packet := packet, de_has_packet := True, de_key := key, de_has_key := True\<rparr>), s)"
  by (simp add: parse_decrypt_options_def decrypt_options_step_def decrypt_options_default_def packet_source_def
      act_simps reject_duplicate_def reject_conflict_def key_from_option_def library_result_def assms)

text \<open>Printing to a standard output that takes everything.\<close>

definition prints :: "bytes \<Rightarrow> ('w, unit) cli_act \<Rightarrow> bool" where
  "prints b m \<longleftrightarrow> (\<forall>s. ostream_roomy (cout (fst s)) \<longrightarrow> (\<exists>s'. m s = (Inr (), s') \<and> snd s' = snd s \<and>
     written (cout (fst s')) = written (cout (fst s)) @ b \<and> ostream_roomy (cout (fst s'))))"

lemma prints_put_bytes: "prints b (put_bytes b)"
  by (auto simp: prints_def put_bytes_def ostream_write_def ostream_roomy_def)

lemma prints_thenM: "prints a m \<Longrightarrow> prints b n \<Longrightarrow> prints (a @ b) (thenM m n)"
  unfolding prints_def thenM_Inr by (metis append_assoc)

lemma prints_text: "prints (bytes_from_text text) (put_text text)"
  by (simp add: put_text_def prints_put_bytes)

lemma prints_lines:
  "prints (bytes_from_text text @ bytes_from_text newline) (print_line text)"
  "prints (b @ bytes_from_text newline) (write_bytes b)"
proof -
  have "prints b (write_bytes_loop b)"
  proof (induction b)
    case (Cons x b)
    from prints_thenM [OF prints_put_bytes [of "[x]"] this] show ?case by simp
  qed (simp add: prints_def)
  then show "prints (b @ bytes_from_text newline) (write_bytes b)"
    unfolding write_bytes_def by (rule prints_thenM [OF _ prints_text])
qed (simp add: print_line_def prints_thenM prints_text)

lemma prints_hex:
  assumes "length b \<le> string_max_size div 2"
  shows "prints (bytes_from_text (hex_encode_loop b) @ bytes_from_text newline) (print_hex b)"
  using assms prints_lines(1) by (simp add: print_hex_def library_result_def hex_encode_def bindM_lift_Inr)

lemma encrypt_size:
  assumes "gcm_documented ossl view ks tg" and "is_key256 key" and "encrypt ossl p key aad w = (Inr packet, w')"
  shows "length packet \<le> string_max_size div 2"
proof -
  from wp_InrD [OF encrypt_doc [OF assms(1, 2)] assms(3)] obtain nonce where
    "length nonce = kNonceSize" "packet = sealed_packet ks tg key nonce aad p" "length p \<le> int_max" by auto
  then have "length packet = kOverhead + length p"
    using gcm_documentedD(14) [OF assms(1)] by (simp add: sealed_packet_def Let_def)
  with \<open>length p \<le> int_max\<close> show ?thesis by (simp add: int_max_def string_max_size_def)
qed

lemma skf1_file_exists:
  assumes "valid_chunks chunks" and "length chunks \<le> 2 ^ 32"
  shows "\<exists>d. skf1_file ks tg kdf key aad d chunks"
proof -
  let ?h = "\<lparr>serialized = file_header_bytes (replicate 32 1) (replicate 8 2), salt = replicate 32 1, nonce_prefix = replicate 8 2\<rparr>"
  have "parse_file_header (serialized ?h) = Inr ?h"
    by (simp del: replicate.simps, subst parse_file_header_Inr) (auto simp del: replicate.simps)
  then show ?thesis
    using assms by (auto simp: skf1_file_def is_sealed_def simp del: replicate.simps intro!: exI [of _ ?h])
qed

section \<open>Properties\<close>

text \<open>
  C25: The exit code tells the outcome: for every argument list and whatever fails, \<^verbatim>\<open>run\<close>
  returns 0 with the error stream untouched, or 1 with one message line added to it. No exception leaves it.
  A run that returns 1 has printed nothing to the standard output, unless the command seals or opens to
  the standard output with \<^verbatim>\<open>--out -\<close>.
\<close>

theorem run_exit_code:
  "case run ossl argv (c, w) of (r, (c', _)) \<Rightarrow>
     r = Inr 0 \<and> cerr c' = cerr c \<or>
     r = Inr 1 \<and> (\<exists>message. cerr c' = cerr c @ message @ newline) \<and> (cout c' = cout c \<or> streams_to_cout argv)"
proof -
  obtain r c' w' where 1: "run_body ossl argv (c, w) = (r, (c', w'))" by (metis prod_cases3)
  define o0 where "o0 = (if streams_to_cout argv then None else Some (cout c))"
  have t: "triple (silent (cerr c) o0) (run_body ossl argv)
     (\<lambda>exit_code s. exit_code = 0 \<and> silent (cerr c) None s \<or>
        exit_code = 1 \<and> (\<exists>message. silent (cerr c @ message @ newline) o0 s))
     (\<lambda>_. silent (cerr c) o0)"
    using exits_body [of argv ossl, unfolded exits_def, rule_format, of o0] by (simp add: o0_def)
  have s: "silent (cerr c) o0 (c, w)" by (simp add: silent_def o0_def)
  have o0: "silent e0 o0 (c', w') \<Longrightarrow> cout c' = cout c \<or> streams_to_cout argv" for e0 by (auto simp: silent_def o0_def)
  show ?thesis
  proof (cases r)
    case (Inl e)
    then show ?thesis
      using triple_InlD [OF t s 1 [unfolded Inl]] o0 1 by (auto simp: run_def fail_def act_simps silent_def)
  next
    case (Inr a)
    then show ?thesis using triple_InrD [OF t s 1 [unfolded Inr]] o0 1 by (auto simp: run_def silent_def)
  qed
qed

text \<open>
  C6: \<^verbatim>\<open>verify-file\<close> decides authenticity. When no call fails and the library works, the
  command exits with 0 if and only if the key is 64 hex digits and the file is one sealed under it;
  in every case it prints nothing to the standard output and changes no file.
\<close>

theorem verify_file_exact:
  assumes "gcm_documented ossl view ks tg" and "gcm_available ossl view tg"
    and "kdf_documented ossl kdf scrypt" and "kdf_available ossl"
    and "quiet (cli_fs c)" and "stream_limit (cli_fs c) = (\<lambda>_. None)"
    and "entries (cli_fs c) p = Some m" and "known (cli_fs c) m" and "p \<noteq> ''-''"
  shows "case run ossl [prog, ''verify-file'', ''--in'', p, ''--key-hex'', k] (c, w) of (r, (c', _)) \<Rightarrow>
    (r = Inr 0 \<longleftrightarrow> (\<exists>key chunks. length k = 64 \<and> hex_decode k = Inr key \<and>
       skf1_file ks tg kdf key [] (contents (cli_fs c) m) chunks)) \<and>
    cout c' = cout c \<and> arrived (cli_fs c) (cli_fs c')"
proof (cases "fst (key_from_hex k (c, w))")
  case (Inl e)
  then have "\<not> (length k = 64 \<and> (\<exists>key. hex_decode k = Inr key))"
    using key_from_hex_result(1) [of k "(c, w)"] hex_decode_iff [of k] by auto
  then show ?thesis
    using Inl by (auto simp: run_def run_verify_arguments act_simps parse_verify_arguments fail_def)
next
  case (Inr key)
  have k: "hex_decode k = Inr key" "length k = 64"
    using key_from_hex_result(1) [of k "(c, w)"] key_from_hex_result(2) [OF Inr] Inr by auto
  let ?op = "open_file_stream ossl key []"
  obtain i c1 where i: "good i" "\<not> faulty i" "remaining i = contents (cli_fs c) m"
    and c1: "c1 = c\<lparr>cli_fs := cli_fs c1\<rparr>" "arrived (cli_fs c) (cli_fs c1)"
    and v: "run_verify_file_command False p ?op (c, w) =
      (case ?op (i, discard_stream, w) of (r, (_, _, w1)) \<Rightarrow> (map_sum library_error id r, (c1, w1)))"
    using verify_file_wp [OF assms(5-8), of ?op w] by (elim exE conjE) (rule that)
  have roomy: "ostream_roomy discard_stream" by (simp add: ostream_roomy_def discard_stream_def ostream_empty_def)
  obtain r i1 o1 w1 where o: "?op (i, discard_stream, w) = (r, (i1, o1, w1))" by (metis prod_cases4)
  have size: "kFileHeaderSize + 9 + length ([] :: bytes) \<le> int_max" by (simp add: int_max_def)
  have exact: "r = Inr () \<longleftrightarrow> (\<exists>chunks. skf1_file ks tg kdf key [] (remaining i) chunks)"
  proof
    assume "r = Inr ()"
    then show "\<exists>chunks. skf1_file ks tg kdf key [] (remaining i) chunks"
      using wp_InrD [OF stream_sink.open_file_wp [OF assms(1, 3) i(1)] o [unfolded stream_functions \<open>r = Inr ()\<close>]] by auto
  next
    assume "\<exists>chunks. skf1_file ks tg kdf key [] (remaining i) chunks"
    then obtain chunks where "skf1_file ks tg kdf key [] (remaining i) chunks" ..
    from open_file_complete [OF assms(1-4) i(1, 2) roomy size this, of w] show "r = Inr ()"
      using o by (elim exE conjE) simp
  qed
  have "run_body ossl [prog, ''verify-file'', ''--in'', p, ''--key-hex'', k] (c, w) =
      (map_sum library_error (\<lambda>_. 0) r, (c1, w1))"
    unfolding run_verify_arguments bindM_apply parse_verify_arguments Inr
    using assms(9) by (cases r) (simp_all add: file_command_options_default_def thenM_apply v o)
  then obtain c2 w2 where run: "run ossl [prog, ''verify-file'', ''--in'', p, ''--key-hex'', k] (c, w) =
      (Inr (if r = Inr () then 0 else 1), (c2, w2))" and "cout c2 = cout c1" "cli_fs c2 = cli_fs c1"
    by (cases r) (auto simp: run_def fail_def act_simps)
  moreover have "cout c1 = cout c" using fs_onlyD [OF c1(1)] by blast
  ultimately have "cout c2 = cout c" "arrived (cli_fs c) (cli_fs c2)" using c1(2) by simp_all
  moreover have "r = Inr () \<longleftrightarrow> (\<exists>chunks. skf1_file ks tg kdf key [] (contents (cli_fs c) m) chunks)"
    using exact i(3) by simp
  ultimately show ?thesis using k run by auto
qed

theorem verify_file_exact_witness:
  "\<exists>d. case run sample_ossl [''securekit'', ''verify-file'', ''--in'', ''in'', ''--key-hex'', hex_encode_loop (replicate 32 1)]
       (sample_cli\<lparr>cli_fs := sample_fs\<lparr>contents := (\<lambda>_. d)\<rparr>\<rparr>, 0) of
     (r, (c', _)) \<Rightarrow> r = Inr 0 \<and> cout c' = ostream_empty"
proof -
  obtain d where d: "skf1_file sample_ks sample_tag sample_kdf (replicate 32 1) [] d [[1, 2, 3]]"
    using skf1_file_exists [of "[[1, 2, 3]]" sample_ks sample_tag sample_kdf "replicate 32 1" "[]"]
    by (auto simp del: replicate.simps)
  let ?c = "sample_cli\<lparr>cli_fs := sample_fs\<lparr>contents := (\<lambda>_. d)\<rparr>\<rparr>"
  have "quiet (cli_fs ?c)" "stream_limit (cli_fs ?c) = (\<lambda>_. None)" "entries (cli_fs ?c) ''in'' = Some (Foreign 0)"
    "known (cli_fs ?c) (Foreign 0)" by (simp_all add: quiet_def known_def sample_fs_def)
  from verify_file_exact [OF sample_documented sample_available sample_kdf_documented sample_kdf_available this,
      where prog = "''securekit''" and k = "hex_encode_loop (replicate 32 1)" and w = 0]
  show ?thesis
    using d by (intro exI [of _ d]) (auto simp: hex_decode_encode simp del: replicate.simps hex_encode_loop.simps)
qed

text \<open>
  C10: Encrypting and decrypting on the command line, followed through two runs of the program: with a working
  backend and a standard output that takes everything, \<^verbatim>\<open>encrypt\<close> exits with 0 and prints
  a packet as hex digits, and \<^verbatim>\<open>decrypt\<close> of these digits under the same key exits with 0
  and prints the text.
\<close>

theorem encrypt_decrypt_commands:
  assumes "gcm_documented ossl view ks tg" and "gcm_available ossl view tg" and "rand_available ossl"
    and "length k = 64" and "list_all is_hex_digit k" and "length t \<le> int_max" and "ostream_roomy (cout c)"
  shows "\<exists>x c1 w1 c2 w2.
    run ossl [prog, ''encrypt'', ''--text'', t, ''--key-hex'', k] (c, w) = (Inr 0, (c1, w1)) \<and>
    written (cout c1) = written (cout c) @ bytes_from_text (x @ newline) \<and>
    run ossl [prog, ''decrypt'', ''--packet-hex'', x, ''--key-hex'', k] (c1, w1) = (Inr 0, (c2, w2)) \<and>
    written (cout c2) = written (cout c1) @ bytes_from_text (t @ newline)"
proof -
  obtain key where "fst (key_from_hex k s) = Inr key" for s :: "'a cli_state"
    using hex_digits_decode [OF assms(5, 4)] assms(4, 5) by (auto simp: key_from_hex_apply)
  then have kf: "key_from_hex k s = (Inr key, s)" and key: "is_key256 key" for s :: "'a cli_state"
    using key_from_hex_result(2) [of k s key] by (simp_all add: key_from_hex_apply split: if_splits)
  let ?p = "bytes_from_text t"
  have "length ?p \<le> int_max" using assms(6) by (simp add: bytes_from_text_def)
  then obtain packet w1 where e: "encrypt ossl ?p key [] w = (Inr packet, w1)"
    using encrypt_doc [OF assms(1) key, of ?p "[]" w] assms(2, 3)
    by (cases "encrypt ossl ?p key [] w"; cases "fst (encrypt ossl ?p key [] w)") (auto simp: wp_def size_fault_def)
  let ?x = "hex_encode_loop packet"
  obtain w2 where d: "decrypt ossl packet key [] w1 = (Inr ?p, w2)"
    using encrypt_decrypt [OF assms(1, 2) key e, of w1] by (metis prod.collapse)
  obtain c1 where c1: "print_hex packet (c, w1) = (Inr (), (c1, w1))" "ostream_roomy (cout c1)"
    "written (cout c1) = written (cout c) @ bytes_from_text ?x @ bytes_from_text newline"
    using prints_hex [OF encrypt_size [OF assms(1) key e]] assms(7) unfolding prints_def by (metis fst_conv prod.collapse snd_conv)
  obtain c2 where c2: "write_bytes ?p (c1, w2) = (Inr (), (c2, w2))"
    "written (cout c2) = written (cout c1) @ ?p @ bytes_from_text newline"
    using prints_lines(2) [of ?p] c1(2) unfolding prints_def by (metis fst_conv prod.collapse snd_conv)
  have "run_body ossl [prog, ''encrypt'', ''--text'', t, ''--key-hex'', k] (c, w) = (Inr 0, (c1, w1))"
    unfolding run_encrypt_arguments bindM_apply parse_encrypt_arguments [OF kf]
    by (simp add: encrypt_options_default_def library_def e act_simps c1(1))
  moreover have "run_body ossl [prog, ''decrypt'', ''--packet-hex'', ?x, ''--key-hex'', k] (c1, w1) = (Inr 0, (c2, w2))"
    unfolding run_encrypt_arguments bindM_apply parse_decrypt_arguments [OF kf hex_decode_encode]
    by (simp add: decrypt_options_default_def library_def d act_simps c2(1))
  ultimately show ?thesis
    using c1(3) c2(2) by (intro exI [of _ ?x] exI [of _ c1] exI [of _ w1] exI [of _ c2] exI [of _ w2])
      (simp add: run_def bytes_from_text_def)
qed

theorem encrypt_decrypt_commands_witness:
  "\<exists>x c1 w1 c2 w2.
    run sample_ossl [''securekit'', ''encrypt'', ''--text'', ''hello'', ''--key-hex'', replicate 64 CHR ''a''] (sample_cli, 0) =
      (Inr 0, (c1, w1)) \<and>
    run sample_ossl [''securekit'', ''decrypt'', ''--packet-hex'', x, ''--key-hex'', replicate 64 CHR ''a''] (c1, w1) =
      (Inr 0, (c2, w2)) \<and>
    written (cout c2) = written (cout c1) @ bytes_from_text (''hello'' @ newline)"
proof -
  have "is_hex_digit (CHR ''a'')" unfolding hex_digit_cases by simp
  then have "list_all is_hex_digit (replicate 64 CHR ''a'')" by (simp add: list_all_iff)
  moreover have "ostream_roomy (cout sample_cli)" by (simp add: ostream_roomy_def ostream_empty_def)
  ultimately show ?thesis
    using encrypt_decrypt_commands [OF sample_documented sample_available sample_rand_available, where c = sample_cli
        and k = "replicate 64 CHR ''a''" and t = "''hello''" and w = 0 and prog = "''securekit''"]
    by (simp add: int_max_def del: replicate.simps) blast
qed

end
