(* ===== verification/Spec2Isabelle.thy ===== *)
theory Spec2Isabelle
  imports Hex Base64 Compare Randomness Hashing Wiping_Files File_Platforms Cli_Values Cli
begin

text \<open>
  SecureKit, a C++ library of symmetric cryptography over OpenSSL, and its command line program.
  This development models the library (\<^verbatim>\<open>src/*.cpp\<close>) and the program
  (\<^verbatim>\<open>src/cli/commands.cpp\<close>) as functions the kernel can evaluate, and proves
  what makes them correct.

  The parts and how they interact. Text encodings and comparison are pure. Randomness and hashes
  call OpenSSL once per operation and check what it returns. The streaming objects of
  \<^verbatim>\<open>packet_stream.cpp\<close> drive one AES-256-GCM context through begin, update and
  finalize; \<^verbatim>\<open>encrypt\<close>, \<^verbatim>\<open>decrypt\<close> and key wrapping use
  them for whole packets. Files have formats of their own (\<^verbatim>\<open>SKF1\<close> with a key,
  \<^verbatim>\<open>SKP1\<close> with a password): a header, then records of one chunk each; the
  chunks are encrypted under a key derived from the header's salt. The loops over the records read
  a stream and write either a stream or a temporary file, which is linked to its name when all of
  it is on disk. The command line program parses its arguments, calls the library and writes its
  own new files.

  Conventions. A computation takes a state and returns an error or a result, with the state it
  leaves (\<open>('e, 's, 'a) act\<close>, theory Prelude); an exception keeps the state changes
  made before it, a destructor or a handler is a state change made on the way out
  (\<open>on_throw\<close>, \<open>with_object\<close>, \<open>with_output\<close>,
  \<open>with_locals\<close>). Bytes are 8-bit words, \<^verbatim>\<open>std::uint32_t\<close> is a
  32-bit and \<^verbatim>\<open>std::size_t\<close> a 64-bit word where it can wrap; the length of a
  container is a \<open>nat\<close>. \<^verbatim>\<open>Key256\<close> is a list, of 32 bytes by
  \<open>is_key256\<close>. Proofs about computations go through the weakest precondition
  \<open>wp\<close> and its rules, collected in \<open>wp_simps\<close>.
\<close>

section \<open>Theories and sources\<close>

text \<open>
  \<^item> Prelude: \<^verbatim>\<open>types.hpp\<close>, \<^verbatim>\<open>error.hpp\<close>,
    \<^verbatim>\<open>error.cpp\<close>; computations, triples, words and lists.
  \<^item> Codec, Hex, Base64: \<^verbatim>\<open>hex.cpp\<close>, \<^verbatim>\<open>base64.cpp\<close>.
    The locale \<open>strict_codec\<close> is the contract of an encoder with its decoder,
    \<open>canonical_codec\<close> that of one that accepts a single text per value. Hex interprets the
    first, Base64 and Base64URL the second.
  \<^item> Compare: \<^verbatim>\<open>compare.cpp\<close>, with the trace of the positions it reads.
  \<^item> Openssl: the OpenSSL functions the sources call, a record of parameters, and what the
    manual pages say of them.
  \<^item> Randomness, Hashing: \<^verbatim>\<open>random.cpp\<close>, \<^verbatim>\<open>hash.cpp\<close>.
  \<^item> Packet_Stream: \<^verbatim>\<open>aead_internal.hpp\<close> and
    \<^verbatim>\<open>packet_stream.cpp\<close>. The locale \<open>one_shot_stream\<close> is the
    contract of both objects; it gives the reachable states and the order of the calls.
  \<^item> Aead: \<^verbatim>\<open>aead.cpp\<close> and \<^verbatim>\<open>key_wrap.cpp\<close>, with the
    specification \<open>decrypt_spec\<close> that decryption refines.
  \<^item> Iostream: what the sources use of \<^verbatim>\<open>std::istream\<close> and
    \<^verbatim>\<open>std::ostream\<close>, and the helpers of \<^verbatim>\<open>file_io.cpp\<close>
    over them.
  \<^item> File_Format, File_Crypto: \<^verbatim>\<open>file_detail.hpp\<close> and
    \<^verbatim>\<open>file_crypto.cpp\<close>: headers, records, nonces; keys and chunks.
  \<^item> File_Payload, File_Streams, File_Paths: \<^verbatim>\<open>file.cpp\<close>: the loops over
    the records, the functions on streams, the functions on paths. The locale \<open>sink\<close> is
    the contract of the template parameter \<^verbatim>\<open>Output\<close>; output streams and
    output files both interpret it.
  \<^item> File_System: POSIX files, buffered \<^verbatim>\<open>FILE\<close> output and
    \<^verbatim>\<open>std::ifstream\<close>.
  \<^item> File_Io: \<^verbatim>\<open>file_io.cpp\<close>: output files, temporary names, commit.
  \<^item> File_Platforms: the branches of \<^verbatim>\<open>file_io.cpp\<close> for Windows and for platforms that
    are neither Windows nor Unix: exclusive creation, flush and commit.
  \<^item> Wiping, Wiping_Files: \<^verbatim>\<open>wipe.hpp\<close> and its calls. The functions that keep secrets in
    storage of their own are given once more, with a record of what that storage holds when it is given back
    (\<open>decrypt_mem\<close> for \<open>decrypt\<close>); \<open>tidy\<close> says that the two versions do the same and that
    the record is all zeros.
  \<^item> Cli_State, Cli_Input, Cli_Options, Cli_Values, Cli_Output, Cli:
    \<^verbatim>\<open>cli/commands.cpp\<close>: the state of the program with its texts and
    printing; keys, passwords, sizes and files read; the six kinds of options, their parsers and
    what these return; new output files, streaming and verification; \<^verbatim>\<open>run\<close>.

  A definition has the name of the function it translates. Where a function of the source is long,
  the blocks it consists of have definitions of their own, composed in the same order
  (\<open>seal_step\<close> and \<open>seal_loop\<close> of \<open>seal_stream_payload\<close>,
  \<open>run_help\<close> to \<open>run_password_files\<close> of \<open>run\<close>).
\<close>

section \<open>What is outside the repository\<close>

text \<open>
  OpenSSL is the argument \<open>ossl\<close>, with one field per function called. Most theorems ask
  nothing of it. Others have a hypothesis: \<open>gcm_documented\<close> is what a call of the GCM
  interface that reports success has done, over some key stream and some tag function;
  \<open>gcm_available\<close> says which calls report success; \<open>rand_documented\<close> and
  \<open>kdf_documented\<close> give the sizes of what is returned, \<open>rand_available\<close> that
  it is returned; \<open>hash_documented\<close> says what a digest context has taken in and what the MAC and HKDF calls
  compute; \<open>gcm_final_documented\<close> says that the last call of a decryption writes nothing, and
  \<open>cleanse_documented\<close> that \<^verbatim>\<open>OPENSSL_cleanse\<close> writes zeros. Nothing is assumed about the strength of the cipher: an
  authentic packet or file is one whose tags are those of the tag function, and forgery of tags is
  outside the model. \<open>sample_ossl\<close> is a backend that keeps every hypothesis and on which
  the witnesses run.

  The file system makes one tick per call. Whether a call fails, how much a failing write takes,
  where a stream breaks and which files other programs create before the call are functions of the
  tick, and are left open: a theorem for every file system holds for every fault, for a crash
  from some tick on, and for every interleaving with programs that create files. Other programs do
  not remove or rewrite the files of this one.

  The command line program opens its temporary files with \<^verbatim>\<open>exists\<close> and then
  \<^verbatim>\<open>trunc\<close>, which is safe only when no other program uses the temporary name;
  \<open>temps_free\<close> says so. Input streams end or break at a point that is part of their
  state, output streams take as many bytes as their room is. The arguments of a call are evaluated
  from left to right.
\<close>

section \<open>Theorems\<close>

text \<open>
  Packets: the order of the calls on a streaming object and the invariant of its state; the bytes
  \<^verbatim>\<open>encrypt\<close> returns; decryption inverts encryption, accepts authentic packets
  only and refines its specification in the order of its errors; streaming in pieces of any sizes
  gives what one call gives; wrapped keys.

  Files on streams: the exact output of sealing; opening returns exactly for sealed files and,
  even when it throws, has released only authentic plaintext in order; opening what was sealed; the
  headers and record headers accepted are exactly the documented ones; nonces are distinct.

  Files on paths: under every fault and interleaving the output is complete, synchronized and
  authentic, or not there, and nothing else has changed but a temporary file that could not be
  removed; an output that exists is refused untouched; when nothing fails, sealing and opening
  succeed and give back the content; the search for a temporary name ends. Publishing a file on Windows is
  atomic, too, and on Windows and Unix it never takes the place of a file that another program creates meanwhile
  (\<open>others_kept\<close>); where there is neither \<^verbatim>\<open>link\<close> nor \<^verbatim>\<open>MoveFileExW\<close> it is so
  only if no other program creates the output (\<open>portable_commit_race\<close> is the counterexample).

  Storage of secrets: copies of keys and additional data, derived keys and recovered plaintext are zeros
  when their storage is given back, on every path but the failures of OpenSSL and of a constructor that
  \<open>packet_untidy\<close> and \<open>file_untidy\<close> name.

  Encodings and the rest: the decoders accept exactly the canonical texts and invert the encoders;
  comparison decides equality and reads positions that depend on the lengths alone; random tokens decode to
  as many bytes as asked for; what the hash functions return is the digest, the MAC and the derived bytes of all of
  their inputs.

  Command line: the parsers of options and sizes; the exit code and the one message of a failure,
  with no exception left and, unless the standard output is the file the command writes, nothing
  printed; new output files and streamed outputs are complete or not there; key
  files read back; verification exits with 0 exactly for authentic files and changes nothing;
  decrypt gives back the text encrypt was given.
\<close>

section \<open>Bounds\<close>

text \<open>
  No definition has fuel. The loops end because the input gets shorter or a counter reaches its
  limit: \<open>seal_loop\<close> and \<open>open_loop\<close> stop at the chunk index
  \<open>2 ^ 32 - 1\<close> at the latest, which is the bound of the code and the measure of their
  termination proofs; \<open>fill_random\<close> takes at most \<^verbatim>\<open>INT_MAX\<close> bytes
  per round; both searches for a temporary name make 32 attempts, as in the code. The limits of
  \<^verbatim>\<open>std::string\<close> and \<^verbatim>\<open>std::vector\<close> are
  \<open>string_max_size\<close> and \<open>bytes_max_size\<close>.
\<close>

section \<open>Not modelled\<close>

text \<open>
  \<^item> \<^verbatim>\<open>set_standard_stream_binary\<close> of \<^verbatim>\<open>commands.cpp\<close>,
    which does nothing on POSIX systems; the command line program is modelled for these.
  \<^item> Copies of secrets the code does not own or does not wipe: the caller's arguments and results, the buffer
    sealing reads its input into, buffers of streams, memory of OpenSSL. The README promises no erasure.
  \<^item> \<^verbatim>\<open>version.cpp\<close>, which returns macros of the build; the version text is
    the field \<open>build_version\<close>.
  \<^item> Failing allocations, but for the checks of sizes the code makes itself.
  \<^item> The public headers declare what is modelled with its definition; benchmarks, examples,
    tests and the build are not part of the library or the program.
\<close>

end
